(* ===== verification/Kuiper_Prelude.thy ===== *)
theory Kuiper_Prelude
  imports Main "HOL-Library.Word"
begin

text \<open>
  Shared vocabulary of the development: the fixed-width integer types of the C++ sources, the
  result type in which a failed \<open>assert\<close>, a thrown exception or undefined behaviour is a
  value, the two combinators that sequence such results, and the lemmas on words and lists that
  the component theories use.
\<close>

unbundle bit_operations_syntax

section \<open>Machine integers\<close>

type_synonym u8 = "8 word"
type_synonym u16 = "16 word"
type_synonym u32 = "32 word"
type_synonym u64 = "64 word"

section \<open>Results of operations that can stop the program\<close>

text \<open>
  The build defines no \<open>NDEBUG\<close>, so every \<open>assert\<close> of the sources is live: its failure
  ends the run. \<open>AssertFail\<close> carries the asserted condition as written in the source,
  \<open>Throw\<close> an exception, and \<open>Undef\<close> an operation the C++ standard leaves undefined
  (a shift by the width, an access outside an array, a null dereference).
\<close>

datatype abort = AssertFail string | Throw string | Undef string

type_synonym 'a result = "abort + 'a"

definition check :: "string \<Rightarrow> bool \<Rightarrow> 'a result \<Rightarrow> 'a result" where
  "check c b k = (if b then k else Inl (AssertFail c))"

definition defined :: "string \<Rightarrow> bool \<Rightarrow> 'a result \<Rightarrow> 'a result" where
  "defined c b k = (if b then k else Inl (Undef c))"

fun bindR :: "'a result \<Rightarrow> ('a \<Rightarrow> 'b result) \<Rightarrow> 'b result" where
  "bindR (Inl e) f = Inl e"
| "bindR (Inr x) f = f x"

lemma check_True [simp]: "check c True k = k"
  by (simp add: check_def)

lemma check_False [simp]: "check c False k = Inl (AssertFail c)"
  by (simp add: check_def)

lemma check_Inr [simp]: "check c b k = Inr r \<longleftrightarrow> b \<and> k = Inr r"
  by (simp add: check_def)

lemma defined_True [simp]: "defined c True k = k"
  by (simp add: defined_def)

lemma defined_False [simp]: "defined c False k = Inl (Undef c)"
  by (simp add: defined_def)

lemma defined_Inr [simp]: "defined c b k = Inr r \<longleftrightarrow> b \<and> k = Inr r"
  by (simp add: defined_def)

lemma bindR_Inr [simp]: "bindR m f = Inr r \<longleftrightarrow> (\<exists>x. m = Inr x \<and> f x = Inr r)"
  by (cases m) auto

lemma bindR_assoc: "bindR (bindR m f) g = bindR m (\<lambda>x. bindR (f x) g)"
  by (cases m) auto

text \<open>
  The loop \<open>while (it != end) if (P(*it)) it = erase(it); else ++it;\<close> where evaluating \<open>P\<close> may
  stop the program.
\<close>

fun erase_ifR :: "('a \<Rightarrow> bool result) \<Rightarrow> 'a list \<Rightarrow> 'a list result" where
  "erase_ifR P [] = Inr []"
| "erase_ifR P (x # xs) =
     bindR (P x) (\<lambda>b. bindR (erase_ifR P xs) (\<lambda>ys. Inr (if b then ys else x # ys)))"

lemma erase_ifR_filter:
  "(\<And>x. x \<in> set xs \<Longrightarrow> P x = Inr (p x)) \<Longrightarrow> erase_ifR P xs = Inr (filter (\<lambda>x. \<not> p x) xs)"
  by (induction xs) auto

fun mapR :: "('a \<Rightarrow> 'b result) \<Rightarrow> 'a list \<Rightarrow> 'b list result" where
  "mapR f [] = Inr []"
| "mapR f (x # xs) = bindR (f x) (\<lambda>y. bindR (mapR f xs) (\<lambda>ys. Inr (y # ys)))"

lemma mapR_map: "(\<And>x. x \<in> set xs \<Longrightarrow> f x = Inr (g x)) \<Longrightarrow> mapR f xs = Inr (map g xs)"
  by (induction xs) auto

section \<open>Words\<close>

text \<open>A mask of \<open>n\<close> ones, the form the bit-field helpers build by \<open>(1 << n) - 1\<close>.\<close>

lemma push_bit_one_minus_one: "push_bit n (1 :: 'a::len word) - 1 = mask n"
  by (simp add: mask_eq_exp_minus_1 push_bit_eq_mult)

lemma bit_drop_and_mask:
  "bit (drop_bit l v AND mask m) n \<longleftrightarrow> n < m \<and> bit (v :: 'a::len word) (n + l)"
  by (auto simp: bit_simps ac_simps dest: bit_imp_le_length)

lemma word_eq_zero_bits: "(v :: 'a::len word) = 0 \<longleftrightarrow> (\<forall>n < LENGTH('a). \<not> bit v n)"
  by (auto intro: bit_word_eqI)

lemma unat_lt_exp_bits:
  assumes "unat (v :: 'a::len word) < 2 ^ m" and "m \<le> n"
  shows "\<not> bit v n"
proof -
  have "unat v < 2 ^ n"
    using assms by (meson less_le_trans one_le_numeral power_increasing)
  then have "\<not> bit (unat v) n"
    by (simp add: bit_iff_odd)
  then show ?thesis
    by (auto simp: bit_unsigned_iff dest: bit_imp_le_length)
qed

lemma unat_exp_eq: "n < LENGTH('a) \<Longrightarrow> unat (2 ^ n :: 'a::len word) = 2 ^ n"
proof -
  assume "n < LENGTH('a)"
  then have "(2 :: nat) ^ n < 2 ^ LENGTH('a)" by simp
  moreover have "(2 ^ n :: 'a word) = word_of_nat (2 ^ n)" by simp
  ultimately show ?thesis by (simp only: unat_of_nat take_bit_eq_mod mod_less)
qed

lemma unat_u32_less: "unat (w :: u32) < 2 ^ 32"
  using unsigned_less [of w, where ?'a = nat] by simp

lemma unat_ucast_u32: "unat (ucast (w :: u32) :: u64) = unat w"
  using unat_u32_less [of w] by (simp add: unsigned_ucast_eq take_bit_nat_eq_self)

section \<open>Halving search for the highest set bit\<close>

text \<open>
  The sources compute a base-2 logarithm by halving a window: \<open>log_inv v0 w m v\<close> says that
  \<open>v\<close> is what remains of \<open>v0\<close> after dropping \<open>m\<close> bits, is not zero, and fits \<open>w\<close> bits.
\<close>

definition log_inv :: "nat \<Rightarrow> nat \<Rightarrow> nat \<Rightarrow> nat \<Rightarrow> bool" where
  "log_inv v0 w m v \<longleftrightarrow> v = v0 div 2 ^ m \<and> 0 < v \<and> v < 2 ^ w"

lemma log_inv_step:
  assumes "log_inv v0 (2 * h) m v"
  shows "if v div 2 ^ h \<noteq> 0 then log_inv v0 h (m + h) (v div 2 ^ h) else log_inv v0 h m v"
proof -
  have "v < 2 ^ h * 2 ^ h" using assms by (simp add: log_inv_def mult_2 power_add)
  then have "v div 2 ^ h < 2 ^ h" by (rule less_mult_imp_div_less)
  moreover have "v < 2 ^ h" if "v div 2 ^ h = 0" using that by (simp add: div_eq_0_iff)
  ultimately show ?thesis
    using assms by (auto simp: log_inv_def power_add div_mult2_eq)
qed

lemma log_inv_final:
  assumes "log_inv v0 1 m v"
  shows "2 ^ m \<le> v0 \<and> v0 < 2 ^ (m + 1)"
proof -
  have "v0 div 2 ^ m = 1" using assms by (simp add: log_inv_def)
  then have "v0 = 2 ^ m + v0 mod 2 ^ m" using div_mult_mod_eq [of v0 "2 ^ m"] by simp
  moreover have "v0 mod 2 ^ m < 2 ^ m" by simp
  ultimately show ?thesis by (metis add_less_cancel_left le_add1 mult_2 power_Suc Suc_eq_plus1)
qed

section \<open>Lists\<close>

text \<open>Insertion of an element before the first one that satisfies a predicate.\<close>

fun insert_before :: "('a \<Rightarrow> bool) \<Rightarrow> 'a \<Rightarrow> 'a list \<Rightarrow> 'a list" where
  "insert_before P x [] = [x]"
| "insert_before P x (y # ys) = (if P y then x # y # ys else y # insert_before P x ys)"

lemma set_insert_before [simp]: "set (insert_before P x xs) = insert x (set xs)"
  by (induction xs) auto

lemma length_insert_before [simp]: "length (insert_before P x xs) = Suc (length xs)"
  by (induction xs) auto

lemma distinct_insert_before [simp]:
  "distinct (insert_before P x xs) \<longleftrightarrow> x \<notin> set xs \<and> distinct xs"
  by (induction xs) auto

lemma sorted_insert_before:
  assumes "sorted (map f xs)"
  shows "sorted (map f (insert_before (\<lambda>y. f x < f y) x xs))"
  using assms by (induction xs) auto

end
