(* ===== verification/Bitfield.thy ===== *)
theory Bitfield
  imports Kuiper_Prelude
begin

text \<open>
  \<open>base/include/bitfield.h\<close> and \<open>base/bitfield.cpp\<close>: bit-field extraction and insertion,
  bit reversal by table, searches for the highest and lowest set bit, and rounding to a power of
  two. The templates are instantiated at \<open>uint64_t\<close>, the type the repository uses them at
  (bit reversal also at \<open>uint8_t\<close>, which the source treats apart). A position argument is an
  \<open>unsigned\<close> and so a \<open>u32\<close>.
\<close>

section \<open>Definitions\<close>

definition mask_nbits :: "u32 \<Rightarrow> u64" where
  "mask_nbits nbits = (if 64 \<le> nbits then - 1 else push_bit (unat nbits) 1 - 1)"

definition bits :: "u64 \<Rightarrow> u32 \<Rightarrow> u32 \<Rightarrow> u64 result" where
  "bits val hi lo =
     check ''first >= last'' (hi \<ge> lo)
       (let nbits = hi - lo + 1
        in defined ''val >> last'' (lo < 64)
             (Inr (drop_bit (unat lo) val AND mask_nbits nbits)))"

definition bits_at :: "u64 \<Rightarrow> u32 \<Rightarrow> u64 result" where
  "bits_at val b = bits val b b"

definition mbits :: "u64 \<Rightarrow> u32 \<Rightarrow> u32 \<Rightarrow> u64" where
  "mbits val hi lo = val AND (mask_nbits (hi + 1) AND NOT (mask_nbits lo))"

definition mask_range :: "u32 \<Rightarrow> u32 \<Rightarrow> u64" where
  "mask_range hi lo = mbits (- 1) hi lo"

definition sext :: "u64 \<Rightarrow> u32 \<Rightarrow> u64 result" where
  "sext val N =
     bindR (bits_at val (N - 1)) (\<lambda>sign_bit.
       Inr (if sign_bit \<noteq> 0 then val OR NOT (mask_nbits N) else val))"

definition szext :: "u32 \<Rightarrow> u64 \<Rightarrow> u64 result" where
  "szext N val =
     bindR (bits_at val (N - 1)) (\<lambda>sign_bit.
       Inr (if sign_bit \<noteq> 0 then val OR NOT (mask_nbits N) else val AND mask_nbits N))"

definition insertBits :: "u64 \<Rightarrow> u32 \<Rightarrow> u32 \<Rightarrow> u64 \<Rightarrow> u64 result" where
  "insertBits val hi lo bit_val =
     check ''first >= last'' (hi \<ge> lo)
       (let bmask = mask_range hi lo; val = val AND NOT bmask
        in defined ''bit_val << last'' (lo < 64)
             (Inr (val OR (push_bit (unat lo) bit_val AND bmask))))"

definition insertBits_at :: "u64 \<Rightarrow> u32 \<Rightarrow> u64 \<Rightarrow> u64 result" where
  "insertBits_at val b bit_val = insertBits val b b bit_val"

definition replaceBits :: "u64 \<Rightarrow> u32 \<Rightarrow> u32 \<Rightarrow> u64 \<Rightarrow> u64 result" where
  "replaceBits val hi lo bit_val = insertBits val hi lo bit_val"

definition replaceBits_at :: "u64 \<Rightarrow> u32 \<Rightarrow> u64 \<Rightarrow> u64 result" where
  "replaceBits_at val b bit_val = insertBits val b b bit_val"

definition reverseBitsLookUpTable :: "u8 list" where
  "reverseBitsLookUpTable =
    [0x00, 0x80, 0x40, 0xC0, 0x20, 0xA0, 0x60, 0xE0, 0x10, 0x90, 0x50, 0xD0,
     0x30, 0xB0, 0x70, 0xF0, 0x08, 0x88, 0x48, 0xC8, 0x28, 0xA8, 0x68, 0xE8,
     0x18, 0x98, 0x58, 0xD8, 0x38, 0xB8, 0x78, 0xF8, 0x04, 0x84, 0x44, 0xC4,
     0x24, 0xA4, 0x64, 0xE4, 0x14, 0x94, 0x54, 0xD4, 0x34, 0xB4, 0x74, 0xF4,
     0x0C, 0x8C, 0x4C, 0xCC, 0x2C, 0xAC, 0x6C, 0xEC, 0x1C, 0x9C, 0x5C, 0xDC,
     0x3C, 0xBC, 0x7C, 0xFC, 0x02, 0x82, 0x42, 0xC2, 0x22, 0xA2, 0x62, 0xE2,
     0x12, 0x92, 0x52, 0xD2, 0x32, 0xB2, 0x72, 0xF2, 0x0A, 0x8A, 0x4A, 0xCA,
     0x2A, 0xAA, 0x6A, 0xEA, 0x1A, 0x9A, 0x5A, 0xDA, 0x3A, 0xBA, 0x7A, 0xFA,
     0x06, 0x86, 0x46, 0xC6, 0x26, 0xA6, 0x66, 0xE6, 0x16, 0x96, 0x56, 0xD6,
     0x36, 0xB6, 0x76, 0xF6, 0x0E, 0x8E, 0x4E, 0xCE, 0x2E, 0xAE, 0x6E, 0xEE,
     0x1E, 0x9E, 0x5E, 0xDE, 0x3E, 0xBE, 0x7E, 0xFE, 0x01, 0x81, 0x41, 0xC1,
     0x21, 0xA1, 0x61, 0xE1, 0x11, 0x91, 0x51, 0xD1, 0x31, 0xB1, 0x71, 0xF1,
     0x09, 0x89, 0x49, 0xC9, 0x29, 0xA9, 0x69, 0xE9, 0x19, 0x99, 0x59, 0xD9,
     0x39, 0xB9, 0x79, 0xF9, 0x05, 0x85, 0x45, 0xC5, 0x25, 0xA5, 0x65, 0xE5,
     0x15, 0x95, 0x55, 0xD5, 0x35, 0xB5, 0x75, 0xF5, 0x0D, 0x8D, 0x4D, 0xCD,
     0x2D, 0xAD, 0x6D, 0xED, 0x1D, 0x9D, 0x5D, 0xDD, 0x3D, 0xBD, 0x7D, 0xFD,
     0x03, 0x83, 0x43, 0xC3, 0x23, 0xA3, 0x63, 0xE3, 0x13, 0x93, 0x53, 0xD3,
     0x33, 0xB3, 0x73, 0xF3, 0x0B, 0x8B, 0x4B, 0xCB, 0x2B, 0xAB, 0x6B, 0xEB,
     0x1B, 0x9B, 0x5B, 0xDB, 0x3B, 0xBB, 0x7B, 0xFB, 0x07, 0x87, 0x47, 0xC7,
     0x27, 0xA7, 0x67, 0xE7, 0x17, 0x97, 0x57, 0xD7, 0x37, 0xB7, 0x77, 0xF7,
     0x0F, 0x8F, 0x4F, 0xCF, 0x2F, 0xAF, 0x6F, 0xEF, 0x1F, 0x9F, 0x5F, 0xDF,
     0x3F, 0xBF, 0x7F, 0xFF]"

definition reverseBits8 :: "u8 \<Rightarrow> u8" where
  "reverseBits8 val = reverseBitsLookUpTable ! unat val"

fun reverseBits_loop :: "nat \<Rightarrow> u64 \<Rightarrow> u64 \<Rightarrow> u64" where
  "reverseBits_loop 0 output val = output"
| "reverseBits_loop (Suc n) output val =
     reverseBits_loop n
       (push_bit 8 output OR ucast (reverseBitsLookUpTable ! unat (val AND mask_nbits 8)))
       (drop_bit 8 val)"

definition reverseBits :: "u64 \<Rightarrow> nat \<Rightarrow> u64 result" where
  "reverseBits val sz = check ''size <= sizeof(T)'' (sz \<le> 8) (Inr (reverseBits_loop sz 0 val))"

text \<open>
  One stage of \<open>findMsbSet\<close>: \<open>if (bits(val, hi, lo)) { msb += lo; val >>= lo; }\<close>, and the
  mirrored stage of \<open>findLsbSetFallback\<close>.
\<close>

definition msb_stage :: "u32 \<Rightarrow> u32 \<Rightarrow> nat \<times> u64 \<Rightarrow> (nat \<times> u64) result" where
  "msb_stage hi lo s =
     (case s of (msb, val) \<Rightarrow>
        bindR (bits val hi lo) (\<lambda>b.
          Inr (if b \<noteq> 0 then (msb + unat lo, drop_bit (unat lo) val) else (msb, val))))"

definition findMsbSet :: "u64 \<Rightarrow> nat result" where
  "findMsbSet val =
     (if val = 0 then Inr 0
      else bindR (msb_stage 63 32 (0, val)) (\<lambda>s.
           bindR (msb_stage 31 16 s) (\<lambda>s.
           bindR (msb_stage 15 8 s) (\<lambda>s.
           bindR (msb_stage 7 4 s) (\<lambda>s.
           bindR (msb_stage 3 2 s) (\<lambda>(msb, val).
           bindR (bits val 1 1) (\<lambda>b. Inr (if b \<noteq> 0 then msb + 1 else msb))))))))"

definition lsb_stage :: "u32 \<Rightarrow> nat \<times> u64 \<Rightarrow> (nat \<times> u64) result" where
  "lsb_stage h s =
     (case s of (lsb, val) \<Rightarrow>
        bindR (bits val (h - 1) 0) (\<lambda>b.
          Inr (if b = 0 then (lsb + unat h, drop_bit (unat h) val) else (lsb, val))))"

definition findLsbSetFallback :: "u64 \<Rightarrow> nat result" where
  "findLsbSetFallback val =
     (if val = 0 then Inr 64
      else bindR (lsb_stage 32 (0, val)) (\<lambda>s.
           bindR (lsb_stage 16 s) (\<lambda>s.
           bindR (lsb_stage 8 s) (\<lambda>s.
           bindR (lsb_stage 4 s) (\<lambda>s.
           bindR (lsb_stage 2 s) (\<lambda>(lsb, val).
           bindR (bits val 0 0) (\<lambda>b. Inr (if b = 0 then lsb + 1 else lsb))))))))"

text \<open>The compiler's \<open>__builtin_ctzll\<close>, \<open>__builtin_clzll\<close> and \<open>__builtin_popcountl\<close>.\<close>

definition builtin_ctz :: "'a::len word \<Rightarrow> nat" where
  "builtin_ctz v = length (takeWhile (\<lambda>i. \<not> bit v i) [0..<LENGTH('a)])"

definition builtin_clz :: "'a::len word \<Rightarrow> nat" where
  "builtin_clz v = length (takeWhile (\<lambda>i. \<not> bit v i) (rev [0..<LENGTH('a)]))"

definition builtin_popcount :: "'a::len word \<Rightarrow> nat" where
  "builtin_popcount v = length (filter (bit v) [0..<LENGTH('a)])"

definition findLsbSet :: "u64 \<Rightarrow> nat" where
  "findLsbSet val = (if val = 0 then 64 else builtin_ctz val)"

text \<open>
  The \<open>std::bitset<N>\<close> overload: the bit set is its value, a natural number below \<open>2 ^ N\<close>.
\<close>

function findLsbSet_loop :: "nat \<Rightarrow> nat \<Rightarrow> nat" where
  "findLsbSet_loop i bs =
     (if bs = 0 \<or> bs mod 2 ^ 64 \<noteq> 0 then i + findLsbSet (word_of_nat (bs mod 2 ^ 64))
      else findLsbSet_loop (i + 64) (bs div 2 ^ 64))"
  by pat_completeness auto
termination
  by (relation "measure snd") auto

declare findLsbSet_loop.simps [simp del]

definition findLsbSet_bitset :: "nat \<Rightarrow> nat \<Rightarrow> nat" where
  "findLsbSet_bitset N bs =
     (if N \<le> 64 then findLsbSet (word_of_nat bs)
      else if bs = 0 then N
      else findLsbSet_loop 0 bs)"

definition popCount :: "u64 \<Rightarrow> nat" where
  "popCount val = builtin_popcount val"

definition alignToPowerOfTwo :: "u64 \<Rightarrow> u64" where
  "alignToPowerOfTwo val =
     (let val = val - 1;
          val = val OR drop_bit 1 val;
          val = val OR drop_bit 2 val;
          val = val OR drop_bit 4 val;
          val = val OR drop_bit 8 val;
          val = val OR drop_bit 16 val;
          val = val OR drop_bit 32 val
      in val + 1)"

definition ctz32 :: "u32 \<Rightarrow> nat" where
  "ctz32 value = (if value \<noteq> 0 then builtin_ctz value else 32)"

definition ctz64 :: "u64 \<Rightarrow> nat" where
  "ctz64 value = (if value \<noteq> 0 then builtin_ctz value else 64)"

definition clz32 :: "u32 \<Rightarrow> nat" where
  "clz32 value = (if value \<noteq> 0 then builtin_clz value else 32)"

definition clz64 :: "u64 \<Rightarrow> nat" where
  "clz64 value = (if value \<noteq> 0 then builtin_clz value else 64)"

section \<open>Masks and fields\<close>

lemma mask_nbits_eq: "mask_nbits n = mask (unat n)"
proof (cases "64 \<le> n")
  case True
  then have "64 \<le> unat n" by (simp add: word_le_nat_alt)
  then have "mask (unat n) = (- 1 :: u64)"
    by (intro bit_word_eqI) (simp add: bit_simps)
  with True show ?thesis by (simp add: mask_nbits_def)
next
  case False
  then show ?thesis by (simp add: mask_nbits_def mask_eq_exp_minus_1)
qed

lemma unat_field_width:
  assumes "(lo :: u32) \<le> hi" "hi < 64"
  shows "unat (hi - lo + 1) = unat hi - unat lo + 1"
proof -
  have "unat (hi - lo) = unat hi - unat lo"
    using assms(1) by (rule unat_sub)
  moreover have "unat hi < 64" using assms(2) by (simp add: word_less_nat_alt)
  ultimately show ?thesis by (simp add: unat_word_ariths)
qed

lemma bits_eq:
  assumes "lo \<le> hi" "hi < 64"
  shows "bits val hi lo =
    Inr (drop_bit (unat lo) val AND mask (unat hi - unat lo + 1))"
  using assms by (simp add: bits_def mask_nbits_eq unat_field_width Let_def)

lemma bits_nonzero_iff:
  assumes "lo \<le> hi" "hi < 64"
  shows "\<exists>b. bits val hi lo = Inr b \<and>
    (b = 0 \<longleftrightarrow> (\<forall>i. unat lo \<le> i \<and> i \<le> unat hi \<longrightarrow> \<not> bit val i))"
proof -
  have "(drop_bit (unat lo) val AND mask (unat hi - unat lo + 1) = 0) =
    (\<forall>i. unat lo \<le> i \<and> i \<le> unat hi \<longrightarrow> \<not> bit val i)" (is "?l = ?r")
  proof
    assume ?l
    show ?r
    proof (intro allI impI)
      fix i assume i: "unat lo \<le> i \<and> i \<le> unat hi"
      have "\<not> bit (drop_bit (unat lo) val AND mask (unat hi - unat lo + 1)) (i - unat lo)"
        using \<open>?l\<close> by simp
      moreover have "i - unat lo < unat hi - unat lo + 1" using i by arith
      ultimately show "\<not> bit val i" using i by (simp add: bit_drop_and_mask)
    qed
  next
    assume ?r
    have "\<not> bit val (n + unat lo)" if "n < unat hi - unat lo + 1" for n
      using \<open>?r\<close> that assms(1) by (simp add: word_le_nat_alt)
    then show ?l by (intro bit_word_eqI) (simp add: bit_drop_and_mask)
  qed
  with bits_eq [OF assms] show ?thesis by simp
qed

section \<open>Searching for the highest and the lowest set bit\<close>

lemma msb_stage_log_inv:
  assumes "log_inv v0 (2 * h) m (unat v)" and "unat lo = h" and "unat hi = 2 * h - 1"
    and "0 < h" and "2 * h \<le> 64"
  shows "\<exists>m' v'. msb_stage hi lo (m, v) = Inr (m', v') \<and> log_inv v0 h m' (unat v')"
proof -
  have "lo \<le> hi" "hi < 64" using assms by (simp_all add: word_le_nat_alt word_less_nat_alt)
  moreover have "unat hi - unat lo + 1 = h" using assms by simp
  ultimately have b: "bits v hi lo = Inr (take_bit h (drop_bit h v))"
    using assms(2) by (simp add: bits_eq take_bit_eq_mask)
  have "unat v < 2 ^ (h + h)" using assms(1) by (simp add: log_inv_def mult_2)
  then have "unat v div 2 ^ h < 2 ^ h" by (simp add: less_mult_imp_div_less power_add)
  moreover have "unat (take_bit h (drop_bit h v)) = take_bit h (drop_bit h (unat v))"
    by (simp only: unsigned_take_bit_eq unat_drop_bit_eq)
  ultimately have u: "unat (take_bit h (drop_bit h v)) = unat v div 2 ^ h"
    by (simp add: take_bit_eq_mod drop_bit_eq_div)
  then have z: "take_bit h (drop_bit h v) \<noteq> 0 \<longleftrightarrow> unat v div 2 ^ h \<noteq> 0"
    by (metis unat_eq_zero)
  have d: "unat (drop_bit h v) = unat v div 2 ^ h"
    unfolding unat_drop_bit_eq by (rule drop_bit_eq_div)
  have "msb_stage hi lo (m, v) =
    Inr (if unat v div 2 ^ h \<noteq> 0 then (m + h, drop_bit h v) else (m, v))"
    using z assms(2) by (simp only: msb_stage_def b prod.case bindR.simps)
  moreover have "if unat v div 2 ^ h \<noteq> 0
    then log_inv v0 h (m + h) (unat (drop_bit h v)) else log_inv v0 h m (unat v)"
    unfolding d by (rule log_inv_step [OF assms(1)])
  ultimately show ?thesis
    by (cases "unat v div 2 ^ h = 0") auto
qed

lemma findMsbSet_bounds:
  assumes "val \<noteq> 0"
  shows "\<exists>m. findMsbSet val = Inr m \<and> 2 ^ m \<le> unat val \<and> unat val < 2 ^ (m + 1)"
proof -
  have "unat val < 2 ^ 64" using unsigned_less [of val] by simp
  then have "log_inv (unat val) (2 * 32) 0 (unat val)"
    using assms by (simp add: log_inv_def unat_gt_0)
  then obtain m1 v1 where 1: "msb_stage 63 32 (0, val) = Inr (m1, v1)"
    and "log_inv (unat val) (2 * 16) m1 (unat v1)"
    using msb_stage_log_inv [of _ 32 _ _ 32 63] by fastforce
  then obtain m2 v2 where 2: "msb_stage 31 16 (m1, v1) = Inr (m2, v2)"
    and "log_inv (unat val) (2 * 8) m2 (unat v2)"
    using msb_stage_log_inv [of _ 16 _ _ 16 31] by fastforce
  then obtain m3 v3 where 3: "msb_stage 15 8 (m2, v2) = Inr (m3, v3)"
    and "log_inv (unat val) (2 * 4) m3 (unat v3)"
    using msb_stage_log_inv [of _ 8 _ _ 8 15] by fastforce
  then obtain m4 v4 where 4: "msb_stage 7 4 (m3, v3) = Inr (m4, v4)"
    and "log_inv (unat val) (2 * 2) m4 (unat v4)"
    using msb_stage_log_inv [of _ 4 _ _ 4 7] by fastforce
  then obtain m5 v5 where 5: "msb_stage 3 2 (m4, v4) = Inr (m5, v5)"
    and "log_inv (unat val) (2 * 1) m5 (unat v5)"
    using msb_stage_log_inv [of _ 2 _ _ 2 3] by fastforce
  then obtain m6 v6 where 6: "msb_stage 1 1 (m5, v5) = Inr (m6, v6)"
    and "log_inv (unat val) 1 m6 (unat v6)"
    using msb_stage_log_inv [of _ 1 _ _ 1 1] by fastforce
  moreover from 6 have "bindR (bits v5 1 1) (\<lambda>b. Inr (if b \<noteq> 0 then m5 + 1 else m5)) = Inr m6"
    by (auto simp: msb_stage_def split: if_splits)
  then have "findMsbSet val = Inr m6"
    using assms by (simp only: findMsbSet_def 1 2 3 4 5 bindR.simps prod.case if_False)
  ultimately show ?thesis
    using log_inv_final by blast
qed

definition lsb_inv :: "u64 \<Rightarrow> nat \<Rightarrow> nat \<Rightarrow> u64 \<Rightarrow> bool" where
  "lsb_inv v0 w l v \<longleftrightarrow>
     v = drop_bit l v0 \<and> (\<forall>i < l. \<not> bit v0 i) \<and> (\<exists>i < w. bit v0 (l + i))"

lemma lsb_stage_inv:
  assumes "lsb_inv v0 (2 * unat h) l v" and "0 < unat h" and "unat h \<le> 32"
  shows "\<exists>l' v'. lsb_stage h (l, v) = Inr (l', v') \<and> lsb_inv v0 (unat h) l' v'"
proof -
  have h1: "unat (h - 1) = unat h - 1"
    using assms(2) by (simp add: unat_minus_one unat_gt_0)
  then have "h - 1 < 64" using assms(3) by (simp add: word_less_nat_alt)
  then obtain b where b: "bits v (h - 1) 0 = Inr b"
    and z: "b = 0 \<longleftrightarrow> (\<forall>i. i \<le> unat h - 1 \<longrightarrow> \<not> bit v i)"
    using bits_nonzero_iff [of 0 "h - 1" v] h1 by auto
  have bv: "bit v i = bit v0 (l + i)" for i
    using assms(1) by (simp add: lsb_inv_def bit_drop_bit_eq)
  show ?thesis
  proof (cases "b = 0")
    case False
    then have "\<exists>i < unat h. bit v0 (l + i)" using z bv assms(2) by (metis Suc_diff_1 less_Suc_eq_le)
    then show ?thesis using assms(1) b False by (auto simp: lsb_stage_def lsb_inv_def)
  next
    case True
    then have low: "\<not> bit v0 (l + i)" if "i < unat h" for i
      using z bv that by simp
    obtain k where k: "k < 2 * unat h" "bit v0 (l + k)"
      using assms(1) by (auto simp: lsb_inv_def)
    then have "unat h \<le> k" using low not_le by blast
    then have "\<exists>i < unat h. bit v0 (l + unat h + i)"
      using k by (intro exI [of _ "k - unat h"]) auto
    moreover have "\<not> bit v0 i" if "i < l + unat h" for i
    proof (cases "i < l")
      case True
      then show ?thesis using assms(1) by (simp add: lsb_inv_def)
    next
      case False
      then show ?thesis using low [of "i - l"] that by simp
    qed
    moreover have "drop_bit (unat h) v = drop_bit (l + unat h) v0"
      using assms(1) by (simp add: lsb_inv_def ac_simps)
    ultimately show ?thesis
      using b True by (simp add: lsb_stage_def lsb_inv_def)
  qed
qed

lemma findLsbSetFallback_lowest:
  assumes "val \<noteq> 0"
  shows "\<exists>l. findLsbSetFallback val = Inr l \<and> bit val l \<and> (\<forall>i < l. \<not> bit val i)"
proof -
  have "\<exists>i < 64. bit val i" using assms word_eq_zero_bits [of val] by auto
  then have "lsb_inv val (2 * unat (32 :: u32)) 0 val" by (simp add: lsb_inv_def)
  then obtain l1 v1 where 1: "lsb_stage 32 (0, val) = Inr (l1, v1)"
    and "lsb_inv val (2 * unat (16 :: u32)) l1 v1"
    using lsb_stage_inv [of val 32 0 val] by fastforce
  then obtain l2 v2 where 2: "lsb_stage 16 (l1, v1) = Inr (l2, v2)"
    and "lsb_inv val (2 * unat (8 :: u32)) l2 v2"
    using lsb_stage_inv [of val 16 l1 v1] by fastforce
  then obtain l3 v3 where 3: "lsb_stage 8 (l2, v2) = Inr (l3, v3)"
    and "lsb_inv val (2 * unat (4 :: u32)) l3 v3"
    using lsb_stage_inv [of val 8 l2 v2] by fastforce
  then obtain l4 v4 where 4: "lsb_stage 4 (l3, v3) = Inr (l4, v4)"
    and "lsb_inv val (2 * unat (2 :: u32)) l4 v4"
    using lsb_stage_inv [of val 4 l3 v3] by fastforce
  then obtain l5 v5 where 5: "lsb_stage 2 (l4, v4) = Inr (l5, v5)"
    and "lsb_inv val (2 * unat (1 :: u32)) l5 v5"
    using lsb_stage_inv [of val 2 l4 v4] by fastforce
  then obtain l6 v6 where 6: "lsb_stage 1 (l5, v5) = Inr (l6, v6)"
    and "lsb_inv val 1 l6 v6"
    using lsb_stage_inv [of val 1 l5 v5] by fastforce
  moreover from 6 have "bindR (bits v5 0 0) (\<lambda>b. Inr (if b = 0 then l5 + 1 else l5)) = Inr l6"
    by (auto simp: lsb_stage_def split: if_splits)
  then have "findLsbSetFallback val = Inr l6"
    using assms by (simp only: findLsbSetFallback_def 1 2 3 4 5 bindR.simps prod.case if_False)
  ultimately show ?thesis by (auto simp: lsb_inv_def)
qed

lemma builtin_ctz_lowest:
  assumes "(v :: 'a::len word) \<noteq> 0"
  shows "bit v (builtin_ctz v) \<and> (\<forall>i < builtin_ctz v. \<not> bit v i)"
proof -
  let ?t = "takeWhile (\<lambda>i. \<not> bit v i) [0..<LENGTH('a)]"
  have "\<exists>i < LENGTH('a). bit v i" using assms word_eq_zero_bits by blast
  then have "length ?t \<noteq> length [0..<LENGTH('a)]"
    by (metis (mono_tags, lifting) atLeastLessThan_iff set_takeWhileD set_upt takeWhile_eq_take
        take_all_iff le_refl zero_le)
  then have less: "length ?t < length [0..<LENGTH('a)]"
    using length_takeWhile_le [of "\<lambda>i. \<not> bit v i" "[0..<LENGTH('a)]"] by linarith
  then have "bit v (builtin_ctz v)"
    using nth_length_takeWhile [OF less] by (simp add: builtin_ctz_def)
  moreover have "\<not> bit v i" if "i < builtin_ctz v" for i
  proof -
    have "?t ! i = i" using that less by (simp add: takeWhile_nth builtin_ctz_def)
    then show ?thesis
      using that nth_mem [of i ?t] set_takeWhileD by (fastforce simp: builtin_ctz_def)
  qed
  ultimately show ?thesis by blast
qed

lemma lowest_unique:
  "bit v l \<Longrightarrow> \<forall>i < l. \<not> bit v i \<Longrightarrow> bit v k \<Longrightarrow> \<forall>i < k. \<not> bit v i \<Longrightarrow> l = (k :: nat)"
  by (metis linorder_neqE_nat)

section \<open>Rounding to a power of two\<close>

text \<open>One shift-and-or doubles the distance over which a set bit has been copied downwards.\<close>

lemma smear_step:
  assumes "\<And>n. bit x n \<longleftrightarrow> (\<exists>k < d. bit (v :: u64) (n + k))"
  shows "bit (x OR drop_bit d x) n \<longleftrightarrow> (\<exists>k < d + d. bit v (n + k))"
proof -
  have "(\<exists>k < d. bit v (n + d + k)) \<longleftrightarrow> (\<exists>k. d \<le> k \<and> k < d + d \<and> bit v (n + k))"
    by (metis (no_types, lifting) add.assoc add_less_cancel_left le_add1 le_add_diff_inverse)
  then have "(\<exists>k < d. bit v (n + k)) \<or> (\<exists>k < d. bit v (n + d + k)) \<longleftrightarrow> (\<exists>k < d + d. bit v (n + k))"
    by (metis add_lessD1 less_add_same_cancel1 not_le trans_less_add1)
  then show ?thesis
    using assms by (simp add: bit_or_iff bit_drop_bit_eq ac_simps)
qed

lemma alignToPowerOfTwo_smear:
  "\<exists>x. alignToPowerOfTwo val = x + 1 \<and> (\<forall>n. bit x n \<longleftrightarrow> (\<exists>k \<ge> n. bit (val - 1) k))"
proof -
  define v where "v = val - 1"
  define x1 where "x1 = v OR drop_bit 1 v"
  define x2 where "x2 = x1 OR drop_bit 2 x1"
  define x4 where "x4 = x2 OR drop_bit 4 x2"
  define x8 where "x8 = x4 OR drop_bit 8 x4"
  define x16 where "x16 = x8 OR drop_bit 16 x8"
  define x32 where "x32 = x16 OR drop_bit 32 x16"
  have "bit v n \<longleftrightarrow> (\<exists>k < 1. bit v (n + k))" for n by simp
  from smear_step [OF this] have "bit x1 n \<longleftrightarrow> (\<exists>k < 2. bit v (n + k))" for n
    unfolding x1_def by (simp only: one_add_one)
  from smear_step [OF this] have "bit x2 n \<longleftrightarrow> (\<exists>k < 4. bit v (n + k))" for n
    unfolding x2_def by simp
  from smear_step [OF this] have "bit x4 n \<longleftrightarrow> (\<exists>k < 8. bit v (n + k))" for n
    unfolding x4_def by simp
  from smear_step [OF this] have "bit x8 n \<longleftrightarrow> (\<exists>k < 16. bit v (n + k))" for n
    unfolding x8_def by simp
  from smear_step [OF this] have "bit x16 n \<longleftrightarrow> (\<exists>k < 32. bit v (n + k))" for n
    unfolding x16_def by simp
  from smear_step [OF this] have x32: "bit x32 n \<longleftrightarrow> (\<exists>k < 64. bit v (n + k))" for n
    unfolding x32_def by simp
  have "(\<exists>k < 64. bit v (n + k)) \<longleftrightarrow> (\<exists>k \<ge> n. bit v k)" for n
  proof
    assume "\<exists>k \<ge> n. bit v k"
    then obtain k where k: "n \<le> k" "bit v k" by blast
    then have "k < 64" by (auto dest: bit_imp_le_length)
    with k show "\<exists>k < 64. bit v (n + k)" by (intro exI [of _ "k - n"]) auto
  qed (meson le_add1)
  moreover have "alignToPowerOfTwo val = x32 + 1"
    unfolding alignToPowerOfTwo_def Let_def x32_def x16_def x8_def x4_def x2_def x1_def v_def ..
  ultimately show ?thesis using x32 unfolding v_def by blast
qed

lemma bit_of_msb_bounds:
  assumes "2 ^ m \<le> unat (v :: 'a::len word)" and "unat v < 2 ^ (m + 1)"
  shows "bit v m" and "\<And>k. m < k \<Longrightarrow> \<not> bit v k"
proof -
  have "unat v < 2 * 2 ^ m" using assms(2) by simp
  then have "unat v div 2 ^ m < 2" by (rule less_mult_imp_div_less)
  moreover have "0 < unat v div 2 ^ m" using assms(1) by (simp add: div_greater_zero_iff)
  ultimately have "unat v div 2 ^ m = 1" by simp
  then have "bit (unat v) m" by (simp add: bit_iff_odd)
  then show "bit v m" by (simp add: bit_unsigned_iff)
  show "\<not> bit v k" if "m < k" for k
    using unat_lt_exp_bits [OF assms(2)] that by simp
qed

lemma alignToPowerOfTwo_range:
  assumes "0 < val" and "unat val \<le> 2 ^ 63"
  shows "\<exists>k. unat (alignToPowerOfTwo val) = 2 ^ k \<and> unat val \<le> 2 ^ k \<and> 2 ^ k < 2 * unat val"
proof (cases "val - 1 = 0")
  case True
  then have "val = 1" by simp
  then show ?thesis by (intro exI [of _ 0]) (simp add: alignToPowerOfTwo_def)
next
  case False
  define v where "v = val - 1"
  have uv: "unat val = unat v + 1"
    using assms(1) by (simp add: v_def unat_minus_one word_gt_0 unat_gt_0 Suc_leI)
  obtain m where m: "2 ^ m \<le> unat v" "unat v < 2 ^ (m + 1)"
    using findMsbSet_bounds [of v] False by (auto simp: v_def)
  have "2 ^ m < (2 :: nat) ^ 63" using m(1) uv assms(2) by linarith
  then have m63: "m < 63" by (rule power_less_imp_less_exp [rotated]) simp
  obtain x where x: "alignToPowerOfTwo val = x + 1"
    and bits: "\<And>n. bit x n \<longleftrightarrow> (\<exists>k \<ge> n. bit v k)"
    using alignToPowerOfTwo_smear [of val] v_def by blast
  have "(\<exists>k \<ge> n. bit v k) \<longleftrightarrow> n \<le> m" for n
    using bit_of_msb_bounds [OF m] by (meson linorder_not_less order.trans)
  then have "x = mask (m + 1)"
    using bits m63 by (intro bit_word_eqI) (auto simp: bit_simps)
  then have "alignToPowerOfTwo val = 2 ^ (m + 1)"
    using x by (simp add: mask_eq_exp_minus_1)
  then have "unat (alignToPowerOfTwo val) = 2 ^ (m + 1)"
    using m63 unat_exp_eq [of "m + 1", where ?'a = 64] by simp
  then show ?thesis using m uv by (intro exI [of _ "m + 1"]) simp
qed

section \<open>Insertion, extraction and reversal\<close>

lemma bit_mask_range:
  assumes "lo \<le> hi" "hi < 64"
  shows "bit (mask_range hi lo) n \<longleftrightarrow> unat lo \<le> n \<and> n \<le> unat hi"
proof -
  have "unat hi < 64" using assms(2) by (simp add: word_less_nat_alt)
  moreover from this have "unat (hi + 1) = unat hi + 1" by (simp add: unat_word_ariths)
  ultimately show ?thesis
    by (auto simp: mask_range_def mbits_def mask_nbits_eq bit_simps)
qed

lemma insertBits_bit:
  assumes "lo \<le> hi" "hi < 64"
  shows "\<exists>r. insertBits val hi lo b = Inr r \<and>
    (\<forall>n < 64. bit r n =
      (if unat lo \<le> n \<and> n \<le> unat hi then bit b (n - unat lo) else bit val n))"
  using assms by (auto simp: insertBits_def bit_mask_range bit_simps Let_def)

lemma bits_insertBits:
  assumes "lo \<le> hi" "hi < 64"
  shows "bindR (insertBits val hi lo b) (\<lambda>r. bits r hi lo) =
    Inr (take_bit (unat hi - unat lo + 1) b)"
proof -
  obtain r where r: "insertBits val hi lo b = Inr r"
    and bit_r: "\<And>n. n < 64 \<Longrightarrow> bit r n =
      (if unat lo \<le> n \<and> n \<le> unat hi then bit b (n - unat lo) else bit val n)"
    using insertBits_bit [OF assms] by blast
  have hi: "unat lo \<le> unat hi" "unat hi < 64"
    using assms by (simp_all add: word_le_nat_alt word_less_nat_alt)
  have "drop_bit (unat lo) r AND mask (unat hi - unat lo + 1) = take_bit (unat hi - unat lo + 1) b"
  proof (rule bit_word_eqI)
    fix n assume "n < LENGTH(64)"
    have "bit r (n + unat lo) = bit b n" if "n < unat hi - unat lo + 1"
    proof -
      have "n + unat lo \<le> unat hi" using that hi by arith
      then show ?thesis using bit_r [of "n + unat lo"] hi by simp
    qed
    then show "bit (drop_bit (unat lo) r AND mask (unat hi - unat lo + 1)) n =
      bit (take_bit (unat hi - unat lo + 1) b) n"
      by (auto simp: bit_drop_and_mask bit_take_bit_iff)
  qed
  then show ?thesis by (simp only: r bindR.simps bits_eq [OF assms])
qed

lemma length_reverseBitsLookUpTable [simp]: "length reverseBitsLookUpTable = 256"
  by (simp add: reverseBitsLookUpTable_def)

lemma reverseBitsLookUpTable_checked:
  "list_all (\<lambda>(i, t). list_all (\<lambda>n. bit t n = bit (word_of_nat i :: u8) (7 - n)) [0..<8])
     (enumerate 0 reverseBitsLookUpTable)"
  by code_simp

lemma bit_reverseBits8: "n < 8 \<Longrightarrow> bit (reverseBits8 v) n = bit v (7 - n)"
proof -
  assume n: "n < 8"
  have u: "unat v < 256" using unsigned_less [of v] by simp
  then have "(unat v, reverseBitsLookUpTable ! unat v) \<in> set (enumerate 0 reverseBitsLookUpTable)"
    by (simp add: in_set_enumerate_eq)
  then have "\<forall>n \<in> set [0..<8].
    bit (reverseBitsLookUpTable ! unat v) n = bit (word_of_nat (unat v) :: u8) (7 - n)"
    using reverseBitsLookUpTable_checked by (fastforce simp: list_all_iff)
  with n show ?thesis by (simp add: reverseBits8_def)
qed

lemma reverseBits_loop_step:
  "ucast (reverseBitsLookUpTable ! unat (val AND mask_nbits 8)) = (ucast (reverseBits8 (ucast val)) :: u64)"
proof -
  have "unat (val AND mask_nbits 8) = unat (ucast val :: u8)"
    by (simp add: mask_nbits_eq flip: take_bit_eq_mask) (simp add: unsigned_ucast_eq unsigned_take_bit_eq)
  then show ?thesis by (simp add: reverseBits8_def)
qed

lemma bit_reverseBits_loop:
  assumes "i < 64" "n \<le> 8"
  shows "bit (reverseBits_loop n out val) i =
    (if i < 8 * n then bit val (8 * n - 1 - i) else bit out (i - 8 * n))"
  using assms
proof (induction n out val rule: reverseBits_loop.induct)
  case (1 out val)
  then show ?case by simp
next
  case (2 n out val)
  let ?o = "push_bit 8 out OR ucast (reverseBits8 (ucast val)) :: u64"
  have o: "bit ?o j = (if j < 8 then bit val (7 - j) else bit out (j - 8))" if "j < 64" for j
    using that by (auto simp: bit_simps bit_reverseBits8 dest: bit_imp_le_length)
  have IH: "bit (reverseBits_loop n ?o (drop_bit 8 val)) i =
    (if i < 8 * n then bit (drop_bit 8 val) (8 * n - 1 - i) else bit ?o (i - 8 * n))"
    using 2 by (simp add: reverseBits_loop_step)
  show ?case
  proof (cases "i < 8 * n")
    case True
    then have "8 + (8 * n - 1 - i) = 8 * Suc n - 1 - i" by simp
    with True IH show ?thesis by (simp add: reverseBits_loop_step bit_drop_bit_eq)
  next
    case False
    then have "i - 8 * n < 8 \<longleftrightarrow> i < 8 * Suc n" by auto
    moreover have "7 - (i - 8 * n) = 8 * Suc n - 1 - i" using False by auto
    moreover have "i - 8 * n - 8 = i - 8 * Suc n" by simp
    ultimately show ?thesis using False IH o [of "i - 8 * n"] 2(2)
      by (simp add: reverseBits_loop_step)
  qed
qed

lemma reverseBits_loop_full: "reverseBits_loop 8 0 (reverseBits_loop 8 0 val) = val"
proof (rule bit_word_eqI)
  fix i assume "i < LENGTH(64)"
  then have "i < 64" and "63 - i < 64" by simp_all
  then show "bit (reverseBits_loop 8 0 (reverseBits_loop 8 0 val)) i = bit val i"
    using bit_reverseBits_loop [of i 8 0 "reverseBits_loop 8 0 val"]
      bit_reverseBits_loop [of "63 - i" 8 0 val] by simp
qed

section \<open>Properties\<close>

text \<open>
  C32: for every non-zero argument \<open>findMsbSet\<close> returns, and returns the position of the highest
  set bit: the bit is set and no bit above it is; no assertion of the \<open>bits\<close> calls on the way
  fails.
\<close>

theorem findMsbSet_highest:
  assumes "val \<noteq> 0"
  shows "\<exists>m. findMsbSet val = Inr m \<and> m < 64 \<and> bit val m \<and> (\<forall>k > m. \<not> bit val k)"
proof -
  obtain m where m: "findMsbSet val = Inr m" "2 ^ m \<le> unat val" "unat val < 2 ^ (m + 1)"
    using findMsbSet_bounds [OF assms] by blast
  note h = bit_of_msb_bounds [OF m(2,3)]
  then have "m < 64" by (auto dest: bit_imp_le_length)
  with m(1) h show ?thesis by blast
qed

theorem findMsbSet_highest_witness:
  "(0x1234 :: u64) \<noteq> 0 \<and>
   (\<exists>m. findMsbSet 0x1234 = Inr m \<and> m < 64 \<and> bit (0x1234 :: u64) m \<and> (\<forall>k > m. \<not> bit (0x1234 :: u64) k))"
  using findMsbSet_highest [of "0x1234"] by simp

text \<open>
  C33: the portable halving search \<open>findLsbSetFallback\<close> and the builtin-based \<open>findLsbSet\<close>
  agree on every 64-bit argument, zero included (both return 64).
\<close>

theorem findLsbSetFallback_findLsbSet: "findLsbSetFallback val = Inr (findLsbSet val)"
proof (cases "val = 0")
  case True
  then show ?thesis by (simp add: findLsbSetFallback_def findLsbSet_def)
next
  case False
  obtain l where l: "findLsbSetFallback val = Inr l" "bit val l" "\<forall>i < l. \<not> bit val i"
    using findLsbSetFallback_lowest [OF False] by blast
  have "l = builtin_ctz val"
    using lowest_unique [of val l "builtin_ctz val"] l(2,3) builtin_ctz_lowest [OF False] by blast
  with l(1) False show ?thesis by (simp add: findLsbSet_def)
qed

text \<open>
  \<open>insertBits\<close> followed by \<open>bits\<close> at the same field returns the inserted value cut to the
  field's width, and \<open>insertBits\<close> changes no bit outside the field.
\<close>

theorem insertBits_roundtrip:
  assumes "lo \<le> hi" and "hi < 64"
  shows "bindR (insertBits val hi lo b) (\<lambda>r. bits r hi lo) =
      Inr (take_bit (unat hi - unat lo + 1) b) \<and>
    (\<exists>r. insertBits val hi lo b = Inr r \<and>
      (\<forall>n < 64. n < unat lo \<or> unat hi < n \<longrightarrow> bit r n = bit val n))"
  using bits_insertBits [OF assms] insertBits_bit [OF assms, of val b] by fastforce

theorem insertBits_roundtrip_witness:
  "bindR (insertBits 0xFFFF 11 4 0xAB) (\<lambda>r. bits r 11 4) = Inr 0xAB"
  using insertBits_roundtrip [of 4 11 "0xFFFF" "0xAB"] by simp

text \<open>
  Reversing the bits of a 64-bit value twice through the look-up table gives the value back.
\<close>

theorem reverseBits_involution:
  "bindR (reverseBits val 8) (\<lambda>r. reverseBits r 8) = Inr val"
  by (simp add: reverseBits_def reverseBits_loop_full)

text \<open>
  For arguments from 1 to \<open>2 ^ 63\<close>, \<open>alignToPowerOfTwo\<close> returns the least power of two
  that is not below the argument.
\<close>

theorem alignToPowerOfTwo_least:
  assumes "0 < val" and "unat val \<le> 2 ^ 63"
  shows "\<exists>k. unat (alignToPowerOfTwo val) = 2 ^ k \<and> unat val \<le> 2 ^ k \<and>
    (\<forall>j. unat val \<le> 2 ^ j \<longrightarrow> k \<le> j)"
proof -
  obtain k where k: "unat (alignToPowerOfTwo val) = 2 ^ k" "unat val \<le> 2 ^ k" "2 ^ k < 2 * unat val"
    using alignToPowerOfTwo_range [OF assms] by blast
  have "k \<le> j" if "unat val \<le> 2 ^ j" for j
  proof -
    have "(2 :: nat) ^ k < 2 ^ (j + 1)" using k(3) that by simp
    then have "k < j + 1" by (rule power_less_imp_less_exp [rotated]) simp
    then show ?thesis by simp
  qed
  with k show ?thesis by blast
qed

theorem alignToPowerOfTwo_least_witness:
  "\<exists>k. unat (alignToPowerOfTwo 100) = 2 ^ k \<and> unat (100 :: u64) \<le> 2 ^ k \<and>
    (\<forall>j. unat (100 :: u64) \<le> 2 ^ j \<longrightarrow> k \<le> j)"
  using alignToPowerOfTwo_least [of 100] by simp

end
