(* ===== verification/Intmath.thy ===== *)
theory Intmath
  imports Bitfield
begin

text \<open>
  \<open>base/include/intmath.h\<close>: base-2 logarithms, power-of-two tests, rounding to an alignment and
  double-width multiplication. An argument of template type \<open>T\<close> is its mathematical value
  together with \<open>sizeof(T)\<close> where the code asks for it; the alignment helpers are taken at
  \<open>uint64_t\<close>, the type the caches call them at.
\<close>

section \<open>Definitions\<close>

text \<open>A stage of \<open>floorLog2\<close>: \<open>if (ts >= t && (ux & m)) { y += s; ux >>= s; }\<close>.\<close>

definition floorLog2_stage :: "nat \<Rightarrow> nat \<Rightarrow> u64 \<Rightarrow> nat \<Rightarrow> nat \<times> u64 \<Rightarrow> nat \<times> u64" where
  "floorLog2_stage ts t m s yu =
     (case yu of (y, ux) \<Rightarrow>
        if t \<le> ts \<and> ux AND m \<noteq> 0 then (y + s, drop_bit s ux) else (y, ux))"

definition floorLog2 :: "nat \<Rightarrow> int \<Rightarrow> nat result" where
  "floorLog2 ts x =
     check ''x > 0'' (x > 0)
       (let ux = word_of_int x;
            (y, ux) = floorLog2_stage ts 8 0xffffffff00000000 32 (0, ux);
            (y, ux) = floorLog2_stage ts 4 0x00000000ffff0000 16 (y, ux);
            (y, ux) = floorLog2_stage ts 2 0x000000000000ff00 8 (y, ux);
            (y, ux) = floorLog2_stage ts 0 0x00000000000000f0 4 (y, ux);
            (y, ux) = floorLog2_stage ts 0 0x000000000000000c 2 (y, ux);
            y = (if ux AND 0x0000000000000002 \<noteq> 0 then y + 1 else y)
        in Inr y)"

definition ceilLog2 :: "nat \<Rightarrow> int \<Rightarrow> nat result" where
  "ceilLog2 ts n =
     check ''n > 0'' (n > 0)
       (if n = 1 then Inr 0 else bindR (floorLog2 ts (n - 1)) (\<lambda>y. Inr (y + 1)))"

definition isPowerOf2 :: "u64 \<Rightarrow> bool" where
  "isPowerOf2 n \<longleftrightarrow> n \<noteq> 0 \<and> n AND (n - 1) = 0"

definition divCeil :: "u64 \<Rightarrow> u64 \<Rightarrow> u64 result" where
  "divCeil a b = defined ''division by zero'' (b \<noteq> 0) (Inr ((a + b - 1) div b))"

definition mulUnsigned32 :: "u32 \<Rightarrow> u32 \<Rightarrow> u32 \<times> u32" where
  "mulUnsigned32 val_a val_b =
     (let product = (ucast val_a :: u64) * ucast val_b
      in (ucast (drop_bit 32 product), ucast product))"

definition mulSigned32 :: "u32 \<Rightarrow> u32 \<Rightarrow> u32 \<times> u32" where
  "mulSigned32 val_a val_b =
     (let product = (scast val_a :: u64) * scast val_b
      in (ucast (drop_bit 32 product), ucast product))"

definition mulUnsignedManual :: "u64 \<Rightarrow> u64 \<Rightarrow> u64 \<times> u64" where
  "mulUnsignedManual val_a val_b =
     (let low = val_a * val_b;
          A = ucast (ucast (drop_bit 32 val_a) :: u32) :: u64;
          a = ucast (ucast val_a :: u32) :: u64;
          B = ucast (ucast (drop_bit 32 val_b) :: u32) :: u64;
          b = ucast (ucast val_b :: u32) :: u64;
          ab = a * b; Ab = A * b; aB = a * B; AB = A * B;
          c1 = ucast (ucast (drop_bit 32 ab) :: u32) :: u64;
          c2 = drop_bit 1 c1 + drop_bit 1 Ab + drop_bit 1 aB;
          c2 = c2 + drop_bit 1 ((c1 AND 1) + (Ab AND 1) + (aB AND 1));
          c2 = drop_bit 31 c2;
          high = AB + c2
      in (high, low))"

definition mulUnsigned64 :: "u64 \<Rightarrow> u64 \<Rightarrow> u64 \<times> u64" where
  "mulUnsigned64 val_a val_b =
     (let val = (ucast val_a :: 128 word) * ucast val_b
      in (ucast (drop_bit 64 val), ucast val))"

definition mulSignedManual :: "u64 \<Rightarrow> u64 \<Rightarrow> u64 \<times> u64" where
  "mulSignedManual val_a val_b =
     (let (u_high, u_low) = mulUnsigned64 val_a val_b;
          u_high = (if sint val_a < 0 then u_high - val_b else u_high);
          u_high = (if sint val_b < 0 then u_high - val_a else u_high)
      in (u_high, u_low))"

definition mulSigned64 :: "u64 \<Rightarrow> u64 \<Rightarrow> u64 \<times> u64" where
  "mulSigned64 val_a val_b =
     (let val = (scast val_a :: 128 word) * scast val_b
      in (ucast (drop_bit 64 val), ucast val))"

definition roundUp :: "u64 \<Rightarrow> u64 \<Rightarrow> u64 result" where
  "roundUp val align =
     check ''isPowerOf2(align)'' (isPowerOf2 align)
       (let mask = align - 1 in Inr ((val + mask) AND NOT mask))"

definition roundDown :: "u64 \<Rightarrow> u64 \<Rightarrow> u64 result" where
  "roundDown val align =
     check ''isPowerOf2(align)'' (isPowerOf2 align)
       (let mask = align - 1 in Inr (val AND NOT mask))"

definition log2i :: "u32 \<Rightarrow> nat result" where
  "log2i value =
     check ''isPowerOf2(value) && value > 0'' (value \<noteq> 0 \<and> value AND (value - 1) = 0 \<and> 0 < sint value)
       (Inr (ctz32 value))"

section \<open>Powers of two and alignment\<close>

lemma isPowerOf2_iff: "isPowerOf2 n \<longleftrightarrow> (\<exists>k < 64. n = 2 ^ k)"
proof
  assume p: "isPowerOf2 n"
  then have n0: "n \<noteq> 0" by (simp add: isPowerOf2_def)
  then obtain m where m: "2 ^ m \<le> unat n" "unat n < 2 ^ (m + 1)"
    using findMsbSet_bounds by blast
  have m64: "m < 64"
    using bit_of_msb_bounds(1) [OF m] by (auto dest: bit_imp_le_length)
  have "unat n = 2 ^ m"
  proof (rule ccontr)
    assume "unat n \<noteq> 2 ^ m"
    moreover have "unat (n - 1) = unat n - 1"
      using n0 by (simp add: unat_minus_one)
    ultimately have "2 ^ m \<le> unat (n - 1)" "unat (n - 1) < 2 ^ (m + 1)"
      using m by linarith+
    then have "bit (n AND (n - 1)) m"
      using bit_of_msb_bounds(1) [OF m] bit_of_msb_bounds(1) [of m "n - 1"] by (simp add: bit_and_iff)
    then show False using p by (simp add: isPowerOf2_def)
  qed
  then have "unat n = unat (2 ^ m :: u64)" using m64 by (simp add: unat_exp_eq)
  then have "n = 2 ^ m" by (simp only: word_unat_eq_iff)
  with m64 show "\<exists>k < 64. n = 2 ^ k" by blast
next
  assume "\<exists>k < 64. n = 2 ^ k"
  then obtain k where k: "k < 64" "n = 2 ^ k" by blast
  then have "n AND (n - 1) = 0"
    by (intro bit_word_eqI) (auto simp: bit_simps simp flip: mask_eq_exp_minus_1)
  moreover have "n \<noteq> 0" using k unat_exp_eq [of k, where ?'a = 64] by auto
  ultimately show "isPowerOf2 n" by (simp add: isPowerOf2_def)
qed

lemma and_not_low_mask:
  fixes v :: u64
  assumes "k < 64"
  shows "v AND NOT (2 ^ k - 1) = push_bit k (drop_bit k v)"
  by (intro bit_word_eqI) (auto simp: bit_simps simp flip: mask_eq_exp_minus_1)

lemma unat_and_not_low_mask:
  fixes v :: u64
  assumes "k < 64"
  shows "unat (v AND NOT (2 ^ k - 1)) = unat v div 2 ^ k * 2 ^ k"
proof -
  have "unat v < 2 ^ 64" using unsigned_less [of v] by simp
  then have "unat v div 2 ^ k * 2 ^ k < 2 ^ 64"
    by (meson div_times_less_eq_dividend le_less_trans)
  moreover have "unat (push_bit k (drop_bit k v)) = take_bit 64 (push_bit k (drop_bit k (unat v)))"
    by (simp add: unsigned_push_bit_eq unat_drop_bit_eq)
  ultimately show ?thesis
    by (simp add: and_not_low_mask [OF assms] take_bit_eq_mod push_bit_eq_mult drop_bit_eq_div)
qed

lemma roundDown_eq:
  assumes "isPowerOf2 align"
  shows "\<exists>r. roundDown val align = Inr r \<and> unat r = unat val div unat align * unat align"
proof -
  obtain k where "k < 64" "align = 2 ^ k" using assms isPowerOf2_iff by blast
  then show ?thesis
    using assms by (simp add: roundDown_def Let_def unat_and_not_low_mask unat_exp_eq)
qed

lemma roundUp_eq:
  assumes "isPowerOf2 align" and "unat val + unat align - 1 < 2 ^ 64"
  shows "\<exists>r. roundUp val align = Inr r \<and>
    unat r = (unat val + unat align - 1) div unat align * unat align"
proof -
  obtain k where k: "k < 64" "align = 2 ^ k" using assms(1) isPowerOf2_iff by blast
  then have u: "unat align = 2 ^ k" by (simp add: unat_exp_eq)
  then have "unat (align - 1) = 2 ^ k - 1"
    using assms(1) by (simp add: isPowerOf2_def unat_minus_one)
  then have "unat (val + (align - 1)) = unat val + unat align - 1"
    using assms(2) u by (simp add: unat_word_ariths)
  then show ?thesis
    using assms(1) k u unat_and_not_low_mask [OF k(1), of "val + (align - 1)"]
    by (simp add: roundUp_def Let_def)
qed

section \<open>Logarithms\<close>

text \<open>A stage tests the upper half of the current window by a constant mask.\<close>

lemma floorLog2_stage_log_inv:
  assumes "log_inv v0 (2 * h) y (unat ux)" and "m = push_bit h (mask h)" and "t \<le> ts"
    and "2 * h \<le> 64"
  shows "\<exists>y' ux'. floorLog2_stage ts t m h (y, ux) = (y', ux') \<and> log_inv v0 h y' (unat ux')"
proof -
  have d: "unat (drop_bit h ux) = unat ux div 2 ^ h"
    unfolding unat_drop_bit_eq by (rule drop_bit_eq_div)
  have "unat ux < 2 ^ (2 * h)" using assms(1) by (simp add: log_inv_def)
  then have hi: "n - h < h" if "bit ux n" "h \<le> n" for n
    using unat_lt_exp_bits [of ux "2 * h" n] that by linarith
  have "ux AND m = push_bit h (drop_bit h ux)"
    unfolding assms(2)
    by (intro bit_word_eqI) (auto simp: bit_simps dest: hi)
  moreover have "push_bit h (drop_bit h ux) = 0 \<longleftrightarrow> drop_bit h ux = 0"
  proof
    assume "push_bit h (drop_bit h ux) = 0"
    then have "\<not> bit (push_bit h (drop_bit h ux)) (h + n)" for n by simp
    then have "\<not> bit ux (h + n)" for n
      using bit_imp_le_length [of ux "h + n"] by (auto simp: bit_simps)
    then show "drop_bit h ux = 0" by (intro bit_word_eqI) (simp add: bit_simps)
  qed simp
  ultimately have z: "ux AND m \<noteq> 0 \<longleftrightarrow> unat ux div 2 ^ h \<noteq> 0"
    using d by (metis unat_eq_zero)
  have "floorLog2_stage ts t m h (y, ux) =
    (if unat ux div 2 ^ h \<noteq> 0 then (y + h, drop_bit h ux) else (y, ux))"
    using z assms(3) by (simp add: floorLog2_stage_def)
  moreover have "if unat ux div 2 ^ h \<noteq> 0
    then log_inv v0 h (y + h) (unat (drop_bit h ux)) else log_inv v0 h y (unat ux)"
    unfolding d by (rule log_inv_step [OF assms(1)])
  ultimately show ?thesis by (cases "unat ux div 2 ^ h = 0") auto
qed

text \<open>A stage the type is too narrow for is skipped, and the window is then already narrow.\<close>

lemma floorLog2_stage_skip: "ts < t \<Longrightarrow> floorLog2_stage ts t m h (y, ux) = (y, ux)"
  by (simp add: floorLog2_stage_def)

lemma floorLog2_tail:
  assumes "log_inv v0 8 y1 (unat u1)"
  shows "\<exists>y. (let (y, ux) = floorLog2_stage ts 0 0xf0 4 (y1, u1);
               (y, ux) = floorLog2_stage ts 0 0x0c 2 (y, ux);
               y = (if ux AND 2 \<noteq> 0 then y + 1 else y)
           in Inr y :: nat result) = Inr y \<and> 2 ^ y \<le> v0 \<and> v0 < 2 ^ (y + 1)"
proof -
  obtain y2 u2 where 2: "floorLog2_stage ts 0 0xf0 4 (y1, u1) = (y2, u2)"
    and "log_inv v0 4 y2 (unat u2)"
    using floorLog2_stage_log_inv [of v0 4 y1 u1 "0xf0" 0 ts] assms
    by (auto simp: mask_eq_exp_minus_1 push_bit_eq_mult)
  then obtain y3 u3 where 3: "floorLog2_stage ts 0 0x0c 2 (y2, u2) = (y3, u3)"
    and "log_inv v0 2 y3 (unat u3)"
    using floorLog2_stage_log_inv [of v0 2 y2 u2 "0x0c" 0 ts]
    by (auto simp: mask_eq_exp_minus_1 push_bit_eq_mult)
  then obtain y4 u4 where 4: "floorLog2_stage ts 0 2 1 (y3, u3) = (y4, u4)"
    and "log_inv v0 1 y4 (unat u4)"
    using floorLog2_stage_log_inv [of v0 1 y3 u3 "2" 0 ts]
    by (auto simp: mask_eq_exp_minus_1 push_bit_eq_mult)
  moreover from 4 have "(if u3 AND 2 \<noteq> 0 then y3 + 1 else y3) = y4"
    by (auto simp: floorLog2_stage_def split: if_splits)
  ultimately show ?thesis
    using log_inv_final [of v0 y4] by (simp add: 2 3)
qed

lemma floorLog2_bounds:
  assumes "0 < x" and "x < 2 ^ (8 * ts)" and "ts \<in> {1, 2, 4, 8}"
  shows "\<exists>y. floorLog2 ts x = Inr y \<and> 2 ^ y \<le> nat x \<and> nat x < 2 ^ (y + 1)"
proof -
  define ux where "ux = (word_of_int x :: u64)"
  have "(2 :: int) ^ (8 * ts) \<le> 2 ^ 64"
    using assms(3) by (intro power_increasing) auto
  then have ux: "unat ux = nat x"
    using assms(1,2) by (simp add: ux_def unat_eq_nat_uint uint_word_of_int take_bit_eq_mod)
  have w: "log_inv (nat x) (8 * ts) 0 (unat ux)"
    using assms(1,2) ux by (simp add: log_inv_def nat_less_numeral_power_cancel_iff)
  let ?s8 = "floorLog2_stage ts 8 0xffffffff00000000 32"
  let ?s4 = "floorLog2_stage ts 4 0x00000000ffff0000 16"
  let ?s2 = "floorLog2_stage ts 2 0x000000000000ff00 8"
  have "\<exists>y u. ?s8 (0, ux) = (y, u) \<and> log_inv (nat x) (if ts = 8 then 32 else 8 * ts) y (unat u)"
    using w floorLog2_stage_log_inv [of "nat x" 32 0 ux "0xffffffff00000000" 8 ts] assms(3)
    by (cases "ts = 8") (auto simp: mask_eq_exp_minus_1 push_bit_eq_mult floorLog2_stage_skip)
  then obtain y1 u1 where 1: "?s8 (0, ux) = (y1, u1)"
    and "log_inv (nat x) (if ts = 8 then 32 else 8 * ts) y1 (unat u1)" by blast
  moreover from this have "\<exists>y u. ?s4 (y1, u1) = (y, u) \<and>
      log_inv (nat x) (if 4 \<le> ts then 16 else 8 * ts) y (unat u)"
    using floorLog2_stage_log_inv [of "nat x" 16 y1 u1 "0x00000000ffff0000" 4 ts] assms(3)
    by (cases "4 \<le> ts") (auto simp: mask_eq_exp_minus_1 push_bit_eq_mult floorLog2_stage_skip)
  ultimately obtain y2 u2 where 2: "?s4 (y1, u1) = (y2, u2)"
    and "log_inv (nat x) (if 4 \<le> ts then 16 else 8 * ts) y2 (unat u2)" by blast
  moreover from this have "\<exists>y u. ?s2 (y2, u2) = (y, u) \<and> log_inv (nat x) 8 y (unat u)"
    using floorLog2_stage_log_inv [of "nat x" 8 y2 u2 "0x000000000000ff00" 2 ts] assms(3)
    by (cases "2 \<le> ts") (auto simp: mask_eq_exp_minus_1 push_bit_eq_mult floorLog2_stage_skip)
  ultimately obtain y3 u3 where 3: "?s2 (y2, u2) = (y3, u3)"
    and "log_inv (nat x) 8 y3 (unat u3)" by blast
  then show ?thesis
    using floorLog2_tail [of "nat x" y3 u3 ts] assms(1)
    by (simp only: floorLog2_def check_True Let_def ux_def [symmetric] 1 2 3 prod.case)
qed

lemma power2_bracket_unique:
  assumes "2 ^ a \<le> (n :: nat)" "n < 2 ^ (a + 1)" "2 ^ b \<le> n" "n < 2 ^ (b + 1)"
  shows "a = b"
proof -
  have "(2 :: nat) ^ a < 2 ^ (b + 1)" "(2 :: nat) ^ b < 2 ^ (a + 1)" using assms by linarith+
  then have "a < b + 1" "b < a + 1" by (simp_all only: power_strict_increasing_iff one_less_numeral_iff semiring_norm)
  then show ?thesis by simp
qed

lemma floorLog2_power2:
  assumes "ts \<in> {1, 2, 4, 8}" and "k < 8 * ts"
  shows "floorLog2 ts (2 ^ k) = Inr k"
proof -
  obtain y where "floorLog2 ts (2 ^ k) = Inr y"
    "2 ^ y \<le> nat (2 ^ k)" "nat (2 ^ k) < 2 ^ (y + 1)"
    using floorLog2_bounds [of "2 ^ k" ts] assms by auto
  then show ?thesis using power2_bracket_unique [of y "2 ^ k" k] by (simp add: nat_power_eq)
qed

section \<open>Double-width multiplication\<close>

lemma unat_low32: "unat (ucast (ucast w :: u32) :: u64) = unat (w :: u64) mod 2 ^ 32"
proof -
  have "unat (ucast (ucast w :: u32) :: u64) = take_bit 32 (unat w)"
    by (simp add: unsigned_ucast_eq unsigned_take_bit_eq)
  then show ?thesis by (simp only: take_bit_eq_mod)
qed

lemma unat_drop: "unat (drop_bit n (w :: u64)) = unat w div 2 ^ n"
  unfolding unat_drop_bit_eq by (rule drop_bit_eq_div)

lemma unat_u64_less: "unat (w :: u64) < 2 ^ 64"
  using unsigned_less [of w] by simp

lemma unat_and_one: "unat ((w :: u64) AND 1) = unat w mod 2"
  by (simp add: and_one_eq unat_mod)

lemma unat_mult_small: "unat (p :: u64) * unat q < 2 ^ 64 \<Longrightarrow> unat (p * q) = unat p * unat q"
  by (simp add: unat_word_ariths)

lemma unat_add_small: "unat (p :: u64) + unat q < 2 ^ 64 \<Longrightarrow> unat (p + q) = unat p + unat q"
  by (simp add: unat_word_ariths)

text \<open>
  The carry of the schoolbook product without a wider type: halving the three addends first
  loses at most the three low bits, which the second line adds back.
\<close>

lemma half_sum3: "c div 2 + m div 2 + n div 2 + (c mod 2 + m mod 2 + n mod 2) div 2 = (c + m + n) div (2 :: nat)"
proof -
  have "c + m + n = (c mod 2 + m mod 2 + n mod 2) + (c div 2 + m div 2 + n div 2) * 2"
    using div_mult_mod_eq [of c 2] div_mult_mod_eq [of m 2] div_mult_mod_eq [of n 2]
    unfolding distrib_right by linarith
  then have "(c + m + n) div 2 = ((c mod 2 + m mod 2 + n mod 2) + (c div 2 + m div 2 + n div 2) * 2) div 2"
    by (rule arg_cong)
  also have "\<dots> = (c div 2 + m div 2 + n div 2) + (c mod 2 + m mod 2 + n mod 2) div 2"
    by (rule div_mult_self1) simp
  finally show ?thesis by (rule sym)
qed

lemma product32_bound:
  assumes "p < 2 ^ 32" "q < 2 ^ 32"
  shows "p * q \<le> (2 ^ 32 - 1) * (2 ^ 32 - 1 :: nat)"
  using assms by (intro mult_le_mono) auto

lemma mulUnsigned_carry:
  fixes Ab aB c1 :: u64
  assumes "unat Ab \<le> (2 ^ 32 - 1) * (2 ^ 32 - 1)" "unat aB \<le> (2 ^ 32 - 1) * (2 ^ 32 - 1)"
    and "unat c1 < 2 ^ 32"
  shows "unat (drop_bit 31 (drop_bit 1 c1 + drop_bit 1 Ab + drop_bit 1 aB +
      drop_bit 1 ((c1 AND 1) + (Ab AND 1) + (aB AND 1)))) =
    (unat c1 + unat Ab + unat aB) div 2 ^ 32"
proof -
  let ?s = "drop_bit 1 c1 + drop_bit 1 Ab + drop_bit 1 aB"
  let ?r = "(c1 AND 1) + (Ab AND 1) + (aB AND 1)"
  have small: "unat Ab \<le> 18446744065119617025" "unat aB \<le> 18446744065119617025"
    "unat c1 < 4294967296"
    using assms by simp_all
  have d: "unat (drop_bit 1 w) = unat w div 2" for w :: u64
    using unat_drop [of 1 w] by simp
  have s: "unat ?s = unat c1 div 2 + unat Ab div 2 + unat aB div 2"
    using small d [of c1] d [of Ab] d [of aB]
      unat_add_small [of "drop_bit 1 c1" "drop_bit 1 Ab"]
      unat_add_small [of "drop_bit 1 c1 + drop_bit 1 Ab" "drop_bit 1 aB"] by simp
  have r: "unat ?r = unat c1 mod 2 + unat Ab mod 2 + unat aB mod 2"
    using unat_and_one [of c1] unat_and_one [of Ab] unat_and_one [of aB]
      unat_add_small [of "c1 AND 1" "Ab AND 1"]
      unat_add_small [of "(c1 AND 1) + (Ab AND 1)" "aB AND 1"] by simp
  have "unat (?s + drop_bit 1 ?r) = (unat c1 + unat Ab + unat aB) div 2"
  proof -
    have "unat ?s + unat (drop_bit 1 ?r) = (unat c1 + unat Ab + unat aB) div 2"
      unfolding d s r by (rule half_sum3)
    moreover have "(unat c1 + unat Ab + unat aB) div 2 < 2 ^ 64" using small by simp
    ultimately show ?thesis using unat_add_small [of ?s "drop_bit 1 ?r"] by simp
  qed
  then show ?thesis
    by (simp only: unat_drop div_mult2_eq [symmetric]) simp
qed

lemma mulUnsigned_split:
  fixes x y :: nat
  defines "A \<equiv> x div 2 ^ 32" and "a \<equiv> x mod 2 ^ 32" and "B \<equiv> y div 2 ^ 32" and "b \<equiv> y mod 2 ^ 32"
  shows "x * y div 2 ^ 64 = A * B + (a * b div 2 ^ 32 + A * b + a * B) div 2 ^ 32"
proof -
  have "x = A * 2 ^ 32 + a" "y = B * 2 ^ 32 + b"
    unfolding A_def a_def B_def b_def by simp_all
  then have "x * y = a * b + (A * b + a * B) * 2 ^ 32 + A * B * 2 ^ 64"
    by (simp add: algebra_simps)
  then have "x * y div 2 ^ 64 = (a * b + (A * b + a * B) * 2 ^ 32) div 2 ^ 64 + A * B"
    by simp
  also have "(a * b + (A * b + a * B) * 2 ^ 32) div 2 ^ 64 =
    (a * b + (A * b + a * B) * 2 ^ 32) div 2 ^ 32 div 2 ^ 32"
    by (simp add: div_mult2_eq [symmetric])
  also have "\<dots> = (a * b div 2 ^ 32 + (A * b + a * B)) div 2 ^ 32" by simp
  finally show ?thesis by (simp add: add.assoc)
qed

lemma mulUnsigned64_eq:
  "unat (fst (mulUnsigned64 a b)) = unat a * unat b div 2 ^ 64 \<and>
   snd (mulUnsigned64 a b) = a * b"
proof -
  let ?v = "(ucast a :: 128 word) * ucast b"
  have ua: "unat (ucast w :: 128 word) = unat w" for w :: u64
    using unat_u64_less [of w] by (simp add: unsigned_ucast_eq take_bit_nat_eq_self)
  have le: "unat a * unat b \<le> (2 ^ 64 - 1) * (2 ^ 64 - 1)"
    using unat_u64_less [of a] unat_u64_less [of b] by (intro mult_le_mono) auto
  then have "unat a * unat b < 2 ^ 128" by (rule le_less_trans) simp
  then have v: "unat ?v = unat a * unat b" by (simp add: unat_word_ariths ua)
  have "unat a * unat b div 2 ^ 64 < 2 ^ 64"
    using le_less_trans [OF le] by (intro less_mult_imp_div_less) simp
  moreover have "unat (ucast (drop_bit 64 ?v) :: u64) = take_bit 64 (unat (drop_bit 64 ?v))"
    by (simp add: unsigned_ucast_eq)
  moreover have "unat (drop_bit 64 ?v) = unat ?v div 2 ^ 64"
    unfolding unat_drop_bit_eq by (rule drop_bit_eq_div)
  ultimately have hi: "unat (ucast (drop_bit 64 ?v) :: u64) = unat a * unat b div 2 ^ 64"
    by (simp only: v take_bit_eq_mod mod_less)
  have "unat (ucast ?v :: u64) = take_bit 64 (unat ?v)"
    by (simp only: unsigned_ucast_eq len_bit0 len_num1) simp
  also have "\<dots> = unat (a * b)"
    by (simp only: v) (simp add: unat_word_ariths take_bit_eq_mod)
  finally have "unat (ucast ?v :: u64) = unat (a * b)" .
  then have lo: "(ucast ?v :: u64) = a * b" by (simp only: word_unat_eq_iff)
  show ?thesis by (simp add: mulUnsigned64_def Let_def hi [simplified] lo [simplified])
qed

lemma unat_mulUnsignedManual_high:
  "unat (fst (mulUnsignedManual x y)) = unat x * unat y div 2 ^ 64"
proof -
  define A where "A = (ucast (ucast (drop_bit 32 x) :: u32) :: u64)"
  define a where "a = (ucast (ucast x :: u32) :: u64)"
  define B where "B = (ucast (ucast (drop_bit 32 y) :: u32) :: u64)"
  define b where "b = (ucast (ucast y :: u32) :: u64)"
  have hi: "unat w div 2 ^ 32 mod 2 ^ 32 = unat w div 2 ^ 32" for w :: u64
  proof -
    have "unat w < 2 ^ 32 * 2 ^ 32" using unat_u64_less [of w] by simp
    then show ?thesis by (intro mod_less less_mult_imp_div_less)
  qed
  have u: "unat A = unat x div 2 ^ 32" "unat a = unat x mod 2 ^ 32"
    "unat B = unat y div 2 ^ 32" "unat b = unat y mod 2 ^ 32"
    unfolding A_def a_def B_def b_def unat_low32 unat_drop hi by (rule refl)+
  then have l: "unat A < 2 ^ 32" "unat a < 2 ^ 32" "unat B < 2 ^ 32" "unat b < 2 ^ 32"
    using unat_u64_less [of x] unat_u64_less [of y] by (auto simp: less_mult_imp_div_less)
  have prod: "unat (p * q) = unat p * unat q" "unat (p * q) \<le> (2 ^ 32 - 1) * (2 ^ 32 - 1)"
    if "unat p < 2 ^ 32" "unat q < 2 ^ 32" for p q :: u64
  proof -
    have le: "unat p * unat q \<le> (2 ^ 32 - 1) * (2 ^ 32 - 1)" using that by (rule product32_bound)
    then have "unat p * unat q < 2 ^ 64" by (rule le_less_trans) simp
    then show "unat (p * q) = unat p * unat q" by (rule unat_mult_small)
    with le show "unat (p * q) \<le> (2 ^ 32 - 1) * (2 ^ 32 - 1)" by simp
  qed
  define c1 where "c1 = (ucast (ucast (drop_bit 32 (a * b)) :: u32) :: u64)"
  have c1: "unat c1 = unat a * unat b div 2 ^ 32"
    using hi [of "a * b"] unfolding c1_def unat_low32 unat_drop prod(1) [OF l(2,4)] .
  define c2 where "c2 = drop_bit 31 (drop_bit 1 c1 + drop_bit 1 (A * b) + drop_bit 1 (a * B) +
      drop_bit 1 ((c1 AND 1) + (A * b AND 1) + (a * B AND 1)))"
  have "unat c1 < 2 ^ 32"
    unfolding c1_def unat_low32 by simp
  then have c2: "unat c2 = (unat a * unat b div 2 ^ 32 + unat A * unat b + unat a * unat B) div 2 ^ 32"
    unfolding c2_def
    by (subst mulUnsigned_carry) (use prod l c1 in simp_all)
  have "unat x * unat y div 2 ^ 64 = unat A * unat B + unat c2"
    unfolding c2 unfolding u by (rule mulUnsigned_split)
  moreover have "unat x * unat y div 2 ^ 64 < 2 ^ 64"
    using unat_u64_less [of "fst (mulUnsigned64 x y)"] mulUnsigned64_eq [of x y] by simp
  ultimately have "unat (A * B + c2) = unat x * unat y div 2 ^ 64"
    using prod(1) [OF l(1,3)] by (subst unat_add_small) simp_all
  then show ?thesis
    by (simp only: mulUnsignedManual_def Let_def fst_conv A_def a_def B_def b_def c1_def c2_def)
qed

section \<open>Properties\<close>

text \<open>
  C34: the schoolbook 64x64 multiplication without a wider type, \<open>mulUnsignedManual\<close>, returns the
  same high and low words as the one that multiplies in 128 bits.
\<close>

theorem mulUnsignedManual_mulUnsigned64: "mulUnsignedManual a b = mulUnsigned64 a b"
proof (rule prod_eqI)
  show "fst (mulUnsignedManual a b) = fst (mulUnsigned64 a b)"
    using unat_mulUnsignedManual_high mulUnsigned64_eq by (simp only: word_unat_eq_iff)
  show "snd (mulUnsignedManual a b) = snd (mulUnsigned64 a b)"
    using mulUnsigned64_eq by (simp add: mulUnsignedManual_def Let_def)
qed

text \<open>
  For a power-of-two alignment \<open>roundDown\<close> returns the largest multiple of the alignment that
  is not above the value, and \<open>roundUp\<close>, where the addition does not wrap, the smallest one that
  is not below it.
\<close>

theorem round_multiple:
  assumes "isPowerOf2 align" and "unat val + unat align - 1 < 2 ^ 64"
  shows "\<exists>d u. roundDown val align = Inr d \<and> roundUp val align = Inr u \<and>
    unat align dvd unat d \<and> unat align dvd unat u \<and>
    unat d \<le> unat val \<and> unat val < unat d + unat align \<and>
    unat val \<le> unat u \<and> unat u < unat val + unat align"
proof -
  have a: "0 < unat align" using assms(1) by (auto simp: isPowerOf2_def unat_gt_0)
  obtain d where d: "roundDown val align = Inr d" "unat d = unat val div unat align * unat align"
    using roundDown_eq [OF assms(1)] by blast
  obtain u where u: "roundUp val align = Inr u"
    "unat u = (unat val + unat align - 1) div unat align * unat align"
    using roundUp_eq [OF assms] by blast
  have "x div a * a \<le> x" "x < x div a * a + a" if "0 < a" for x a :: nat
    using that div_mult_mod_eq [of x a] mod_less_divisor [OF that, of x] by linarith+
  note h = this [OF a, of "unat val"] this [OF a, of "unat val + unat align - 1"]
  have "unat d \<le> unat val" "unat val < unat d + unat align"
    using h d(2) by simp_all
  moreover have "unat val \<le> unat u" "unat u < unat val + unat align"
    using h u(2) a by linarith+
  ultimately show ?thesis
    using d u by (metis dvd_triv_right)
qed

theorem round_multiple_witness:
  "\<exists>d u. roundDown 100 64 = Inr d \<and> roundUp 100 64 = Inr u \<and>
    unat (64 :: u64) dvd unat d \<and> unat (64 :: u64) dvd unat u \<and>
    unat d \<le> unat (100 :: u64) \<and> unat (100 :: u64) < unat d + unat (64 :: u64) \<and>
    unat (100 :: u64) \<le> unat u \<and> unat u < unat (100 :: u64) + unat (64 :: u64)"
  using round_multiple [of 64 100] by (simp add: isPowerOf2_def)

text \<open>
  C36: at each of the four widths \<open>floorLog2\<close> and \<open>ceilLog2\<close> return for every positive value
  that fits, and bracket it between consecutive powers of two.
\<close>

theorem log2_brackets:
  assumes "0 < x" and "x < 2 ^ (8 * ts)" and "ts \<in> {1, 2, 4, 8}"
  shows "\<exists>f c. floorLog2 ts x = Inr f \<and> ceilLog2 ts x = Inr c \<and>
    2 ^ f \<le> nat x \<and> nat x < 2 ^ (f + 1) \<and> nat x \<le> 2 ^ c \<and> 2 ^ c < 2 * nat x"
proof -
  obtain f where f: "floorLog2 ts x = Inr f" "2 ^ f \<le> nat x" "nat x < 2 ^ (f + 1)"
    using floorLog2_bounds [OF assms] by blast
  have "\<exists>c. ceilLog2 ts x = Inr c \<and> nat x \<le> 2 ^ c \<and> 2 ^ c < 2 * nat x"
  proof (cases "x = 1")
    case True
    then show ?thesis by (simp add: ceilLog2_def)
  next
    case False
    then have "0 < x - 1" "x - 1 < 2 ^ (8 * ts)" using assms by simp_all
    from floorLog2_bounds [OF this assms(3)] obtain y
      where y: "floorLog2 ts (x - 1) = Inr y" "2 ^ y \<le> nat (x - 1)" "nat (x - 1) < 2 ^ (y + 1)"
      by blast
    moreover have "nat x = nat (x - 1) + 1" using \<open>0 < x - 1\<close> by simp
    ultimately have "nat x \<le> 2 ^ (y + 1)" "2 ^ (y + 1) < 2 * nat x"
      unfolding power_add power_one_right by linarith+
    moreover have "ceilLog2 ts x = Inr (y + 1)"
      using y(1) False assms(1) by (simp add: ceilLog2_def)
    ultimately show ?thesis by blast
  qed
  with f show ?thesis by blast
qed

theorem log2_brackets_witness:
  "\<exists>f c. floorLog2 4 1000 = Inr f \<and> ceilLog2 4 1000 = Inr c \<and>
    2 ^ f \<le> nat 1000 \<and> nat 1000 < 2 ^ (f + 1) \<and> nat 1000 \<le> 2 ^ c \<and> 2 ^ c < 2 * nat 1000"
  using log2_brackets [of 1000 4] by simp

end
