(* ===== verification/Base_Types.thy ===== *)
theory Base_Types
  imports Kuiper_Prelude "HOL-Library.AList"
begin

text \<open>
  The small value classes every component uses: \<open>Flags\<close> (\<open>base/include/flags.h\<close>), the
  scalar types, \<open>Cycles\<close> and micro-PCs of \<open>base/include/types.h\<close>, and the extension list of
  \<open>Extensible\<close> (\<open>base/include/extensible.h\<close>). A \<open>Flags<T>\<close> object is its word.
\<close>

named_theorems flag_defs \<open>the flag constants of requests, packets and blocks\<close>
named_theorems flag_ops \<open>the operations of the class Flags\<close>

section \<open>Flags\<close>

definition isSet :: "'a::len word \<Rightarrow> 'a word \<Rightarrow> bool" where [flag_ops]:
  "isSet flags m \<longleftrightarrow> flags AND m \<noteq> 0"

definition allSet :: "'a::len word \<Rightarrow> 'a word \<Rightarrow> bool" where [flag_ops]:
  "allSet flags m \<longleftrightarrow> flags AND m = m"

definition noneSet :: "'a::len word \<Rightarrow> 'a word \<Rightarrow> bool" where [flag_ops]:
  "noneSet flags m \<longleftrightarrow> flags AND m = 0"

definition clear_all :: "'a::len word \<Rightarrow> 'a word" where [flag_ops]:
  "clear_all flags = 0"

definition clear :: "'a::len word \<Rightarrow> 'a word \<Rightarrow> 'a word" where [flag_ops]:
  "clear flags m = flags AND NOT m"

definition setf :: "'a::len word \<Rightarrow> 'a word \<Rightarrow> 'a word" where [flag_ops]:
  "setf flags m = flags OR m"

definition setf_cond :: "'a::len word \<Rightarrow> 'a word \<Rightarrow> bool \<Rightarrow> 'a word" where [flag_ops]:
  "setf_cond flags m condition = (if condition then setf flags m else clear flags m)"

definition replace :: "'a::len word \<Rightarrow> 'a word \<Rightarrow> 'a word \<Rightarrow> 'a word" where [flag_ops]:
  "replace self flags m = (self AND NOT m) OR (flags AND m)"

lemma isSet_bits: "isSet (f :: 'a::len word) m \<longleftrightarrow> (\<exists>n. bit f n \<and> bit m n)"
proof -
  have "f AND m = 0 \<longleftrightarrow> (\<forall>n < LENGTH('a). \<not> (bit f n \<and> bit m n))"
    by (simp add: word_eq_zero_bits bit_and_iff)
  then show ?thesis unfolding isSet_def by (meson bit_imp_le_length)
qed

lemma not_noneSet [simp]: "\<not> noneSet f m \<longleftrightarrow> isSet f m"
  by (simp add: noneSet_def isSet_def)

lemma isSet_zero [simp]: "\<not> isSet 0 m" "\<not> isSet f 0"
  by (simp_all add: isSet_def)

lemma isSet_or [simp]: "isSet (f OR g) m \<longleftrightarrow> isSet f m \<or> isSet g m"
  by (auto simp: isSet_bits bit_simps)

lemma isSet_or_mask: "isSet f (m OR n) \<longleftrightarrow> isSet f m \<or> isSet f n"
  by (auto simp: isSet_bits bit_simps)

lemma isSet_setf [simp]: "isSet (setf f g) m \<longleftrightarrow> isSet f m \<or> isSet g m"
  by (simp add: setf_def)

lemma isSet_self [simp]: "isSet m m \<longleftrightarrow> m \<noteq> 0"
  by (simp add: isSet_def)

lemma isSet_clear_same [simp]: "\<not> isSet (clear f m) m"
  by (auto simp: isSet_bits clear_def bit_simps)

lemma isSet_clear_disjoint: "m AND g = 0 \<Longrightarrow> isSet (clear f g) m \<longleftrightarrow> isSet f m"
proof -
  assume "m AND g = 0"
  then have "\<not> (bit m n \<and> bit g n)" for n
    by (metis bit_and_iff bit_0_eq bot_apply bot_bool_def)
  then show ?thesis by (auto simp: isSet_bits clear_def bit_simps dest: bit_imp_le_length)
qed

lemma setf_idem [simp]: "setf (setf f m) m = setf f m"
  by (simp add: setf_def or.assoc)

lemma clear_setf_same: "clear (setf f m) m = clear f m"
  by (rule bit_word_eqI) (auto simp: clear_def setf_def bit_simps)

section \<open>Scalar types, cycles and micro-PCs\<close>

type_synonym Tick = u64
type_synonym Addr = u64
type_synonym Cycles = u64
type_synonym MicroPC = u16
type_synonym Counter = "64 word"
type_synonym InstSeqNum = u64
type_synonym ContextID = int

definition MaxTick :: Tick where
  "MaxTick = 0xffffffffffffffff"

definition MaxAddr :: Addr where
  "MaxAddr = - 1"

definition InvalidContextID :: ContextID where
  "InvalidContextID = - 1"

definition Cycles_inc :: "Cycles \<Rightarrow> Cycles" where
  "Cycles_inc c = c + 1"

definition Cycles_dec :: "Cycles \<Rightarrow> Cycles result" where
  "Cycles_dec c = check ''c != 0'' (c \<noteq> 0) (Inr (c - 1))"

definition Cycles_add_assign :: "Cycles \<Rightarrow> Cycles \<Rightarrow> Cycles" where
  "Cycles_add_assign c cc = c + cc"

definition Cycles_gt :: "Cycles \<Rightarrow> Cycles \<Rightarrow> bool" where
  "Cycles_gt c cc \<longleftrightarrow> c > cc"

definition Cycles_plus :: "Cycles \<Rightarrow> Cycles \<Rightarrow> Cycles" where
  "Cycles_plus c b = c + b"

definition Cycles_minus :: "Cycles \<Rightarrow> Cycles \<Rightarrow> Cycles result" where
  "Cycles_minus c b =
     (if c \<ge> b then Inr (c - b) else Inl (Throw ''RHS cycle value larger than LHS''))"

definition Cycles_shl :: "Cycles \<Rightarrow> int \<Rightarrow> Cycles result" where
  "Cycles_shl c shift = defined ''c << shift'' (0 \<le> shift \<and> shift < 64) (Inr (push_bit (nat shift) c))"

definition Cycles_shr :: "Cycles \<Rightarrow> int \<Rightarrow> Cycles result" where
  "Cycles_shr c shift = defined ''c >> shift'' (0 \<le> shift \<and> shift < 64) (Inr (drop_bit (nat shift) c))"

definition MicroPCRomBit :: MicroPC where
  "MicroPCRomBit = push_bit (2 * 8 - 1) 1"

definition romMicroPC :: "MicroPC \<Rightarrow> MicroPC" where
  "romMicroPC upc = upc OR MicroPCRomBit"

definition normalMicroPC :: "MicroPC \<Rightarrow> MicroPC" where
  "normalMicroPC upc = upc AND NOT MicroPCRomBit"

definition isRomMicroPC :: "MicroPC \<Rightarrow> bool" where
  "isRomMicroPC upc \<longleftrightarrow> MicroPCRomBit AND upc \<noteq> 0"

lemma MicroPC_rom_normal:
  "isRomMicroPC (romMicroPC upc)" "\<not> isRomMicroPC (normalMicroPC upc)"
  "normalMicroPC (romMicroPC upc) = normalMicroPC upc"
proof -
  show "isRomMicroPC (romMicroPC upc)"
    by (simp add: isRomMicroPC_def romMicroPC_def MicroPCRomBit_def word_ao_absorbs)
  have "MicroPCRomBit AND (upc AND NOT MicroPCRomBit) = 0"
    by (rule bit_word_eqI) (auto simp: bit_simps)
  then show "\<not> isRomMicroPC (normalMicroPC upc)"
    by (simp add: isRomMicroPC_def normalMicroPC_def)
  show "normalMicroPC (romMicroPC upc) = normalMicroPC upc"
    by (rule bit_word_eqI) (auto simp: romMicroPC_def normalMicroPC_def bit_simps)
qed

lemma Cycles_minus_plus: "Cycles_minus (Cycles_plus a b) b = Inr a \<longleftrightarrow> unat a + unat b < 2 ^ 64"
proof -
  have "b \<le> a + b \<longleftrightarrow> unat a + unat b < 2 ^ 64"
  proof -
    have "unat b < 2 ^ 64" "unat a < 2 ^ 64" using unsigned_less [of b] unsigned_less [of a] by simp_all
    moreover have "unat (a + b) = (unat a + unat b) mod 2 ^ 64" by (simp add: unat_word_ariths)
    moreover have "(unat a + unat b) mod 2 ^ 64 = unat a + unat b - 2 ^ 64"
      if "2 ^ 64 \<le> unat a + unat b" using that calculation by (simp add: le_mod_geq)
    ultimately show ?thesis
      by (cases "unat a + unat b < 2 ^ 64") (auto simp: word_le_nat_alt not_less)
  qed
  then show ?thesis by (simp add: Cycles_minus_def Cycles_plus_def)
qed

section \<open>Extensions\<close>

text \<open>
  An extension is the identifier of its type with its contents; the list is the source's
  \<open>std::list\<close> in order. A null shared pointer is \<open>None\<close>. \<open>clone\<close> is the virtual member of
  the concrete extension type, a parameter.
\<close>

type_synonym 'e extensions = "(nat \<times> 'e) list"

fun findExtension :: "nat \<Rightarrow> 'e extensions \<Rightarrow> nat" where
  "findExtension extID [] = 0"
| "findExtension extID ((i, e) # xs) = (if i = extID then 0 else Suc (findExtension extID xs))"

definition setExtension :: "nat \<Rightarrow> 'e option \<Rightarrow> 'e extensions \<Rightarrow> 'e extensions result" where
  "setExtension extID ext extensions =
     (case ext of
        None \<Rightarrow> Inl (AssertFail ''ext.get() != nullptr'')
      | Some e \<Rightarrow>
          (let it = findExtension extID extensions
           in Inr (if it \<noteq> length extensions then extensions[it := (extID, e)]
                   else extensions @ [(extID, e)])))"

definition removeExtension :: "nat \<Rightarrow> 'e extensions \<Rightarrow> 'e extensions" where
  "removeExtension extID extensions =
     (let it = findExtension extID extensions
      in if it \<noteq> length extensions then take it extensions @ drop (Suc it) extensions
         else extensions)"

definition getExtension :: "nat \<Rightarrow> 'e extensions \<Rightarrow> 'e option" where
  "getExtension extID extensions =
     (let it = findExtension extID extensions
      in if it = length extensions then None else Some (snd (extensions ! it)))"

definition Extensible_copy :: "('e \<Rightarrow> 'e) \<Rightarrow> 'e extensions \<Rightarrow> 'e extensions" where
  "Extensible_copy clone other = map (\<lambda>(i, e). (i, clone e)) other"

text \<open>The list behaves as an association list keyed by the extension's type.\<close>

lemma getExtension_map_of: "getExtension i xs = map_of xs i"
  by (induction i xs rule: findExtension.induct) (auto simp: getExtension_def Let_def)

lemma setExtension_update: "setExtension i (Some e) xs = Inr (AList.update i e xs)"
  by (induction i xs rule: findExtension.induct) (auto simp: setExtension_def Let_def split: if_splits)

lemma removeExtension_delete:
  "distinct (map fst xs) \<Longrightarrow> removeExtension i xs = AList.delete i xs"
proof (induction i xs rule: findExtension.induct)
  case (2 i j e xs)
  show ?case
  proof (cases "i = j")
    case True
    then have "AList.delete i xs = xs" using 2(2) by (intro delete_id) auto
    with True show ?thesis by (simp add: removeExtension_def)
  next
    case False
    with 2 show ?thesis by (auto simp: removeExtension_def Let_def split: if_splits)
  qed
qed (simp add: removeExtension_def)

end
