(* ===== verification/Cache_Request.thy ===== *)
theory Cache_Request
  imports Base_Types
begin

text \<open>
  \<open>cache/include/cache_request.h\<close>: the memory request. A \<open>Request\<close> object is a record with the
  class's fields; the two private flag words say which of them hold a value, and the accessors
  assert on them. The local accessor, a \<open>std::function\<close>, is the handle of the callable and its
  call a parameter; extensions are handles too.
\<close>

section \<open>Flags\<close>

definition ARCH_BITS :: u64 where [flag_defs]: "ARCH_BITS = 0xff"

definition INST_FETCH :: u64 where [flag_defs]: "INST_FETCH = 0x100"

definition PHYSICAL :: u64 where [flag_defs]: "PHYSICAL = 0x200"

definition UNCACHEABLE :: u64 where [flag_defs]: "UNCACHEABLE = 0x400"

definition STRICT_ORDER :: u64 where [flag_defs]: "STRICT_ORDER = 0x800"

definition PRIVILEGED :: u64 where [flag_defs]: "PRIVILEGED = 0x8000"

definition CACHE_BLOCK_ZERO :: u64 where [flag_defs]: "CACHE_BLOCK_ZERO = 0x10000"

definition NO_ACCESS :: u64 where [flag_defs]: "NO_ACCESS = 0x80000"

definition LOCKED_RMW :: u64 where [flag_defs]: "LOCKED_RMW = 0x100000"

definition LLSC :: u64 where [flag_defs]: "LLSC = 0x200000"

definition MEM_SWAP :: u64 where [flag_defs]: "MEM_SWAP = 0x400000"

definition MEM_SWAP_COND :: u64 where [flag_defs]: "MEM_SWAP_COND = 0x800000"

definition READ_MODIFY_WRITE :: u64 where [flag_defs]: "READ_MODIFY_WRITE = 0x20000"

definition PREFETCH :: u64 where [flag_defs]: "PREFETCH = 0x1000000"

definition PF_EXCLUSIVE :: u64 where [flag_defs]: "PF_EXCLUSIVE = 0x2000000"

definition EVICT_NEXT :: u64 where [flag_defs]: "EVICT_NEXT = 0x4000000"

definition ACQUIRE :: u64 where [flag_defs]: "ACQUIRE = 0x20000"

definition RELEASE :: u64 where [flag_defs]: "RELEASE = 0x40000"

definition ATOMIC_RETURN_OP :: u64 where [flag_defs]: "ATOMIC_RETURN_OP = 0x40000000"

definition ATOMIC_NO_RETURN_OP :: u64 where [flag_defs]: "ATOMIC_NO_RETURN_OP = 0x80000000"

definition KERNEL :: u64 where [flag_defs]: "KERNEL = 0x1000"

definition SECURE :: u64 where [flag_defs]: "SECURE = 0x10000000"

definition PT_WALK :: u64 where [flag_defs]: "PT_WALK = 0x20000000"

definition INVALIDATE :: u64 where [flag_defs]: "INVALIDATE = 0x100000000"

definition CLEAN :: u64 where [flag_defs]: "CLEAN = 0x200000000"

definition DST_POU :: u64 where [flag_defs]: "DST_POU = 0x1000000000"

definition DST_POC :: u64 where [flag_defs]: "DST_POC = 0x2000000000"

definition DST_BITS :: u64 where [flag_defs]: "DST_BITS = 0x3000000000"

definition HTM_START :: u64 where [flag_defs]: "HTM_START = 0x10000000000"

definition HTM_COMMIT :: u64 where [flag_defs]: "HTM_COMMIT = 0x20000000000"

definition HTM_CANCEL :: u64 where [flag_defs]: "HTM_CANCEL = 0x40000000000"

definition HTM_ABORT :: u64 where [flag_defs]: "HTM_ABORT = 0x80000000000"

definition TLBI :: u64 where [flag_defs]: "TLBI = 0x100000000000"

definition TLBI_SYNC :: u64 where [flag_defs]: "TLBI_SYNC = 0x200000000000"

definition TLBI_EXT_SYNC :: u64 where [flag_defs]: "TLBI_EXT_SYNC = 0x400000000000"

definition TLBI_EXT_SYNC_COMP :: u64 where [flag_defs]: "TLBI_EXT_SYNC_COMP = 0x800000000000"

definition STICKY_FLAGS :: u64 where [flag_defs]: "STICKY_FLAGS = INST_FETCH"

definition STORE_NO_DATA :: "u64" where
  "STORE_NO_DATA = CACHE_BLOCK_ZERO OR CLEAN OR INVALIDATE"

definition HTM_CMD :: "u64" where
  "HTM_CMD = HTM_START OR HTM_COMMIT OR HTM_CANCEL OR HTM_ABORT"

definition TLBI_CMD :: "u64" where
  "TLBI_CMD = TLBI OR TLBI_SYNC OR TLBI_EXT_SYNC OR TLBI_EXT_SYNC_COMP"

type_synonym RequestorID = u16

definition wbRequestorId :: "RequestorID" where
  "wbRequestorId = 0"

definition funcRequestorId :: "RequestorID" where
  "funcRequestorId = 1"

definition intRequestorId :: "RequestorID" where
  "intRequestorId = 2"

definition invldRequestorId :: "RequestorID" where
  "invldRequestorId = - 1"

definition Unknown_task :: "u32" where
  "Unknown_task = 1024"

definition Prefetcher_task :: "u32" where
  "Prefetcher_task = 1022"

definition I_CACHE_INV :: u64 where [flag_defs]: "I_CACHE_INV = 0x1"

definition INV_L1 :: u64 where [flag_defs]: "INV_L1 = I_CACHE_INV"

definition V_CACHE_INV :: u64 where [flag_defs]: "V_CACHE_INV = 0x2"

definition K_CACHE_INV :: u64 where [flag_defs]: "K_CACHE_INV = 0x4"

definition GL1_CACHE_INV :: u64 where [flag_defs]: "GL1_CACHE_INV = 0x8"

definition K_CACHE_WB :: u64 where [flag_defs]: "K_CACHE_WB = 0x10"

definition FLUSH_L2 :: u64 where [flag_defs]: "FLUSH_L2 = 0x20"

definition GL2_CACHE_INV :: u64 where [flag_defs]: "GL2_CACHE_INV = 0x40"

definition SLC_BIT :: u64 where [flag_defs]: "SLC_BIT = 0x80"

definition DLC_BIT :: u64 where [flag_defs]: "DLC_BIT = 0x100"

definition GLC_BIT :: u64 where [flag_defs]: "GLC_BIT = 0x200"

definition CACHED :: u64 where [flag_defs]: "CACHED = 0x400"

definition READ_WRITE :: u64 where [flag_defs]: "READ_WRITE = 0x800"

definition SHARED :: u64 where [flag_defs]: "SHARED = 0x1000"

definition VALID_SIZE :: u16 where [flag_defs]: "VALID_SIZE = 0x1"

definition VALID_PADDR :: u16 where [flag_defs]: "VALID_PADDR = 0x2"

definition VALID_VADDR :: u16 where [flag_defs]: "VALID_VADDR = 0x4"

definition VALID_INST_SEQ_NUM :: u16 where [flag_defs]: "VALID_INST_SEQ_NUM = 0x8"

definition VALID_PC :: u16 where [flag_defs]: "VALID_PC = 0x10"

definition VALID_CONTEXT_ID :: u16 where [flag_defs]: "VALID_CONTEXT_ID = 0x20"

definition VALID_EXTRA_DATA :: u16 where [flag_defs]: "VALID_EXTRA_DATA = 0x80"

definition VALID_STREAM_ID :: u16 where [flag_defs]: "VALID_STREAM_ID = 0x100"

definition VALID_SUBSTREAM_ID :: u16 where [flag_defs]: "VALID_SUBSTREAM_ID = 0x200"

definition VALID_HTM_ABORT_CAUSE :: u16 where [flag_defs]: "VALID_HTM_ABORT_CAUSE = 0x400"

definition VALID_INST_COUNT :: u16 where [flag_defs]: "VALID_INST_COUNT = 0x800"

definition STICKY_PRIVATE_FLAGS :: u16 where [flag_defs]: "STICKY_PRIVATE_FLAGS = VALID_CONTEXT_ID"

section \<open>The request\<close>

record Request =
  r_paddr :: Addr
  r_size :: u32
  r_byteEnable :: "bool list"
  r_requestorId :: RequestorID
  r_flags :: u64
  r_cacheCoherenceFlags :: u64
  r_privateFlags :: u16
  r_time :: Tick
  r_taskId :: u32
  r_streamId :: u32
  r_substreamId :: u32
  r_systemReq :: bool
  r_vaddr :: Addr
  r_extraData :: u64
  r_contextId :: ContextID
  r_pc :: Addr
  r_reqInstSeqNum :: InstSeqNum
  r_localAccessor :: "nat option"
  r_instCount :: Counter
  r_translateDelta :: Tick
  r_accessDelta :: Tick
  r_depth :: int
  r_extensions :: "nat extensions"

definition Request_default :: "Request" where
  "Request_default =
     \<lparr>r_paddr = 0, r_size = 0, r_byteEnable = [], r_requestorId = invldRequestorId,
      r_flags = 0, r_cacheCoherenceFlags = 0, r_privateFlags = 0, r_time = MaxTick,
      r_taskId = Unknown_task, r_streamId = 0, r_substreamId = 0, r_systemReq = False,
      r_vaddr = MaxAddr, r_extraData = 0, r_contextId = InvalidContextID, r_pc = MaxAddr,
      r_reqInstSeqNum = 0, r_localAccessor = None, r_instCount = 0,
      r_translateDelta = 0, r_accessDelta = 0, r_depth = 0, r_extensions = []\<rparr>"

definition Request_new :: "Addr \<Rightarrow> u32 \<Rightarrow> u64 \<Rightarrow> RequestorID \<Rightarrow> Request" where
  "Request_new paddr sz flags rid =
     Request_default\<lparr>r_paddr := paddr, r_size := sz, r_requestorId := rid,
       r_flags := setf 0 flags, r_privateFlags := setf 0 (VALID_PADDR OR VALID_SIZE),
       r_byteEnable := replicate (unat sz) True\<rparr>"

definition Request_setContext :: "ContextID \<Rightarrow> Request \<Rightarrow> Request" where
  "Request_setContext context_id r =
     r\<lparr>r_contextId := context_id, r_privateFlags := setf (r_privateFlags r) VALID_CONTEXT_ID\<rparr>"

definition Request_setStreamId :: "u32 \<Rightarrow> Request \<Rightarrow> Request" where
  "Request_setStreamId sid r =
     r\<lparr>r_streamId := sid, r_privateFlags := setf (r_privateFlags r) VALID_STREAM_ID\<rparr>"

definition Request_hasStreamId :: "Request \<Rightarrow> bool" where
  "Request_hasStreamId r \<longleftrightarrow> isSet (r_privateFlags r) VALID_STREAM_ID"

definition Request_setSubstreamId :: "u32 \<Rightarrow> Request \<Rightarrow> Request result" where
  "Request_setSubstreamId ssid r =
     check ''hasStreamId()'' (Request_hasStreamId r)
       (Inr (r\<lparr>r_substreamId := ssid,
               r_privateFlags := setf (r_privateFlags r) VALID_SUBSTREAM_ID\<rparr>))"

definition Request_setVirt :: "Addr \<Rightarrow> u32 \<Rightarrow> u64 \<Rightarrow> RequestorID \<Rightarrow> Addr \<Rightarrow> Request \<Rightarrow> Request" where
  "Request_setVirt vaddr sz flags rid pc r =
     r\<lparr>r_vaddr := vaddr, r_size := sz, r_requestorId := rid, r_pc := pc,
       r_flags := setf (clear (r_flags r) (NOT STICKY_FLAGS)) flags,
       r_privateFlags := setf (clear (r_privateFlags r) (NOT STICKY_PRIVATE_FLAGS))
                              (VALID_VADDR OR VALID_SIZE OR VALID_PC),
       r_depth := 0, r_accessDelta := 0, r_translateDelta := 0, r_localAccessor := None\<rparr>"

definition Request_new_virt :: "Addr \<Rightarrow> u32 \<Rightarrow> u64 \<Rightarrow> RequestorID \<Rightarrow> Addr \<Rightarrow> ContextID \<Rightarrow> Request" where
  "Request_new_virt vaddr sz flags rid pc cid =
     (Request_setContext cid (Request_setVirt vaddr sz flags rid pc Request_default))
       \<lparr>r_byteEnable := replicate (unat sz) True\<rparr>"

definition Request_copy :: "(nat \<Rightarrow> nat) \<Rightarrow> Request \<Rightarrow> Request" where
  "Request_copy clone other =
     Request_default\<lparr>
       r_extensions := Extensible_copy clone (r_extensions other),
       r_paddr := r_paddr other, r_size := r_size other, r_byteEnable := r_byteEnable other,
       r_requestorId := r_requestorId other, r_flags := r_flags other,
       r_cacheCoherenceFlags := r_cacheCoherenceFlags other,
       r_privateFlags := r_privateFlags other, r_time := r_time other,
       r_taskId := r_taskId other, r_vaddr := r_vaddr other, r_extraData := r_extraData other,
       r_contextId := r_contextId other, r_pc := r_pc other,
       r_reqInstSeqNum := r_reqInstSeqNum other, r_localAccessor := r_localAccessor other,
       r_translateDelta := r_translateDelta other, r_accessDelta := r_accessDelta other,
       r_depth := r_depth other\<rparr>"

definition Request_setPaddr :: "Addr \<Rightarrow> Request \<Rightarrow> Request" where
  "Request_setPaddr paddr r =
     r\<lparr>r_paddr := paddr, r_privateFlags := setf (r_privateFlags r) VALID_PADDR\<rparr>"

definition Request_hasPaddr :: "Request \<Rightarrow> bool" where
  "Request_hasPaddr r \<longleftrightarrow> isSet (r_privateFlags r) VALID_PADDR"

definition Request_hasVaddr :: "Request \<Rightarrow> bool" where
  "Request_hasVaddr r \<longleftrightarrow> isSet (r_privateFlags r) VALID_VADDR"

definition Request_hasInstCount :: "Request \<Rightarrow> bool" where
  "Request_hasInstCount r \<longleftrightarrow> isSet (r_privateFlags r) VALID_INST_COUNT"

definition Request_hasSize :: "Request \<Rightarrow> bool" where
  "Request_hasSize r \<longleftrightarrow> isSet (r_privateFlags r) VALID_SIZE"

definition Request_hasHtmAbortCause :: "Request \<Rightarrow> bool" where
  "Request_hasHtmAbortCause r \<longleftrightarrow> isSet (r_privateFlags r) VALID_HTM_ABORT_CAUSE"

definition Request_extraDataValid :: "Request \<Rightarrow> bool" where
  "Request_extraDataValid r \<longleftrightarrow> isSet (r_privateFlags r) VALID_EXTRA_DATA"

definition Request_hasContextId :: "Request \<Rightarrow> bool" where
  "Request_hasContextId r \<longleftrightarrow> isSet (r_privateFlags r) VALID_CONTEXT_ID"

definition Request_hasSubstreamId :: "Request \<Rightarrow> bool" where
  "Request_hasSubstreamId r \<longleftrightarrow> isSet (r_privateFlags r) VALID_SUBSTREAM_ID"

definition Request_hasPC :: "Request \<Rightarrow> bool" where
  "Request_hasPC r \<longleftrightarrow> isSet (r_privateFlags r) VALID_PC"

definition Request_hasInstSeqNum :: "Request \<Rightarrow> bool" where
  "Request_hasInstSeqNum r \<longleftrightarrow> isSet (r_privateFlags r) VALID_INST_SEQ_NUM"

definition Request_getPaddr :: "Request \<Rightarrow> Addr result" where
  "Request_getPaddr r = check ''hasPaddr()'' (Request_hasPaddr r) (Inr (r_paddr r))"

definition Request_getInstCount :: "Request \<Rightarrow> Counter result" where
  "Request_getInstCount r = check ''hasInstCount()'' (Request_hasInstCount r) (Inr (r_instCount r))"

definition Request_setInstCount :: "Counter \<Rightarrow> Request \<Rightarrow> Request" where
  "Request_setInstCount val r =
     r\<lparr>r_privateFlags := setf (r_privateFlags r) VALID_INST_COUNT, r_instCount := val\<rparr>"

definition Request_getSize :: "Request \<Rightarrow> u32 result" where
  "Request_getSize r = check ''hasSize()'' (Request_hasSize r) (Inr (r_size r))"

definition Request_getByteEnable :: "Request \<Rightarrow> bool list" where
  "Request_getByteEnable r = r_byteEnable r"

definition Request_setByteEnable :: "bool list \<Rightarrow> Request \<Rightarrow> Request result" where
  "Request_setByteEnable be r =
     check ''be.size() == _size'' (length be = unat (r_size r)) (Inr (r\<lparr>r_byteEnable := be\<rparr>))"

definition Request_isMasked :: "Request \<Rightarrow> bool" where
  "Request_isMasked r \<longleftrightarrow> False \<in> set (r_byteEnable r)"

definition Request_time :: "Request \<Rightarrow> Tick result" where
  "Request_time r = check ''hasPaddr() || hasVaddr()'' (Request_hasPaddr r \<or> Request_hasVaddr r) (Inr (r_time r))"

definition Request_isLocalAccess :: "Request \<Rightarrow> bool" where
  "Request_isLocalAccess r \<longleftrightarrow> r_localAccessor r \<noteq> None"

definition Request_setLocalAccessor :: "nat option \<Rightarrow> Request \<Rightarrow> Request" where
  "Request_setLocalAccessor acc r = r\<lparr>r_localAccessor := acc\<rparr>"

definition Request_localAccessor :: "(nat \<Rightarrow> 'tc \<Rightarrow> 'pkt \<Rightarrow> Cycles) \<Rightarrow> 'tc \<Rightarrow> 'pkt \<Rightarrow> Request \<Rightarrow> Cycles result" where
  "Request_localAccessor call tc pkt r =
     (case r_localAccessor r of
        None \<Rightarrow> Inl (Throw ''bad_function_call'')
      | Some f \<Rightarrow> Inr (call f tc pkt))"

definition Request_getFlags :: "Request \<Rightarrow> u64 result" where
  "Request_getFlags r = check ''hasPaddr() || hasVaddr()'' (Request_hasPaddr r \<or> Request_hasVaddr r) (Inr (r_flags r))"

definition Request_setFlags :: "u64 \<Rightarrow> Request \<Rightarrow> Request result" where
  "Request_setFlags flags r =
     check ''hasPaddr() || hasVaddr()'' (Request_hasPaddr r \<or> Request_hasVaddr r) (Inr (r\<lparr>r_flags := setf (r_flags r) flags\<rparr>))"

definition Request_clearFlags :: "u64 \<Rightarrow> Request \<Rightarrow> Request result" where
  "Request_clearFlags flags r =
     check ''hasPaddr() || hasVaddr()'' (Request_hasPaddr r \<or> Request_hasVaddr r) (Inr (r\<lparr>r_flags := clear (r_flags r) flags\<rparr>))"

definition Request_setCacheCoherenceFlags :: "u64 \<Rightarrow> Request \<Rightarrow> Request result" where
  "Request_setCacheCoherenceFlags flags r =
     check ''hasPaddr() || hasVaddr()'' (Request_hasPaddr r \<or> Request_hasVaddr r) (Inr (r\<lparr>r_cacheCoherenceFlags := setf (r_cacheCoherenceFlags r) flags\<rparr>))"

definition Request_clearCacheCoherenceFlags :: "u64 \<Rightarrow> Request \<Rightarrow> Request result" where
  "Request_clearCacheCoherenceFlags flags r =
     check ''hasPaddr() || hasVaddr()'' (Request_hasPaddr r \<or> Request_hasVaddr r) (Inr (r\<lparr>r_cacheCoherenceFlags := clear (r_cacheCoherenceFlags r) flags\<rparr>))"

definition Request_getVaddr :: "Request \<Rightarrow> Addr result" where
  "Request_getVaddr r = check ''privateFlags.isSet(VALID_VADDR)'' (isSet (r_privateFlags r) VALID_VADDR) (Inr (r_vaddr r))"

definition Request_requestorId :: "Request \<Rightarrow> RequestorID" where
  "Request_requestorId r = r_requestorId r"

definition Request_setRequestorId :: "RequestorID \<Rightarrow> Request \<Rightarrow> Request" where
  "Request_setRequestorId rid r = r\<lparr>r_requestorId := rid\<rparr>"

definition Request_taskId :: "Request \<Rightarrow> u32" where
  "Request_taskId r = r_taskId r"

definition Request_setTaskId :: "u32 \<Rightarrow> Request \<Rightarrow> Request" where
  "Request_setTaskId i r = r\<lparr>r_taskId := i\<rparr>"

definition Request_getArchFlags :: "Request \<Rightarrow> u8 result" where
  "Request_getArchFlags r = check ''hasPaddr() || hasVaddr()'' (Request_hasPaddr r \<or> Request_hasVaddr r) (Inr (ucast (r_flags r AND ARCH_BITS)))"

definition Request_getExtraData :: "Request \<Rightarrow> u64 result" where
  "Request_getExtraData r = check ''extraDataValid()'' (Request_extraDataValid r) (Inr (r_extraData r))"

definition Request_setExtraData :: "u64 \<Rightarrow> Request \<Rightarrow> Request" where
  "Request_setExtraData extraData r =
     r\<lparr>r_extraData := extraData, r_privateFlags := setf (r_privateFlags r) VALID_EXTRA_DATA\<rparr>"

definition Request_contextId :: "Request \<Rightarrow> ContextID result" where
  "Request_contextId r = check ''hasContextId()'' (Request_hasContextId r) (Inr (r_contextId r))"

definition Request_setSystemReq :: "bool \<Rightarrow> Request \<Rightarrow> Request" where
  "Request_setSystemReq sysReq r = r\<lparr>r_systemReq := sysReq\<rparr>"

definition Request_systemReq :: "Request \<Rightarrow> bool" where
  "Request_systemReq r = r_systemReq r"

definition Request_streamId :: "Request \<Rightarrow> u32 result" where
  "Request_streamId r = check ''hasStreamId()'' (Request_hasStreamId r) (Inr (r_streamId r))"

definition Request_substreamId :: "Request \<Rightarrow> u32 result" where
  "Request_substreamId r = check ''hasSubstreamId()'' (Request_hasSubstreamId r) (Inr (r_substreamId r))"

definition Request_setPC :: "Addr \<Rightarrow> Request \<Rightarrow> Request" where
  "Request_setPC pc r =
     r\<lparr>r_privateFlags := setf (r_privateFlags r) VALID_PC, r_pc := pc\<rparr>"

definition Request_getPC :: "Request \<Rightarrow> Addr result" where
  "Request_getPC r = check ''hasPC()'' (Request_hasPC r) (Inr (r_pc r))"

definition Request_incAccessDepth :: "Request \<Rightarrow> Request result" where
  "Request_incAccessDepth r =
     defined ''depth++'' (r_depth r < 2 ^ 31 - 1) (Inr (r\<lparr>r_depth := r_depth r + 1\<rparr>))"

definition Request_getAccessDepth :: "Request \<Rightarrow> int" where
  "Request_getAccessDepth r = r_depth r"

definition Request_getReqInstSeqNum :: "Request \<Rightarrow> InstSeqNum result" where
  "Request_getReqInstSeqNum r = check ''hasInstSeqNum()'' (Request_hasInstSeqNum r) (Inr (r_reqInstSeqNum r))"

definition Request_setReqInstSeqNum :: "InstSeqNum \<Rightarrow> Request \<Rightarrow> Request" where
  "Request_setReqInstSeqNum seq_num r =
     r\<lparr>r_privateFlags := setf (r_privateFlags r) VALID_INST_SEQ_NUM, r_reqInstSeqNum := seq_num\<rparr>"

section \<open>Flag queries\<close>

definition Request_isUncacheable :: "Request \<Rightarrow> bool" where
  "Request_isUncacheable r \<longleftrightarrow> isSet (r_flags r) UNCACHEABLE"

definition Request_isStrictlyOrdered :: "Request \<Rightarrow> bool" where
  "Request_isStrictlyOrdered r \<longleftrightarrow> isSet (r_flags r) STRICT_ORDER"

definition Request_isInstFetch :: "Request \<Rightarrow> bool" where
  "Request_isInstFetch r \<longleftrightarrow> isSet (r_flags r) INST_FETCH"

definition Request_isPrefetch :: "Request \<Rightarrow> bool" where
  "Request_isPrefetch r \<longleftrightarrow> isSet (r_flags r) (PREFETCH OR PF_EXCLUSIVE)"

definition Request_isPrefetchEx :: "Request \<Rightarrow> bool" where
  "Request_isPrefetchEx r \<longleftrightarrow> isSet (r_flags r) PF_EXCLUSIVE"

definition Request_isLLSC :: "Request \<Rightarrow> bool" where
  "Request_isLLSC r \<longleftrightarrow> isSet (r_flags r) LLSC"

definition Request_isPriv :: "Request \<Rightarrow> bool" where
  "Request_isPriv r \<longleftrightarrow> isSet (r_flags r) PRIVILEGED"

definition Request_isLockedRMW :: "Request \<Rightarrow> bool" where
  "Request_isLockedRMW r \<longleftrightarrow> isSet (r_flags r) LOCKED_RMW"

definition Request_isSwap :: "Request \<Rightarrow> bool" where
  "Request_isSwap r \<longleftrightarrow> isSet (r_flags r) (MEM_SWAP OR MEM_SWAP_COND)"

definition Request_isCondSwap :: "Request \<Rightarrow> bool" where
  "Request_isCondSwap r \<longleftrightarrow> isSet (r_flags r) MEM_SWAP_COND"

definition Request_isReadModifyWrite :: "Request \<Rightarrow> bool" where
  "Request_isReadModifyWrite r \<longleftrightarrow> isSet (r_flags r) (LOCKED_RMW OR READ_MODIFY_WRITE)"

definition Request_isSecure :: "Request \<Rightarrow> bool" where
  "Request_isSecure r \<longleftrightarrow> isSet (r_flags r) SECURE"

definition Request_isPTWalk :: "Request \<Rightarrow> bool" where
  "Request_isPTWalk r \<longleftrightarrow> isSet (r_flags r) PT_WALK"

definition Request_isRelease :: "Request \<Rightarrow> bool" where
  "Request_isRelease r \<longleftrightarrow> isSet (r_flags r) RELEASE"

definition Request_isKernel :: "Request \<Rightarrow> bool" where
  "Request_isKernel r \<longleftrightarrow> isSet (r_flags r) KERNEL"

definition Request_isAtomicReturn :: "Request \<Rightarrow> bool" where
  "Request_isAtomicReturn r \<longleftrightarrow> isSet (r_flags r) ATOMIC_RETURN_OP"

definition Request_isAtomicNoReturn :: "Request \<Rightarrow> bool" where
  "Request_isAtomicNoReturn r \<longleftrightarrow> isSet (r_flags r) ATOMIC_NO_RETURN_OP"

definition Request_isHTMStart :: "Request \<Rightarrow> bool" where
  "Request_isHTMStart r \<longleftrightarrow> isSet (r_flags r) HTM_START"

definition Request_isHTMCommit :: "Request \<Rightarrow> bool" where
  "Request_isHTMCommit r \<longleftrightarrow> isSet (r_flags r) HTM_COMMIT"

definition Request_isHTMCancel :: "Request \<Rightarrow> bool" where
  "Request_isHTMCancel r \<longleftrightarrow> isSet (r_flags r) HTM_CANCEL"

definition Request_isHTMAbort :: "Request \<Rightarrow> bool" where
  "Request_isHTMAbort r \<longleftrightarrow> isSet (r_flags r) HTM_ABORT"

definition Request_isTlbi :: "Request \<Rightarrow> bool" where
  "Request_isTlbi r \<longleftrightarrow> isSet (r_flags r) TLBI"

definition Request_isTlbiSync :: "Request \<Rightarrow> bool" where
  "Request_isTlbiSync r \<longleftrightarrow> isSet (r_flags r) TLBI_SYNC"

definition Request_isTlbiExtSync :: "Request \<Rightarrow> bool" where
  "Request_isTlbiExtSync r \<longleftrightarrow> isSet (r_flags r) TLBI_EXT_SYNC"

definition Request_isTlbiExtSyncComp :: "Request \<Rightarrow> bool" where
  "Request_isTlbiExtSyncComp r \<longleftrightarrow> isSet (r_flags r) TLBI_EXT_SYNC_COMP"

definition Request_isToPOU :: "Request \<Rightarrow> bool" where
  "Request_isToPOU r \<longleftrightarrow> isSet (r_flags r) DST_POU"

definition Request_isToPOC :: "Request \<Rightarrow> bool" where
  "Request_isToPOC r \<longleftrightarrow> isSet (r_flags r) DST_POC"

definition Request_isAcquire :: "Request \<Rightarrow> bool" where
  "Request_isAcquire r \<longleftrightarrow> isSet (r_cacheCoherenceFlags r) ACQUIRE"

definition Request_isGLCSet :: "Request \<Rightarrow> bool" where
  "Request_isGLCSet r \<longleftrightarrow> isSet (r_cacheCoherenceFlags r) GLC_BIT"

definition Request_isSLCSet :: "Request \<Rightarrow> bool" where
  "Request_isSLCSet r \<longleftrightarrow> isSet (r_cacheCoherenceFlags r) SLC_BIT"

definition Request_isInvL1 :: "Request \<Rightarrow> bool" where
  "Request_isInvL1 r \<longleftrightarrow> isSet (r_cacheCoherenceFlags r) INV_L1"

definition Request_isGL2CacheFlush :: "Request \<Rightarrow> bool" where
  "Request_isGL2CacheFlush r \<longleftrightarrow> isSet (r_cacheCoherenceFlags r) FLUSH_L2"

definition Request_isCacheClean :: "Request \<Rightarrow> bool" where
  "Request_isCacheClean r \<longleftrightarrow> isSet (r_flags r) CLEAN"

definition Request_isCacheInvalidate :: "Request \<Rightarrow> bool" where
  "Request_isCacheInvalidate r \<longleftrightarrow> isSet (r_flags r) INVALIDATE"

definition Request_isCacheMaintenance :: "Request \<Rightarrow> bool" where
  "Request_isCacheMaintenance r \<longleftrightarrow> isSet (r_flags r) (CLEAN OR INVALIDATE)"

definition Request_isHTMCmd :: "Request \<Rightarrow> bool" where
  "Request_isHTMCmd r \<longleftrightarrow> Request_isHTMStart r \<or> Request_isHTMCommit r \<or> Request_isHTMCancel r \<or> Request_isHTMAbort r"

definition Request_isTlbiCmd :: "Request \<Rightarrow> bool" where
  "Request_isTlbiCmd r \<longleftrightarrow> Request_isTlbi r \<or> Request_isTlbiSync r \<or> Request_isTlbiExtSync r \<or> Request_isTlbiExtSyncComp r"

definition Request_isMemMgmt :: "Request \<Rightarrow> bool" where
  "Request_isMemMgmt r \<longleftrightarrow> Request_isTlbiCmd r \<or> Request_isHTMCmd r"

definition Request_isAtomic :: "Request \<Rightarrow> bool" where
  "Request_isAtomic r \<longleftrightarrow> isSet (r_flags r) ATOMIC_RETURN_OP \<or> isSet (r_flags r) ATOMIC_NO_RETURN_OP"

definition Request_getDest :: "Request \<Rightarrow> u64" where
  "Request_getDest r = r_flags r AND DST_BITS"

definition Request_createMemManagement :: "u64 \<Rightarrow> RequestorID \<Rightarrow> Request result" where
  "Request_createMemManagement flags rid =
     (let mgmt_req = Request_default\<lparr>r_flags := setf 0 flags, r_requestorId := rid\<rparr>
      in check ''mgmt_req->isMemMgmt()'' (Request_isMemMgmt mgmt_req) (Inr mgmt_req))"

definition Request_splitOnVaddr :: "(nat \<Rightarrow> nat) \<Rightarrow> Addr \<Rightarrow> Request \<Rightarrow> (Request \<times> Request) result" where
  "Request_splitOnVaddr clone split_addr r =
     check ''hasVaddr()'' (Request_hasVaddr r)
     (check ''!hasPaddr()'' (\<not> Request_hasPaddr r)
     (check ''split_addr > _vaddr && split_addr < _vaddr + _size''
        (split_addr > r_vaddr r \<and> split_addr < r_vaddr r + ucast (r_size r))
        (let req1 = Request_copy clone r;
             req2 = Request_copy clone r;
             req1 = req1\<lparr>r_size := ucast (split_addr - r_vaddr r)\<rparr>;
             req2 = req2\<lparr>r_vaddr := split_addr, r_size := r_size r - r_size req1\<rparr>;
             n = unat (r_size req1)
         in defined ''_byteEnable.begin() + req1->_size'' (n \<le> length (r_byteEnable r))
              (Inr (req1\<lparr>r_byteEnable := take n (r_byteEnable r)\<rparr>,
                    req2\<lparr>r_byteEnable := drop n (r_byteEnable r)\<rparr>)))))"

section \<open>Lemmas\<close>

lemmas Request_private_ops =
  Request_hasPaddr_def Request_hasVaddr_def Request_hasSize_def Request_hasStreamId_def
  Request_hasSubstreamId_def Request_hasContextId_def Request_hasPC_def
  Request_hasInstCount_def Request_hasInstSeqNum_def Request_extraDataValid_def

text \<open>The byte enables cover the request exactly.\<close>

definition Request_wf :: "Request \<Rightarrow> bool" where
  "Request_wf r \<longleftrightarrow> length (r_byteEnable r) = unat (r_size r)"

lemma Request_wf_new: "Request_wf (Request_new paddr sz flags rid)"
  by (simp add: Request_wf_def Request_new_def)

lemma Request_wf_new_virt: "Request_wf (Request_new_virt vaddr sz flags rid pc cid)"
  by (simp add: Request_wf_def Request_new_virt_def Request_setVirt_def Request_setContext_def)

lemma Request_wf_setByteEnable:
  "Request_setByteEnable be r = Inr r' \<Longrightarrow> Request_wf r'"
  by (auto simp: Request_setByteEnable_def Request_wf_def)

lemma Request_new_accessors:
  "Request_getPaddr (Request_new a sz fl rid) = Inr a"
  "Request_getSize (Request_new a sz fl rid) = Inr sz"
  "Request_hasVaddr (Request_new a sz fl rid) = False"
  "Request_hasPC (Request_new a sz fl rid) = False"
  "Request_hasContextId (Request_new a sz fl rid) = False"
  "Request_getFlags (Request_new a sz fl rid) = Inr fl"
  by (simp_all add: Request_getPaddr_def Request_getSize_def Request_getFlags_def Request_new_def
      Request_private_ops Request_default_def flag_ops flag_defs)

lemma Request_copy_simps [simp]:
  "r_size (Request_copy clone r) = r_size r"
  "r_vaddr (Request_copy clone r) = r_vaddr r"
  "r_privateFlags (Request_copy clone r) = r_privateFlags r"
  "r_flags (Request_copy clone r) = r_flags r"
  "r_byteEnable (Request_copy clone r) = r_byteEnable r"
  "r_streamId (Request_copy clone r) = 0"
  "r_substreamId (Request_copy clone r) = 0"
  "r_instCount (Request_copy clone r) = 0"
  "r_systemReq (Request_copy clone r) = False"
  by (simp_all add: Request_copy_def Request_default_def)

lemma Request_setVirt_sticky:
  "Request_hasContextId (Request_setVirt v s f i p r) = Request_hasContextId r"
  "\<not> Request_hasPaddr (Request_setVirt v s f i p r)"
  "\<not> Request_hasStreamId (Request_setVirt v s f i p r)"
  "Request_getVaddr (Request_setVirt v s f i p r) = Inr v"
  "Request_getPC (Request_setVirt v s f i p r) = Inr p"
proof -
  have n: "m AND NOT STICKY_PRIVATE_FLAGS = 0" if "m = VALID_CONTEXT_ID" for m
    using that by (simp add: flag_defs)
  show "Request_hasContextId (Request_setVirt v s f i p r) = Request_hasContextId r"
    unfolding Request_private_ops Request_setVirt_def
    by (simp add: isSet_clear_disjoint [OF n]) (simp add: flag_defs isSet_def)
  have c: "\<not> isSet (clear w (NOT STICKY_PRIVATE_FLAGS)) VALID_PADDR"
    "\<not> isSet (clear w (NOT STICKY_PRIVATE_FLAGS)) VALID_STREAM_ID" for w
    by (simp_all add: isSet_def clear_def flag_defs and.assoc)
  show "\<not> Request_hasPaddr (Request_setVirt v s f i p r)"
    "\<not> Request_hasStreamId (Request_setVirt v s f i p r)"
    unfolding Request_private_ops Request_setVirt_def by (simp_all add: c) (simp_all add: flag_defs isSet_def)
  show "Request_getVaddr (Request_setVirt v s f i p r) = Inr v"
    "Request_getPC (Request_setVirt v s f i p r) = Inr p"
    by (simp_all add: Request_getVaddr_def Request_getPC_def Request_hasPC_def Request_setVirt_def)
       (simp_all add: flag_defs isSet_def)
qed

section \<open>Properties\<close>

text \<open>
  C29: splitting a well-formed virtual request strictly inside its range, where the range does
  not wrap around the address space, returns two well-formed requests that tile it: the first
  starts where the request starts, the second where the first ends, the sizes add up and the
  byte enables are cut at the same point.
\<close>

theorem splitOnVaddr_tiles:
  assumes "Request_wf r" and "Request_hasVaddr r" and "\<not> Request_hasPaddr r"
    and "unat (r_vaddr r) < unat a" and "unat a < unat (r_vaddr r) + unat (r_size r)"
    and "unat (r_vaddr r) + unat (r_size r) < 2 ^ 64"
  shows "\<exists>r1 r2. Request_splitOnVaddr clone a r = Inr (r1, r2) \<and>
    Request_wf r1 \<and> Request_wf r2 \<and>
    r_vaddr r1 = r_vaddr r \<and> r_vaddr r2 = a \<and>
    unat (r_vaddr r1) + unat (r_size r1) = unat (r_vaddr r2) \<and>
    unat (r_size r1) + unat (r_size r2) = unat (r_size r) \<and>
    r_byteEnable r1 @ r_byteEnable r2 = r_byteEnable r"
proof -
  have u: "unat (ucast (r_size r) :: u64) = unat (r_size r)"
    by (rule unat_ucast_u32)
  have s: "unat (r_vaddr r + ucast (r_size r)) = unat (r_vaddr r) + unat (r_size r)"
    using assms(6) u by (simp add: unat_word_ariths)
  have d: "unat (a - r_vaddr r) = unat a - unat (r_vaddr r)"
    using assms(4) by (intro unat_sub) (simp add: word_le_nat_alt)
  have "unat (a - r_vaddr r) < 2 ^ 32"
    using d assms(5) unat_u32_less [of "r_size r"] by simp
  then have n: "unat (ucast (a - r_vaddr r) :: u32) = unat a - unat (r_vaddr r)"
    using d by (simp add: unsigned_ucast_eq take_bit_nat_eq_self)
  then have le: "(ucast (a - r_vaddr r) :: u32) \<le> r_size r"
    using assms(5) by (simp add: word_le_nat_alt)
  have "unat (r_size r - ucast (a - r_vaddr r)) = unat (r_size r) - unat (ucast (a - r_vaddr r) :: u32)"
    using le by (rule unat_sub)
  moreover have "r_vaddr r < a" "a < r_vaddr r + ucast (r_size r)"
    using assms(4,5) s by (simp_all add: word_less_nat_alt)
  ultimately show ?thesis
    using assms n by (simp add: Request_splitOnVaddr_def Let_def Request_wf_def)
qed

theorem splitOnVaddr_tiles_witness:
  "\<exists>r1 r2. Request_splitOnVaddr id 0x1040 (Request_new_virt 0x1020 0x40 0 7 0x400 0) = Inr (r1, r2) \<and>
    Request_wf r1 \<and> Request_wf r2 \<and>
    r_vaddr r1 = 0x1020 \<and> r_vaddr r2 = 0x1040 \<and>
    unat (r_vaddr r1) + unat (r_size r1) = unat (r_vaddr r2) \<and>
    unat (r_size r1) + unat (r_size r2) = 0x40 \<and>
    r_byteEnable r1 @ r_byteEnable r2 = replicate 0x40 True"
proof -
  let ?r = "Request_new_virt 0x1020 0x40 0 7 0x400 0"
  have f: "r_vaddr ?r = 0x1020" "r_size ?r = 0x40" "r_byteEnable ?r = replicate 0x40 True"
    by (simp_all add: Request_new_virt_def Request_setVirt_def Request_setContext_def)
  have p: "r_privateFlags ?r = 0x35"
    by (simp add: Request_new_virt_def Request_setVirt_def Request_setContext_def
        Request_default_def flag_ops flag_defs)
  then have "Request_hasVaddr ?r" "\<not> Request_hasPaddr ?r"
    by (simp_all add: Request_private_ops isSet_def flag_defs)
  then show ?thesis
    using splitOnVaddr_tiles [of ?r "0x1040" id] Request_wf_new_virt by (simp add: f)
qed

text \<open>
  Copying a request keeps the private flags but not the fields some of them vouch for: a
  copy of a request with a stream identifier claims to have one, and returns 0.
\<close>

theorem Request_copy_streamId:
  "Request_streamId (Request_copy clone (Request_setStreamId sid r)) = Inr 0"
  by (simp add: Request_streamId_def Request_hasStreamId_def Request_setStreamId_def)
     (simp add: flag_defs isSet_def)

text \<open>
  The acquire query looks for the request flag \<open>ACQUIRE\<close> in the cache-coherence flags, so a
  request built with that flag is not reported as an acquire; and the flag has the bit of
  \<open>READ_MODIFY_WRITE\<close>, so the same request is reported as a read-modify-write.
\<close>

theorem Request_acquire_misread:
  "\<not> Request_isAcquire (Request_new a sz ACQUIRE rid) \<and>
   Request_isReadModifyWrite (Request_new a sz ACQUIRE rid)"
  by (simp add: Request_isAcquire_def Request_isReadModifyWrite_def Request_new_def
      Request_default_def flag_ops flag_defs)

end
