(* ===== verification/Mem_Cmd.thy ===== *)
theory Mem_Cmd
  imports Base_Types
begin

text \<open>
  The class \<open>MemCmd\<close> of \<open>cache/include/cache_packet.h\<close> and its attribute table
  \<open>commandInfo\<close> in \<open>cache/cache_packet.cpp\<close>: the memory commands, their attributes and the
  response each is answered by.
\<close>

section \<open>Commands\<close>

datatype (plugins only: code size) Command =
    InvalidCmd | ReadReq | ReadResp | ReadRespWithInvalidate | WriteReq | WriteResp
    | WriteCompleteResp | WritebackDirty | WritebackClean | WriteClean | CleanEvict | SoftPFReq
    | SoftPFExReq | HardPFReq | SoftPFResp | HardPFResp | WriteLineReq | UpgradeReq
    | SCUpgradeReq | UpgradeResp | SCUpgradeFailReq | UpgradeFailResp | ReadExReq | ReadExResp
    | ReadCleanReq | ReadSharedReq | LoadLockedReq | StoreCondReq | StoreCondFailReq
    | StoreCondResp | LockedRMWReadReq | LockedRMWReadResp | LockedRMWWriteReq
    | LockedRMWWriteResp | SwapReq | SwapResp | MemFenceReq | MemSyncReq | MemSyncResp
    | MemFenceResp | CleanSharedReq | CleanSharedResp | CleanInvalidReq | CleanInvalidResp
    | InvalidDestError | BadAddressError | ReadError | WriteError | FunctionalReadError
    | FunctionalWriteError | PrintReq | FlushReq | InvalidateReq | InvalidateResp | HTMReq
    | HTMReqResp | HTMAbort | TlbiExtSync

datatype Attribute =
    IsRead | IsWrite | IsUpgrade | IsInvalidate | IsClean | NeedsWritable | IsRequest
    | IsResponse | NeedsResponse | IsEviction | IsSWPrefetch | IsHWPrefetch | IsLlsc
    | IsLockedRMW | HasData | IsError | IsPrint | IsFlush | FromCache

primrec MemCmd_toInt :: "Command \<Rightarrow> nat" where
  "MemCmd_toInt InvalidCmd = 0"
| "MemCmd_toInt ReadReq = 1"
| "MemCmd_toInt ReadResp = 2"
| "MemCmd_toInt ReadRespWithInvalidate = 3"
| "MemCmd_toInt WriteReq = 4"
| "MemCmd_toInt WriteResp = 5"
| "MemCmd_toInt WriteCompleteResp = 6"
| "MemCmd_toInt WritebackDirty = 7"
| "MemCmd_toInt WritebackClean = 8"
| "MemCmd_toInt WriteClean = 9"
| "MemCmd_toInt CleanEvict = 10"
| "MemCmd_toInt SoftPFReq = 11"
| "MemCmd_toInt SoftPFExReq = 12"
| "MemCmd_toInt HardPFReq = 13"
| "MemCmd_toInt SoftPFResp = 14"
| "MemCmd_toInt HardPFResp = 15"
| "MemCmd_toInt WriteLineReq = 16"
| "MemCmd_toInt UpgradeReq = 17"
| "MemCmd_toInt SCUpgradeReq = 18"
| "MemCmd_toInt UpgradeResp = 19"
| "MemCmd_toInt SCUpgradeFailReq = 20"
| "MemCmd_toInt UpgradeFailResp = 21"
| "MemCmd_toInt ReadExReq = 22"
| "MemCmd_toInt ReadExResp = 23"
| "MemCmd_toInt ReadCleanReq = 24"
| "MemCmd_toInt ReadSharedReq = 25"
| "MemCmd_toInt LoadLockedReq = 26"
| "MemCmd_toInt StoreCondReq = 27"
| "MemCmd_toInt StoreCondFailReq = 28"
| "MemCmd_toInt StoreCondResp = 29"
| "MemCmd_toInt LockedRMWReadReq = 30"
| "MemCmd_toInt LockedRMWReadResp = 31"
| "MemCmd_toInt LockedRMWWriteReq = 32"
| "MemCmd_toInt LockedRMWWriteResp = 33"
| "MemCmd_toInt SwapReq = 34"
| "MemCmd_toInt SwapResp = 35"
| "MemCmd_toInt MemFenceReq = 38"
| "MemCmd_toInt MemSyncReq = 39"
| "MemCmd_toInt MemSyncResp = 40"
| "MemCmd_toInt MemFenceResp = 41"
| "MemCmd_toInt CleanSharedReq = 42"
| "MemCmd_toInt CleanSharedResp = 43"
| "MemCmd_toInt CleanInvalidReq = 44"
| "MemCmd_toInt CleanInvalidResp = 45"
| "MemCmd_toInt InvalidDestError = 46"
| "MemCmd_toInt BadAddressError = 47"
| "MemCmd_toInt ReadError = 48"
| "MemCmd_toInt WriteError = 49"
| "MemCmd_toInt FunctionalReadError = 50"
| "MemCmd_toInt FunctionalWriteError = 51"
| "MemCmd_toInt PrintReq = 52"
| "MemCmd_toInt FlushReq = 53"
| "MemCmd_toInt InvalidateReq = 54"
| "MemCmd_toInt InvalidateResp = 55"
| "MemCmd_toInt HTMReq = 56"
| "MemCmd_toInt HTMReqResp = 57"
| "MemCmd_toInt HTMAbort = 58"
| "MemCmd_toInt TlbiExtSync = 59"

primrec Attribute_toInt :: "Attribute \<Rightarrow> nat" where
  "Attribute_toInt IsRead = 0"
| "Attribute_toInt IsWrite = 1"
| "Attribute_toInt IsUpgrade = 2"
| "Attribute_toInt IsInvalidate = 3"
| "Attribute_toInt IsClean = 4"
| "Attribute_toInt NeedsWritable = 5"
| "Attribute_toInt IsRequest = 6"
| "Attribute_toInt IsResponse = 7"
| "Attribute_toInt NeedsResponse = 8"
| "Attribute_toInt IsEviction = 9"
| "Attribute_toInt IsSWPrefetch = 10"
| "Attribute_toInt IsHWPrefetch = 11"
| "Attribute_toInt IsLlsc = 12"
| "Attribute_toInt IsLockedRMW = 13"
| "Attribute_toInt HasData = 14"
| "Attribute_toInt IsError = 15"
| "Attribute_toInt IsPrint = 16"
| "Attribute_toInt IsFlush = 17"
| "Attribute_toInt FromCache = 18"

definition MemCmd_buildAttributes :: "Attribute list \<Rightarrow> u64" where
  "MemCmd_buildAttributes attrs =
     foldl (\<lambda>ret attr. ret OR push_bit (Attribute_toInt attr) 1) 0 attrs"

record CommandInfo =
  attributes :: u64
  response :: Command
  str :: string

definition mk_CommandInfo :: "Attribute list \<Rightarrow> Command \<Rightarrow> string \<Rightarrow> CommandInfo" where
  "mk_CommandInfo attrs resp s =
     \<lparr>attributes = MemCmd_buildAttributes attrs, response = resp, str = s\<rparr>"

definition commandInfo :: "CommandInfo list" where
  "commandInfo =
    [mk_CommandInfo [] InvalidCmd ''InvalidCmd'',
     mk_CommandInfo [IsRead, IsRequest, NeedsResponse] ReadResp ''ReadReq'',
     mk_CommandInfo [IsRead, IsResponse, HasData] InvalidCmd ''ReadResp'',
     mk_CommandInfo [IsRead, IsResponse, HasData, IsInvalidate] InvalidCmd ''ReadRespWithInvalidate'',
     mk_CommandInfo [IsWrite, NeedsWritable, IsRequest, NeedsResponse, HasData] WriteResp ''WriteReq'',
     mk_CommandInfo [IsWrite, IsResponse] InvalidCmd ''WriteResp'',
     mk_CommandInfo [IsWrite, IsResponse] InvalidCmd ''WriteCompleteResp'',
     mk_CommandInfo [IsWrite, IsRequest, IsEviction, HasData, FromCache] InvalidCmd ''WritebackDirty'',
     mk_CommandInfo [IsWrite, IsRequest, IsEviction, HasData, FromCache] InvalidCmd ''WritebackClean'',
     mk_CommandInfo [IsWrite, IsRequest, HasData, FromCache] InvalidCmd ''WriteClean'',
     mk_CommandInfo [IsRequest, IsEviction, FromCache] InvalidCmd ''CleanEvict'',
     mk_CommandInfo [IsRead, IsRequest, IsSWPrefetch, NeedsResponse] SoftPFResp ''SoftPFReq'',
     mk_CommandInfo [IsRead, NeedsWritable, IsInvalidate, IsRequest, IsSWPrefetch, NeedsResponse] SoftPFResp ''SoftPFExReq'',
     mk_CommandInfo [IsRead, IsRequest, IsHWPrefetch, NeedsResponse, FromCache] HardPFResp ''HardPFReq'',
     mk_CommandInfo [IsRead, IsResponse, IsSWPrefetch, HasData] InvalidCmd ''SoftPFResp'',
     mk_CommandInfo [IsRead, IsResponse, IsHWPrefetch, HasData] InvalidCmd ''HardPFResp'',
     mk_CommandInfo [IsWrite, NeedsWritable, IsRequest, NeedsResponse, HasData] WriteResp ''WriteLineReq'',
     mk_CommandInfo [IsInvalidate, NeedsWritable, IsUpgrade, IsRequest, NeedsResponse, FromCache] UpgradeResp ''UpgradeReq'',
     mk_CommandInfo [IsInvalidate, NeedsWritable, IsUpgrade, IsLlsc, IsRequest, NeedsResponse, FromCache] UpgradeResp ''SCUpgradeReq'',
     mk_CommandInfo [IsUpgrade, IsResponse] InvalidCmd ''UpgradeResp'',
     mk_CommandInfo [IsRead, NeedsWritable, IsInvalidate, IsLlsc, IsRequest, NeedsResponse, FromCache] UpgradeFailResp ''SCUpgradeFailReq'',
     mk_CommandInfo [IsRead, IsResponse, HasData] InvalidCmd ''UpgradeFailResp'',
     mk_CommandInfo [IsRead, NeedsWritable, IsInvalidate, IsRequest, NeedsResponse, FromCache] ReadExResp ''ReadExReq'',
     mk_CommandInfo [IsRead, IsResponse, HasData] InvalidCmd ''ReadExResp'',
     mk_CommandInfo [IsRead, IsRequest, NeedsResponse, FromCache] ReadResp ''ReadCleanReq'',
     mk_CommandInfo [IsRead, IsRequest, NeedsResponse, FromCache] ReadResp ''ReadSharedReq'',
     mk_CommandInfo [IsRead, IsLlsc, IsRequest, NeedsResponse] ReadResp ''LoadLockedReq'',
     mk_CommandInfo [IsWrite, NeedsWritable, IsLlsc, IsRequest, NeedsResponse, HasData] StoreCondResp ''StoreCondReq'',
     mk_CommandInfo [IsWrite, NeedsWritable, IsLlsc, IsRequest, NeedsResponse, HasData] StoreCondResp ''StoreCondFailReq'',
     mk_CommandInfo [IsWrite, IsLlsc, IsResponse] InvalidCmd ''StoreCondResp'',
     mk_CommandInfo [IsRead, IsLockedRMW, NeedsWritable, IsRequest, NeedsResponse] LockedRMWReadResp ''LockedRMWReadReq'',
     mk_CommandInfo [IsRead, IsLockedRMW, NeedsWritable, IsResponse, HasData] InvalidCmd ''LockedRMWReadResp'',
     mk_CommandInfo [IsWrite, IsLockedRMW, NeedsWritable, IsRequest, NeedsResponse, HasData] LockedRMWWriteResp ''LockedRMWWriteReq'',
     mk_CommandInfo [IsWrite, IsLockedRMW, NeedsWritable, IsResponse] InvalidCmd ''LockedRMWWriteResp'',
     mk_CommandInfo [IsRead, IsWrite, NeedsWritable, IsRequest, HasData, NeedsResponse] SwapResp ''SwapReq'',
     mk_CommandInfo [IsRead, IsWrite, IsResponse, HasData] InvalidCmd ''SwapResp'',
     mk_CommandInfo [] InvalidCmd ''Deprecated_MessageReq'',
     mk_CommandInfo [] InvalidCmd ''Deprecated_MessageResp'',
     mk_CommandInfo [IsRequest, NeedsResponse] MemFenceResp ''MemFenceReq'',
     mk_CommandInfo [IsRequest, NeedsResponse] MemSyncResp ''MemSyncReq'',
     mk_CommandInfo [IsResponse] InvalidCmd ''MemSyncResp'',
     mk_CommandInfo [IsResponse] InvalidCmd ''MemFenceResp'',
     mk_CommandInfo [IsRequest, IsClean, NeedsResponse, FromCache] CleanSharedResp ''CleanSharedReq'',
     mk_CommandInfo [IsResponse, IsClean] InvalidCmd ''CleanSharedResp'',
     mk_CommandInfo [IsRequest, IsInvalidate, IsClean, NeedsResponse, FromCache] CleanInvalidResp ''CleanInvalidReq'',
     mk_CommandInfo [IsResponse, IsInvalidate, IsClean] InvalidCmd ''CleanInvalidResp'',
     mk_CommandInfo [IsResponse, IsError] InvalidCmd ''InvalidDestError'',
     mk_CommandInfo [IsResponse, IsError] InvalidCmd ''BadAddressError'',
     mk_CommandInfo [IsRead, IsResponse, IsError] InvalidCmd ''ReadError'',
     mk_CommandInfo [IsWrite, IsResponse, IsError] InvalidCmd ''WriteError'',
     mk_CommandInfo [IsRead, IsResponse, IsError] InvalidCmd ''FunctionalReadError'',
     mk_CommandInfo [IsWrite, IsResponse, IsError] InvalidCmd ''FunctionalWriteError'',
     mk_CommandInfo [IsRequest, IsPrint] InvalidCmd ''PrintReq'',
     mk_CommandInfo [IsRequest, IsFlush, NeedsWritable] InvalidCmd ''FlushReq'',
     mk_CommandInfo [IsInvalidate, IsRequest, NeedsWritable, NeedsResponse, FromCache] InvalidateResp ''InvalidateReq'',
     mk_CommandInfo [IsInvalidate, IsResponse] InvalidCmd ''InvalidateResp'',
     mk_CommandInfo [IsRead, IsRequest, NeedsResponse] HTMReqResp ''HTMReq'',
     mk_CommandInfo [IsRead, IsResponse] InvalidCmd ''HTMReqResp'',
     mk_CommandInfo [IsRead, IsRequest] InvalidCmd ''HTMAbort'',
     mk_CommandInfo [IsRequest] InvalidCmd ''TlbiExtSync'']"

definition MemCmd_testCmdAttrib :: "Attribute \<Rightarrow> Command \<Rightarrow> bool" where
  "MemCmd_testCmdAttrib attrib cmd \<longleftrightarrow> bit (attributes (commandInfo ! MemCmd_toInt cmd)) (Attribute_toInt attrib)"

definition MemCmd_isRead :: "Command \<Rightarrow> bool" where
  "MemCmd_isRead cmd \<longleftrightarrow> MemCmd_testCmdAttrib IsRead cmd"

definition MemCmd_isWrite :: "Command \<Rightarrow> bool" where
  "MemCmd_isWrite cmd \<longleftrightarrow> MemCmd_testCmdAttrib IsWrite cmd"

definition MemCmd_isUpgrade :: "Command \<Rightarrow> bool" where
  "MemCmd_isUpgrade cmd \<longleftrightarrow> MemCmd_testCmdAttrib IsUpgrade cmd"

definition MemCmd_isRequest :: "Command \<Rightarrow> bool" where
  "MemCmd_isRequest cmd \<longleftrightarrow> MemCmd_testCmdAttrib IsRequest cmd"

definition MemCmd_isResponse :: "Command \<Rightarrow> bool" where
  "MemCmd_isResponse cmd \<longleftrightarrow> MemCmd_testCmdAttrib IsResponse cmd"

definition MemCmd_needsWritable :: "Command \<Rightarrow> bool" where
  "MemCmd_needsWritable cmd \<longleftrightarrow> MemCmd_testCmdAttrib NeedsWritable cmd"

definition MemCmd_needsResponse :: "Command \<Rightarrow> bool" where
  "MemCmd_needsResponse cmd \<longleftrightarrow> MemCmd_testCmdAttrib NeedsResponse cmd"

definition MemCmd_isInvalidate :: "Command \<Rightarrow> bool" where
  "MemCmd_isInvalidate cmd \<longleftrightarrow> MemCmd_testCmdAttrib IsInvalidate cmd"

definition MemCmd_isEviction :: "Command \<Rightarrow> bool" where
  "MemCmd_isEviction cmd \<longleftrightarrow> MemCmd_testCmdAttrib IsEviction cmd"

definition MemCmd_isClean :: "Command \<Rightarrow> bool" where
  "MemCmd_isClean cmd \<longleftrightarrow> MemCmd_testCmdAttrib IsClean cmd"

definition MemCmd_fromCache :: "Command \<Rightarrow> bool" where
  "MemCmd_fromCache cmd \<longleftrightarrow> MemCmd_testCmdAttrib FromCache cmd"

definition MemCmd_hasData :: "Command \<Rightarrow> bool" where
  "MemCmd_hasData cmd \<longleftrightarrow> MemCmd_testCmdAttrib HasData cmd"

definition MemCmd_isLLSC :: "Command \<Rightarrow> bool" where
  "MemCmd_isLLSC cmd \<longleftrightarrow> MemCmd_testCmdAttrib IsLlsc cmd"

definition MemCmd_isLockedRMW :: "Command \<Rightarrow> bool" where
  "MemCmd_isLockedRMW cmd \<longleftrightarrow> MemCmd_testCmdAttrib IsLockedRMW cmd"

definition MemCmd_isSWPrefetch :: "Command \<Rightarrow> bool" where
  "MemCmd_isSWPrefetch cmd \<longleftrightarrow> MemCmd_testCmdAttrib IsSWPrefetch cmd"

definition MemCmd_isHWPrefetch :: "Command \<Rightarrow> bool" where
  "MemCmd_isHWPrefetch cmd \<longleftrightarrow> MemCmd_testCmdAttrib IsHWPrefetch cmd"

definition MemCmd_isError :: "Command \<Rightarrow> bool" where
  "MemCmd_isError cmd \<longleftrightarrow> MemCmd_testCmdAttrib IsError cmd"

definition MemCmd_isPrint :: "Command \<Rightarrow> bool" where
  "MemCmd_isPrint cmd \<longleftrightarrow> MemCmd_testCmdAttrib IsPrint cmd"

definition MemCmd_isFlush :: "Command \<Rightarrow> bool" where
  "MemCmd_isFlush cmd \<longleftrightarrow> MemCmd_testCmdAttrib IsFlush cmd"

definition MemCmd_isWriteback :: "Command \<Rightarrow> bool" where
  "MemCmd_isWriteback cmd \<longleftrightarrow> MemCmd_testCmdAttrib IsEviction cmd \<and> MemCmd_testCmdAttrib HasData cmd"

definition MemCmd_isPrefetch :: "Command \<Rightarrow> bool" where
  "MemCmd_isPrefetch cmd \<longleftrightarrow> MemCmd_testCmdAttrib IsSWPrefetch cmd \<or> MemCmd_testCmdAttrib IsHWPrefetch cmd"

definition MemCmd_isDemand :: "Command \<Rightarrow> bool" where
  "MemCmd_isDemand cmd \<longleftrightarrow>
     cmd = ReadReq \<or> cmd = WriteReq \<or> cmd = WriteLineReq \<or> cmd = ReadExReq \<or>
     cmd = ReadCleanReq \<or> cmd = ReadSharedReq"

definition MemCmd_responseCommand :: "Command \<Rightarrow> Command" where
  "MemCmd_responseCommand cmd = response (commandInfo ! MemCmd_toInt cmd)"

definition MemCmd_toString :: "Command \<Rightarrow> string" where
  "MemCmd_toString cmd = str (commandInfo ! MemCmd_toInt cmd)"

section \<open>The table\<close>

text \<open>The attribute words are sets of attributes.\<close>

lemma Attribute_toInt_less: "Attribute_toInt a < 19"
  by (cases a) simp_all

lemma Attribute_toInt_inject [simp]: "Attribute_toInt a = Attribute_toInt b \<longleftrightarrow> a = b"
  by (cases a; cases b; simp)

lemma bit_buildAttributes:
  "bit (MemCmd_buildAttributes as) (Attribute_toInt a) \<longleftrightarrow> a \<in> set as"
proof (induction as rule: rev_induct)
  case (snoc b as)
  have "Attribute_toInt a < 64" for a using Attribute_toInt_less [of a] by simp
  with snoc show ?case by (auto simp: MemCmd_buildAttributes_def bit_simps bit_1_iff)
qed (simp add: MemCmd_buildAttributes_def)

declare Attribute_toInt.simps [simp del]

lemmas MemCmd_table =
  MemCmd_testCmdAttrib_def MemCmd_responseCommand_def MemCmd_toString_def commandInfo_def
  mk_CommandInfo_def bit_buildAttributes

lemmas MemCmd_query_defs =
  MemCmd_isRead_def MemCmd_isWrite_def MemCmd_isUpgrade_def MemCmd_isRequest_def
  MemCmd_isResponse_def MemCmd_needsWritable_def MemCmd_needsResponse_def
  MemCmd_isInvalidate_def MemCmd_isEviction_def MemCmd_isClean_def MemCmd_fromCache_def
  MemCmd_hasData_def MemCmd_isLLSC_def MemCmd_isLockedRMW_def MemCmd_isSWPrefetch_def
  MemCmd_isHWPrefetch_def MemCmd_isError_def MemCmd_isPrint_def MemCmd_isFlush_def
  MemCmd_isWriteback_def MemCmd_isPrefetch_def

text \<open>All commands in the order of the enumeration.\<close>

definition Command_all :: "Command list" where
  "Command_all = [InvalidCmd, ReadReq, ReadResp, ReadRespWithInvalidate, WriteReq, WriteResp,
    WriteCompleteResp, WritebackDirty, WritebackClean, WriteClean, CleanEvict, SoftPFReq,
    SoftPFExReq, HardPFReq, SoftPFResp, HardPFResp, WriteLineReq, UpgradeReq, SCUpgradeReq,
    UpgradeResp, SCUpgradeFailReq, UpgradeFailResp, ReadExReq, ReadExResp, ReadCleanReq,
    ReadSharedReq, LoadLockedReq, StoreCondReq, StoreCondFailReq, StoreCondResp,
    LockedRMWReadReq, LockedRMWReadResp, LockedRMWWriteReq, LockedRMWWriteResp, SwapReq,
    SwapResp, MemFenceReq, MemSyncReq, MemSyncResp, MemFenceResp, CleanSharedReq,
    CleanSharedResp, CleanInvalidReq, CleanInvalidResp, InvalidDestError, BadAddressError,
    ReadError, WriteError, FunctionalReadError, FunctionalWriteError, PrintReq, FlushReq,
    InvalidateReq, InvalidateResp, HTMReq, HTMReqResp, HTMAbort, TlbiExtSync]"

text \<open>A command is never both a request and a response, and an answerable one has a response.\<close>

lemma MemCmd_request_not_response: "\<not> (MemCmd_isRequest c \<and> MemCmd_isResponse c)"
  by (cases c) (simp_all add: MemCmd_query_defs MemCmd_table)

lemma MemCmd_response_table:
  "MemCmd_needsResponse c \<longrightarrow>
     MemCmd_isRequest c \<and> MemCmd_isResponse (MemCmd_responseCommand c) \<and>
     \<not> MemCmd_needsResponse (MemCmd_responseCommand c) \<and>
     \<not> MemCmd_isError (MemCmd_responseCommand c)"
  by (cases c) (simp_all add: MemCmd_query_defs MemCmd_table)

lemma MemCmd_simps [simp]:
  "MemCmd_isRequest WriteReq" "MemCmd_isRequest ReadReq" "MemCmd_isRequest HardPFReq"
  "MemCmd_isRequest WritebackDirty" "MemCmd_isRequest WritebackClean" "MemCmd_isRequest CleanEvict"
  "MemCmd_hasData WriteReq" "\<not> MemCmd_hasData ReadReq"
  "MemCmd_isRead ReadReq" "\<not> MemCmd_isWrite ReadReq"
  "MemCmd_isWrite WriteReq" "\<not> MemCmd_isRead WriteReq"
  "MemCmd_isHWPrefetch HardPFReq" "MemCmd_isEviction WritebackDirty" "MemCmd_isEviction CleanEvict"
  "MemCmd_isWriteback WritebackDirty" "\<not> MemCmd_isWriteback CleanEvict"
  "\<not> MemCmd_isEviction ReadReq" "\<not> MemCmd_isEviction WriteReq"
  "MemCmd_needsResponse ReadReq" "MemCmd_needsResponse WriteReq"
  "MemCmd_responseCommand ReadReq = ReadResp" "MemCmd_responseCommand WriteReq = WriteResp"
  by (simp_all add: MemCmd_query_defs MemCmd_table)

section \<open>Properties\<close>

text \<open>
  C28: the command table is well formed: every entry sits at the index of the command it
  describes (its string is the command's name), no command is both a request and a response, and
  every command that needs a response is a request whose response command is a non-error
  response that needs no response itself.
\<close>

theorem commandInfo_well_formed:
  "length commandInfo = 60 \<and>
   map MemCmd_toString Command_all = [''InvalidCmd'', ''ReadReq'', ''ReadResp'', ''ReadRespWithInvalidate'', ''WriteReq'',
     ''WriteResp'', ''WriteCompleteResp'', ''WritebackDirty'', ''WritebackClean'',
     ''WriteClean'', ''CleanEvict'', ''SoftPFReq'', ''SoftPFExReq'', ''HardPFReq'',
     ''SoftPFResp'', ''HardPFResp'', ''WriteLineReq'', ''UpgradeReq'', ''SCUpgradeReq'',
     ''UpgradeResp'', ''SCUpgradeFailReq'', ''UpgradeFailResp'', ''ReadExReq'',
     ''ReadExResp'', ''ReadCleanReq'', ''ReadSharedReq'', ''LoadLockedReq'',
     ''StoreCondReq'', ''StoreCondFailReq'', ''StoreCondResp'', ''LockedRMWReadReq'',
     ''LockedRMWReadResp'', ''LockedRMWWriteReq'', ''LockedRMWWriteResp'', ''SwapReq'',
     ''SwapResp'', ''MemFenceReq'', ''MemSyncReq'', ''MemSyncResp'', ''MemFenceResp'',
     ''CleanSharedReq'', ''CleanSharedResp'', ''CleanInvalidReq'', ''CleanInvalidResp'',
     ''InvalidDestError'', ''BadAddressError'', ''ReadError'', ''WriteError'',
     ''FunctionalReadError'', ''FunctionalWriteError'', ''PrintReq'', ''FlushReq'',
     ''InvalidateReq'', ''InvalidateResp'', ''HTMReq'', ''HTMReqResp'', ''HTMAbort'',
     ''TlbiExtSync''] \<and>
   \<not> (MemCmd_isRequest c \<and> MemCmd_isResponse c) \<and>
   (MemCmd_needsResponse c \<longrightarrow>
      MemCmd_isRequest c \<and> MemCmd_isResponse (MemCmd_responseCommand c) \<and>
      \<not> MemCmd_needsResponse (MemCmd_responseCommand c) \<and>
      \<not> MemCmd_isError (MemCmd_responseCommand c))"
proof -
  have "length commandInfo = 60" by (simp add: commandInfo_def)
  moreover have "map MemCmd_toString Command_all = [''InvalidCmd'', ''ReadReq'', ''ReadResp'', ''ReadRespWithInvalidate'', ''WriteReq'',
     ''WriteResp'', ''WriteCompleteResp'', ''WritebackDirty'', ''WritebackClean'',
     ''WriteClean'', ''CleanEvict'', ''SoftPFReq'', ''SoftPFExReq'', ''HardPFReq'',
     ''SoftPFResp'', ''HardPFResp'', ''WriteLineReq'', ''UpgradeReq'', ''SCUpgradeReq'',
     ''UpgradeResp'', ''SCUpgradeFailReq'', ''UpgradeFailResp'', ''ReadExReq'',
     ''ReadExResp'', ''ReadCleanReq'', ''ReadSharedReq'', ''LoadLockedReq'',
     ''StoreCondReq'', ''StoreCondFailReq'', ''StoreCondResp'', ''LockedRMWReadReq'',
     ''LockedRMWReadResp'', ''LockedRMWWriteReq'', ''LockedRMWWriteResp'', ''SwapReq'',
     ''SwapResp'', ''MemFenceReq'', ''MemSyncReq'', ''MemSyncResp'', ''MemFenceResp'',
     ''CleanSharedReq'', ''CleanSharedResp'', ''CleanInvalidReq'', ''CleanInvalidResp'',
     ''InvalidDestError'', ''BadAddressError'', ''ReadError'', ''WriteError'',
     ''FunctionalReadError'', ''FunctionalWriteError'', ''PrintReq'', ''FlushReq'',
     ''InvalidateReq'', ''InvalidateResp'', ''HTMReq'', ''HTMReqResp'', ''HTMAbort'',
     ''TlbiExtSync'']"
    by (simp add: Command_all_def MemCmd_table del: list.inject)
  ultimately show ?thesis
    by (intro conjI MemCmd_request_not_response MemCmd_response_table)
qed

theorem commandInfo_well_formed_witness:
  "MemCmd_isResponse (MemCmd_responseCommand LoadLockedReq)"
proof -
  have "MemCmd_needsResponse LoadLockedReq" by (simp add: MemCmd_query_defs MemCmd_table)
  then show ?thesis using commandInfo_well_formed [of LoadLockedReq] by blast
qed

end
