(* ===== verification/Cache_Packet.thy ===== *)
theory Cache_Packet
  imports Cache_Request Mem_Cmd Intmath
begin

text \<open>
  The class \<open>Packet\<close> of \<open>cache/include/cache_packet.h\<close> and \<open>cache/cache_packet.cpp\<close>. A packet record holds its request by value (the program shares it
  through a \<open>shared_ptr\<close>); its data is a pointer into a heap of byte buffers, its sender state
  the head of a linked stack whose \<open>predecessor\<close> links are a map. The members the constructors
  leave uninitialised, and the bytes of a fresh buffer, are parameters.
\<close>


section \<open>Packet flags\<close>

definition PKT_COPY_FLAGS :: u32 where [flag_defs]: "PKT_COPY_FLAGS = 0xff"

definition PKT_RESPONDER_FLAGS :: u32 where [flag_defs]: "PKT_RESPONDER_FLAGS = 0x9"

definition PKT_HAS_SHARERS :: u32 where [flag_defs]: "PKT_HAS_SHARERS = 0x1"

definition PKT_EXPRESS_SNOOP :: u32 where [flag_defs]: "PKT_EXPRESS_SNOOP = 0x2"

definition PKT_RESPONDER_HAD_WRITABLE :: u32 where [flag_defs]: "PKT_RESPONDER_HAD_WRITABLE = 0x4"

definition PKT_CACHE_RESPONDING :: u32 where [flag_defs]: "PKT_CACHE_RESPONDING = 0x8"

definition PKT_WRITE_THROUGH :: u32 where [flag_defs]: "PKT_WRITE_THROUGH = 0x10"

definition PKT_SATISFIED :: u32 where [flag_defs]: "PKT_SATISFIED = 0x20"

definition PKT_FAILS_TRANSACTION :: u32 where [flag_defs]: "PKT_FAILS_TRANSACTION = 0x40"

definition PKT_FROM_TRANSACTION :: u32 where [flag_defs]: "PKT_FROM_TRANSACTION = 0x80"

definition PKT_VALID_ADDR :: u32 where [flag_defs]: "PKT_VALID_ADDR = 0x100"

definition PKT_VALID_SIZE :: u32 where [flag_defs]: "PKT_VALID_SIZE = 0x200"

definition PKT_STATIC_DATA :: u32 where [flag_defs]: "PKT_STATIC_DATA = 0x1000"

definition PKT_DYNAMIC_DATA :: u32 where [flag_defs]: "PKT_DYNAMIC_DATA = 0x2000"

definition PKT_SUPPRESS_FUNC_ERROR :: u32 where [flag_defs]: "PKT_SUPPRESS_FUNC_ERROR = 0x8000"

definition PKT_BLOCK_CACHED :: u32 where [flag_defs]: "PKT_BLOCK_CACHED = 0x10000"

section \<open>Buffers\<close>

text \<open>
  The byte buffers the packets point into: a pointer is null or a buffer and an offset; a
  released buffer is \<open>None\<close>. \<open>memcpy\<close> between overlapping ranges, an access outside a live
  buffer and one through a null pointer are undefined behaviour.
\<close>

datatype ptr = Null | Ptr nat nat

type_synonym heap = "u8 list option list"

fun load_bytes :: "heap \<Rightarrow> ptr \<Rightarrow> nat \<Rightarrow> u8 list result" where
  "load_bytes h Null n = Inl (Undef ''null'')"
| "load_bytes h (Ptr b off) n =
     defined ''buffer'' (b < length h)
       (case h ! b of
          None \<Rightarrow> Inl (Undef ''released'')
        | Some bs \<Rightarrow> defined ''range'' (off + n \<le> length bs) (Inr (take n (drop off bs))))"

fun store_bytes :: "heap \<Rightarrow> ptr \<Rightarrow> u8 list \<Rightarrow> heap result" where
  "store_bytes h Null vs = Inl (Undef ''null'')"
| "store_bytes h (Ptr b off) vs =
     defined ''buffer'' (b < length h)
       (case h ! b of
          None \<Rightarrow> Inl (Undef ''released'')
        | Some bs \<Rightarrow> defined ''range'' (off + length vs \<le> length bs)
            (Inr (h[b := Some (take off bs @ vs @ drop (off + length vs) bs)])))"

fun ptr_add :: "ptr \<Rightarrow> nat \<Rightarrow> ptr" where
  "ptr_add Null n = Null"
| "ptr_add (Ptr b off) n = Ptr b (off + n)"

fun ptr_overlap :: "ptr \<Rightarrow> ptr \<Rightarrow> nat \<Rightarrow> bool" where
  "ptr_overlap (Ptr b i) (Ptr c j) n \<longleftrightarrow> b = c \<and> i < j + n \<and> j < i + n"
| "ptr_overlap _ _ n \<longleftrightarrow> False"

definition memcpy :: "heap \<Rightarrow> ptr \<Rightarrow> ptr \<Rightarrow> nat \<Rightarrow> heap result" where
  "memcpy h dst src n =
     defined ''memcpy of overlapping ranges'' (\<not> ptr_overlap dst src n)
       (bindR (load_bytes h src n) (store_bytes h dst))"

definition new_bytes :: "(nat \<Rightarrow> u8) \<Rightarrow> nat \<Rightarrow> heap \<Rightarrow> ptr \<times> heap" where
  "new_bytes junk n h = (Ptr (length h) 0, h @ [Some (map junk [0..<n])])"

fun delete_bytes :: "ptr \<Rightarrow> heap \<Rightarrow> heap result" where
  "delete_bytes Null h = Inr h"
| "delete_bytes (Ptr b off) h =
     defined ''delete'' (b < length h \<and> off = 0 \<and> h ! b \<noteq> None) (Inr (h[b := None]))"

section \<open>Packets\<close>

record Packet =
  p_flags :: u32
  p_cmd :: Command
  p_id :: u64
  p_req :: Request
  p_payloadDelay :: u32
  p_headerDelay :: u32
  p_data :: ptr
  p_addr :: Addr
  p_size :: u32
  p_isSecure :: bool
  p_bytesValid :: "bool list"
  p_qosValue :: u8
  p_senderState :: "nat option"
  p_extensions :: "nat extensions"

definition Packet_isRead :: "Packet \<Rightarrow> bool" where
  "Packet_isRead p \<longleftrightarrow> MemCmd_isRead (p_cmd p)"

definition Packet_isWrite :: "Packet \<Rightarrow> bool" where
  "Packet_isWrite p \<longleftrightarrow> MemCmd_isWrite (p_cmd p)"

definition Packet_isDemand :: "Packet \<Rightarrow> bool" where
  "Packet_isDemand p \<longleftrightarrow> MemCmd_isDemand (p_cmd p)"

definition Packet_isUpgrade :: "Packet \<Rightarrow> bool" where
  "Packet_isUpgrade p \<longleftrightarrow> MemCmd_isUpgrade (p_cmd p)"

definition Packet_isRequest :: "Packet \<Rightarrow> bool" where
  "Packet_isRequest p \<longleftrightarrow> MemCmd_isRequest (p_cmd p)"

definition Packet_isResponse :: "Packet \<Rightarrow> bool" where
  "Packet_isResponse p \<longleftrightarrow> MemCmd_isResponse (p_cmd p)"

definition Packet_needsResponse :: "Packet \<Rightarrow> bool" where
  "Packet_needsResponse p \<longleftrightarrow> MemCmd_needsResponse (p_cmd p)"

definition Packet_isInvalidate :: "Packet \<Rightarrow> bool" where
  "Packet_isInvalidate p \<longleftrightarrow> MemCmd_isInvalidate (p_cmd p)"

definition Packet_isEviction :: "Packet \<Rightarrow> bool" where
  "Packet_isEviction p \<longleftrightarrow> MemCmd_isEviction (p_cmd p)"

definition Packet_isClean :: "Packet \<Rightarrow> bool" where
  "Packet_isClean p \<longleftrightarrow> MemCmd_isClean (p_cmd p)"

definition Packet_fromCache :: "Packet \<Rightarrow> bool" where
  "Packet_fromCache p \<longleftrightarrow> MemCmd_fromCache (p_cmd p)"

definition Packet_isWriteback :: "Packet \<Rightarrow> bool" where
  "Packet_isWriteback p \<longleftrightarrow> MemCmd_isWriteback (p_cmd p)"

definition Packet_hasData :: "Packet \<Rightarrow> bool" where
  "Packet_hasData p \<longleftrightarrow> MemCmd_hasData (p_cmd p)"

definition Packet_isLLSC :: "Packet \<Rightarrow> bool" where
  "Packet_isLLSC p \<longleftrightarrow> MemCmd_isLLSC (p_cmd p)"

definition Packet_isLockedRMW :: "Packet \<Rightarrow> bool" where
  "Packet_isLockedRMW p \<longleftrightarrow> MemCmd_isLockedRMW (p_cmd p)"

definition Packet_isError :: "Packet \<Rightarrow> bool" where
  "Packet_isError p \<longleftrightarrow> MemCmd_isError (p_cmd p)"

definition Packet_isPrint :: "Packet \<Rightarrow> bool" where
  "Packet_isPrint p \<longleftrightarrow> MemCmd_isPrint (p_cmd p)"

definition Packet_isFlush :: "Packet \<Rightarrow> bool" where
  "Packet_isFlush p \<longleftrightarrow> MemCmd_isFlush (p_cmd p)"

definition Packet_cmdString :: "Packet \<Rightarrow> string" where
  "Packet_cmdString p = MemCmd_toString (p_cmd p)"

definition Packet_cmdToIndex :: "Packet \<Rightarrow> nat" where
  "Packet_cmdToIndex p = MemCmd_toInt (p_cmd p)"

definition Packet_needsWritable :: "Packet \<Rightarrow> bool result" where
  "Packet_needsWritable p =
     check ''isRequest()'' (Packet_isRequest p) (Inr (MemCmd_needsWritable (p_cmd p)))"

definition Packet_hasRespData :: "Packet \<Rightarrow> bool" where
  "Packet_hasRespData p \<longleftrightarrow> MemCmd_hasData (MemCmd_responseCommand (p_cmd p))"

definition Packet_isMaskedWrite :: "Packet \<Rightarrow> bool" where
  "Packet_isMaskedWrite p \<longleftrightarrow> p_cmd p = WriteReq \<and> Request_isMasked (p_req p)"

definition Packet_getAddr :: "Packet \<Rightarrow> Addr result" where
  "Packet_getAddr p =
     check ''flags.isSet(VALID_ADDR)'' (isSet (p_flags p) PKT_VALID_ADDR) (Inr (p_addr p))"

definition Packet_setAddr :: "Addr \<Rightarrow> Packet \<Rightarrow> Packet result" where
  "Packet_setAddr a p =
     check ''flags.isSet(VALID_ADDR)'' (isSet (p_flags p) PKT_VALID_ADDR) (Inr (p\<lparr>p_addr := a\<rparr>))"

definition Packet_getSize :: "Packet \<Rightarrow> u32 result" where
  "Packet_getSize p =
     check ''flags.isSet(VALID_SIZE)'' (isSet (p_flags p) PKT_VALID_SIZE) (Inr (p_size p))"

definition Packet_getOffset :: "u32 \<Rightarrow> Packet \<Rightarrow> Addr result" where
  "Packet_getOffset blk_size p =
     bindR (Packet_getAddr p) (\<lambda>a. Inr (a AND ucast (blk_size - 1)))"

definition Packet_getBlockAddr :: "u32 \<Rightarrow> Packet \<Rightarrow> Addr result" where
  "Packet_getBlockAddr blk_size p =
     bindR (Packet_getAddr p) (\<lambda>a. Inr (a AND NOT (ucast (blk_size - 1))))"

definition Packet_isSecure :: "Packet \<Rightarrow> bool result" where
  "Packet_isSecure p =
     check ''flags.isSet(VALID_ADDR)'' (isSet (p_flags p) PKT_VALID_ADDR) (Inr (p_isSecure p))"

definition Packet_isWholeLineWrite :: "u32 \<Rightarrow> Packet \<Rightarrow> bool result" where
  "Packet_isWholeLineWrite blk_size p =
     (if p_cmd p = WriteReq \<or> p_cmd p = WriteLineReq then
        bindR (Packet_getOffset blk_size p) (\<lambda>off.
          if off = 0 then
            bindR (Packet_getSize p) (\<lambda>sz. Inr (sz = blk_size \<and> \<not> Packet_isMaskedWrite p))
          else Inr False)
      else Inr False)"

definition Packet_setCacheResponding :: "Packet \<Rightarrow> Packet result" where
  "Packet_setCacheResponding p =
     check ''isRequest()'' (Packet_isRequest p)
     (check ''!flags.isSet(CACHE_RESPONDING)'' (\<not> isSet (p_flags p) PKT_CACHE_RESPONDING)
       (Inr (p\<lparr>p_flags := setf (p_flags p) PKT_CACHE_RESPONDING\<rparr>)))"

definition Packet_cacheResponding :: "Packet \<Rightarrow> bool" where
  "Packet_cacheResponding p \<longleftrightarrow> isSet (p_flags p) PKT_CACHE_RESPONDING"

definition Packet_setHasSharers :: "Packet \<Rightarrow> Packet" where
  "Packet_setHasSharers p = p\<lparr>p_flags := setf (p_flags p) PKT_HAS_SHARERS\<rparr>"

definition Packet_hasSharers :: "Packet \<Rightarrow> bool" where
  "Packet_hasSharers p \<longleftrightarrow> isSet (p_flags p) PKT_HAS_SHARERS"

definition Packet_copyResponderFlags :: "Packet \<Rightarrow> Packet \<Rightarrow> Packet result" where
  "Packet_copyResponderFlags pkt p =
     check ''isRequest()'' (Packet_isRequest p)
     (check ''!pkt->cacheResponding() || !cacheResponding()''
        (\<not> Packet_cacheResponding pkt \<or> \<not> Packet_cacheResponding p)
        (Inr (p\<lparr>p_flags := setf (p_flags p) (p_flags pkt AND PKT_RESPONDER_FLAGS)\<rparr>)))"

definition Packet_setSatisfied :: "Packet \<Rightarrow> Packet result" where
  "Packet_setSatisfied p =
     check ''cmd.isClean()'' (MemCmd_isClean (p_cmd p))
     (check ''!flags.isSet(SATISFIED)'' (\<not> isSet (p_flags p) PKT_SATISFIED)
       (Inr (p\<lparr>p_flags := setf (p_flags p) PKT_SATISFIED\<rparr>)))"

definition Packet_satisfied :: "Packet \<Rightarrow> bool" where
  "Packet_satisfied p \<longleftrightarrow> isSet (p_flags p) PKT_SATISFIED"

definition Packet_setSuppressFuncError :: "Packet \<Rightarrow> Packet" where
  "Packet_setSuppressFuncError p = p\<lparr>p_flags := setf (p_flags p) PKT_SUPPRESS_FUNC_ERROR\<rparr>"

definition Packet_suppressFuncError :: "Packet \<Rightarrow> bool" where
  "Packet_suppressFuncError p \<longleftrightarrow> isSet (p_flags p) PKT_SUPPRESS_FUNC_ERROR"

definition Packet_setBlockCached :: "Packet \<Rightarrow> Packet" where
  "Packet_setBlockCached p = p\<lparr>p_flags := setf (p_flags p) PKT_BLOCK_CACHED\<rparr>"

definition Packet_isBlockCached :: "Packet \<Rightarrow> bool" where
  "Packet_isBlockCached p \<longleftrightarrow> isSet (p_flags p) PKT_BLOCK_CACHED"

definition Packet_clearBlockCached :: "Packet \<Rightarrow> Packet" where
  "Packet_clearBlockCached p = p\<lparr>p_flags := clear (p_flags p) PKT_BLOCK_CACHED\<rparr>"

definition Packet_qosValue :: "Packet \<Rightarrow> u8" where
  "Packet_qosValue p = p_qosValue p"

definition Packet_setQosValue :: "u8 \<Rightarrow> Packet \<Rightarrow> Packet" where
  "Packet_setQosValue qos_value p = p\<lparr>p_qosValue := qos_value\<rparr>"

definition Packet_requestorId :: "Packet \<Rightarrow> RequestorID" where
  "Packet_requestorId p = Request_requestorId (p_req p)"

definition Packet_setBadAddress :: "Packet \<Rightarrow> Packet result" where
  "Packet_setBadAddress p =
     check ''isResponse()'' (Packet_isResponse p) (Inr (p\<lparr>p_cmd := BadAddressError\<rparr>))"

definition Packet_setBadCommand :: "Packet \<Rightarrow> Packet result" where
  "Packet_setBadCommand p =
     check ''isResponse()'' (Packet_isResponse p)
       (Inr (if Packet_isWrite p then p\<lparr>p_cmd := WriteError\<rparr> else p\<lparr>p_cmd := ReadError\<rparr>))"

definition Packet_copyError :: "Packet \<Rightarrow> Packet \<Rightarrow> Packet result" where
  "Packet_copyError pkt p =
     check ''pkt->isError()'' (Packet_isError pkt) (Inr (p\<lparr>p_cmd := p_cmd pkt\<rparr>))"

definition Packet_new :: "u32 \<times> u32 \<Rightarrow> u64 \<Rightarrow> Request \<Rightarrow> Command \<Rightarrow> Packet result" where
  "Packet_new junk reqptr req cmd =
     (let p = \<lparr>p_flags = clear_all 0, p_cmd = cmd, p_id = reqptr, p_req = req,
               p_payloadDelay = fst junk, p_headerDelay = snd junk, p_data = Null, p_addr = 0,
               p_size = 0, p_isSecure = False, p_bytesValid = [], p_qosValue = 0,
               p_senderState = None, p_extensions = []\<rparr>
      in bindR (if Request_hasPaddr req then
                  bindR (Request_getPaddr req) (\<lambda>a.
                    Inr (p\<lparr>p_addr := a, p_flags := setf (p_flags p) PKT_VALID_ADDR,
                           p_isSecure := Request_isSecure req\<rparr>))
                else Inr p) (\<lambda>p.
         bindR (if Request_isHTMCmd req then
                  (let p = p\<lparr>p_flags := setf (p_flags p) PKT_VALID_ADDR\<rparr>
                   in check ''addr == 0x0'' (p_addr p = 0) (Inr p))
                else Inr p) (\<lambda>p.
         if Request_hasSize req then
           bindR (Request_getSize req) (\<lambda>sz.
             Inr (p\<lparr>p_size := sz, p_flags := setf (p_flags p) PKT_VALID_SIZE\<rparr>))
         else Inr p)))"

definition Packet_new_blk :: "u32 \<times> u32 \<Rightarrow> u64 \<Rightarrow> Request \<Rightarrow> Command \<Rightarrow> u32 \<Rightarrow> u64 \<Rightarrow> Packet result" where
  "Packet_new_blk junk reqptr req cmd blkSize pid =
     (let p = \<lparr>p_flags = clear_all 0, p_cmd = cmd, p_id = (if pid \<noteq> 0 then pid else reqptr),
               p_req = req, p_payloadDelay = fst junk, p_headerDelay = snd junk, p_data = Null,
               p_addr = 0, p_size = 0, p_isSecure = False, p_bytesValid = [], p_qosValue = 0,
               p_senderState = None, p_extensions = []\<rparr>
      in bindR (if Request_hasPaddr req then
                  bindR (Request_getPaddr req) (\<lambda>a.
                    Inr (p\<lparr>p_addr := a AND scast (NOT (blkSize - 1)),
                           p_flags := setf (p_flags p) PKT_VALID_ADDR,
                           p_isSecure := Request_isSecure req\<rparr>))
                else Inr p) (\<lambda>p.
         Inr (p\<lparr>p_size := blkSize, p_flags := setf (p_flags p) PKT_VALID_SIZE\<rparr>)))"

definition Packet_allocate :: "(nat \<Rightarrow> u8) \<Rightarrow> heap \<Rightarrow> Packet \<Rightarrow> (heap \<times> Packet) result" where
  "Packet_allocate junk h p =
     (if Packet_hasData p \<or> Packet_hasRespData p then
        check ''flags.noneSet(STATIC_DATA | DYNAMIC_DATA)''
          (noneSet (p_flags p) (PKT_STATIC_DATA OR PKT_DYNAMIC_DATA))
          (let p = p\<lparr>p_flags := setf (p_flags p) PKT_DYNAMIC_DATA\<rparr>
           in bindR (Packet_getSize p) (\<lambda>sz.
                case new_bytes junk (unat sz) h of (q, h) \<Rightarrow> Inr (h, p\<lparr>p_data := q\<rparr>)))
      else Inr (h, p))"

definition Packet_copy :: "(nat \<Rightarrow> nat) \<Rightarrow> (u32 \<times> u32) \<times> (nat \<Rightarrow> u8) \<Rightarrow> heap \<Rightarrow> Packet \<Rightarrow> bool \<Rightarrow> bool \<Rightarrow> (heap \<times> Packet) result" where
  "Packet_copy clone junk h pkt clear_flags alloc_data =
     (let p = \<lparr>p_flags = 0, p_cmd = p_cmd pkt, p_id = p_id pkt, p_req = p_req pkt,
               p_payloadDelay = fst (fst junk), p_headerDelay = snd (fst junk), p_data = Null,
               p_addr = p_addr pkt, p_size = p_size pkt, p_isSecure = p_isSecure pkt,
               p_bytesValid = p_bytesValid pkt, p_qosValue = Packet_qosValue pkt,
               p_senderState = p_senderState pkt,
               p_extensions = Extensible_copy clone (p_extensions pkt)\<rparr>;
          p = (if \<not> clear_flags then p\<lparr>p_flags := setf (p_flags p) (p_flags pkt AND PKT_COPY_FLAGS)\<rparr>
               else p);
          p = p\<lparr>p_flags := setf (p_flags p) (p_flags pkt AND (PKT_VALID_ADDR OR PKT_VALID_SIZE))\<rparr>
      in if alloc_data then
           if isSet (p_flags pkt) PKT_STATIC_DATA then
             Inr (h, p\<lparr>p_data := p_data pkt, p_flags := setf (p_flags p) PKT_STATIC_DATA\<rparr>)
           else Packet_allocate (snd junk) h p
         else Inr (h, p))"

definition Packet_makeReadCmd :: "Request \<Rightarrow> Command" where
  "Packet_makeReadCmd req =
     (if Request_isHTMCmd req then (if Request_isHTMAbort req then HTMAbort else HTMReq)
      else if Request_isLLSC req then LoadLockedReq
      else if Request_isPrefetchEx req then SoftPFExReq
      else if Request_isPrefetch req then SoftPFReq
      else if Request_isLockedRMW req then LockedRMWReadReq
      else ReadReq)"

definition Packet_makeWriteCmd :: "Request \<Rightarrow> Command" where
  "Packet_makeWriteCmd req =
     (if Request_isLLSC req then StoreCondReq
      else if Request_isSwap req \<or> Request_isAtomic req then SwapReq
      else if Request_isCacheInvalidate req then
        (if Request_isCacheClean req then CleanInvalidReq else InvalidateReq)
      else if Request_isCacheClean req then CleanSharedReq
      else if Request_isLockedRMW req then LockedRMWWriteReq
      else WriteReq)"

definition Packet_createRead :: "u32 \<times> u32 \<Rightarrow> u64 \<Rightarrow> Request \<Rightarrow> Packet result" where
  "Packet_createRead junk reqptr req =
     Packet_new junk reqptr req (Packet_makeReadCmd req)"

definition Packet_createWrite :: "u32 \<times> u32 \<Rightarrow> u64 \<Rightarrow> Request \<Rightarrow> Packet result" where
  "Packet_createWrite junk reqptr req =
     Packet_new junk reqptr req (Packet_makeWriteCmd req)"

definition Packet_makeResponse :: "Packet \<Rightarrow> Packet result" where
  "Packet_makeResponse p =
     check ''needsResponse()'' (Packet_needsResponse p)
     (check ''isRequest()'' (Packet_isRequest p)
       (Inr (p\<lparr>p_cmd := MemCmd_responseCommand (p_cmd p),
               p_flags := clear (p_flags p) PKT_EXPRESS_SNOOP\<rparr>)))"

definition Packet_makeAtomicResponse :: "Packet \<Rightarrow> Packet result" where
  "Packet_makeAtomicResponse p = Packet_makeResponse p"

definition Packet_makeTimingResponse :: "Packet \<Rightarrow> Packet result" where
  "Packet_makeTimingResponse p = Packet_makeResponse p"

definition Packet_setFunctionalResponseStatus :: "bool \<Rightarrow> Packet \<Rightarrow> Packet" where
  "Packet_setFunctionalResponseStatus success p =
     (if \<not> success then
        if Packet_isWrite p then p\<lparr>p_cmd := FunctionalWriteError\<rparr>
        else p\<lparr>p_cmd := FunctionalReadError\<rparr>
      else p)"

definition Packet_setSize :: "u32 \<Rightarrow> Packet \<Rightarrow> Packet result" where
  "Packet_setSize sz p =
     check ''!flags.isSet(VALID_SIZE)'' (\<not> isSet (p_flags p) PKT_VALID_SIZE)
       (Inr (p\<lparr>p_size := sz, p_flags := setf (p_flags p) PKT_VALID_SIZE\<rparr>))"

definition Packet_matchBlockAddr :: "Addr \<Rightarrow> bool \<Rightarrow> u32 \<Rightarrow> Packet \<Rightarrow> bool result" where
  "Packet_matchBlockAddr a is_secure blk_size p =
     bindR (Packet_getBlockAddr blk_size p) (\<lambda>b.
       if b = a then bindR (Packet_isSecure p) (\<lambda>s. Inr (s = is_secure)) else Inr False)"

definition Packet_matchBlockAddr_pkt :: "Packet \<Rightarrow> u32 \<Rightarrow> Packet \<Rightarrow> bool result" where
  "Packet_matchBlockAddr_pkt pkt blk_size p =
     bindR (Packet_getBlockAddr blk_size pkt) (\<lambda>a.
       bindR (Packet_isSecure pkt) (\<lambda>s. Packet_matchBlockAddr a s blk_size p))"

definition Packet_matchAddr :: "Addr \<Rightarrow> bool \<Rightarrow> Packet \<Rightarrow> bool result" where
  "Packet_matchAddr a is_secure p =
     bindR (Packet_getAddr p) (\<lambda>b.
       if b = a then bindR (Packet_isSecure p) (\<lambda>s. Inr (s = is_secure)) else Inr False)"

definition Packet_matchAddr_pkt :: "Packet \<Rightarrow> Packet \<Rightarrow> bool result" where
  "Packet_matchAddr_pkt pkt p =
     bindR (Packet_getAddr pkt) (\<lambda>a. bindR (Packet_isSecure pkt) (\<lambda>s. Packet_matchAddr a s p))"

definition Packet_dataStatic :: "ptr \<Rightarrow> Packet \<Rightarrow> Packet result" where
  "Packet_dataStatic q p =
     check ''flags.noneSet(STATIC_DATA | DYNAMIC_DATA)''
       (noneSet (p_flags p) (PKT_STATIC_DATA OR PKT_DYNAMIC_DATA))
       (Inr (p\<lparr>p_data := q, p_flags := setf (p_flags p) PKT_STATIC_DATA\<rparr>))"

definition Packet_dataStaticConst :: "ptr \<Rightarrow> Packet \<Rightarrow> Packet result" where
  "Packet_dataStaticConst q p =
     check ''flags.noneSet(STATIC_DATA | DYNAMIC_DATA)''
       (noneSet (p_flags p) (PKT_STATIC_DATA OR PKT_DYNAMIC_DATA))
       (Inr (p\<lparr>p_data := q, p_flags := setf (p_flags p) PKT_STATIC_DATA\<rparr>))"

definition Packet_dataDynamic :: "ptr \<Rightarrow> Packet \<Rightarrow> Packet result" where
  "Packet_dataDynamic q p =
     check ''flags.noneSet(STATIC_DATA | DYNAMIC_DATA)''
       (noneSet (p_flags p) (PKT_STATIC_DATA OR PKT_DYNAMIC_DATA))
       (Inr (p\<lparr>p_data := q, p_flags := setf (p_flags p) PKT_DYNAMIC_DATA\<rparr>))"

definition Packet_getConstPtr :: "Packet \<Rightarrow> ptr result" where
  "Packet_getConstPtr p =
     check ''flags.isSet(STATIC_DATA|DYNAMIC_DATA)'' (isSet (p_flags p) (PKT_STATIC_DATA OR PKT_DYNAMIC_DATA)) (Inr (p_data p))"

definition Packet_getPtr :: "Packet \<Rightarrow> ptr result" where
  "Packet_getPtr p =
     check ''flags.isSet(STATIC_DATA|DYNAMIC_DATA)''
       (isSet (p_flags p) (PKT_STATIC_DATA OR PKT_DYNAMIC_DATA))
       (check ''!isMaskedWrite()'' (\<not> Packet_isMaskedWrite p) (Inr (p_data p)))"

definition Packet_setData :: "heap \<Rightarrow> ptr \<Rightarrow> Packet \<Rightarrow> heap result" where
  "Packet_setData h q p =
     bindR (Packet_getPtr p) (\<lambda>own.
       check ''p != getPtr<uint8_t>() || flags.isSet(STATIC_DATA)''
         (q \<noteq> own \<or> isSet (p_flags p) PKT_STATIC_DATA)
         (if q \<noteq> own then bindR (Packet_getSize p) (\<lambda>sz. memcpy h own q (unat sz)) else Inr h))"

definition Packet_setDataFromBlock :: "heap \<Rightarrow> ptr \<Rightarrow> u32 \<Rightarrow> Packet \<Rightarrow> heap result" where
  "Packet_setDataFromBlock h blk_data blkSize p =
     bindR (Packet_getOffset blkSize p) (\<lambda>off. Packet_setData h (ptr_add blk_data (unat off)) p)"

fun writeData_loop :: "bool list \<Rightarrow> heap \<Rightarrow> ptr \<Rightarrow> ptr \<Rightarrow> nat \<Rightarrow> nat \<Rightarrow> heap result" where
  "writeData_loop be h base q i 0 = Inr h"
| "writeData_loop be h base q i (Suc n) =
     (if be ! i then
        bindR (load_bytes h (ptr_add base i) 1) (\<lambda>v.
        bindR (store_bytes h (ptr_add q i) v) (\<lambda>h.
          writeData_loop be h base q (Suc i) n))
      else writeData_loop be h base q (Suc i) n)"

definition Packet_writeData :: "heap \<Rightarrow> ptr \<Rightarrow> Packet \<Rightarrow> heap result" where
  "Packet_writeData h q p =
     (if \<not> Packet_isMaskedWrite p then
        bindR (Packet_getConstPtr p) (\<lambda>src.
        bindR (Packet_getSize p) (\<lambda>sz. memcpy h q src (unat sz)))
      else
        bindR (Packet_getSize p) (\<lambda>sz.
          check ''req->getByteEnable().size() == getSize()''
            (length (Request_getByteEnable (p_req p)) = unat sz)
            (bindR (Packet_getConstPtr p) (\<lambda>base.
               writeData_loop (Request_getByteEnable (p_req p)) h base q 0 (unat sz)))))"

definition Packet_writeDataToBlock :: "heap \<Rightarrow> ptr \<Rightarrow> u32 \<Rightarrow> Packet \<Rightarrow> heap result" where
  "Packet_writeDataToBlock h blk_data blkSize p =
     bindR (Packet_getOffset blkSize p) (\<lambda>off. Packet_writeData h (ptr_add blk_data (unat off)) p)"

text \<open>
  \<open>deleteData\<close> releases an array from \<open>new[]\<close> with \<open>delete\<close>. The standard leaves that undefined; as the platforms
  do for arrays of bytes, the model releases the array.
\<close>

definition Packet_deleteData :: "heap \<Rightarrow> Packet \<Rightarrow> (heap \<times> Packet) result" where
  "Packet_deleteData h p =
     bindR (if \<not> isSet (p_flags p) PKT_STATIC_DATA then delete_bytes (p_data p) h else Inr h) (\<lambda>h.
       Inr (h, p\<lparr>p_flags := clear (p_flags p) (PKT_STATIC_DATA OR PKT_DYNAMIC_DATA), p_data := Null\<rparr>))"

definition Packet_trySatisfyFunctional :: "Packet \<Rightarrow> Packet \<Rightarrow> bool" where
  "Packet_trySatisfyFunctional other p = True"

definition Packet_mustCheckAbove :: "Packet \<Rightarrow> bool" where
  "Packet_mustCheckAbove p \<longleftrightarrow> p_cmd p = HardPFReq \<or> Packet_isEviction p"

definition Packet_isCleanEviction :: "Packet \<Rightarrow> bool" where
  "Packet_isCleanEviction p \<longleftrightarrow> p_cmd p = CleanEvict \<or> p_cmd p = WritebackClean"

definition Packet_isCleanInvalidateRequest :: "Packet \<Rightarrow> bool" where
  "Packet_isCleanInvalidateRequest p \<longleftrightarrow> p_cmd p = CleanInvalidReq"

section \<open>Sender states\<close>

text \<open>
  The predecessor links of all sender states; \<open>None\<close> is a null link. The type test of
  \<open>findNextSenderState\<close> is the \<open>dynamic_cast\<close> to its template argument, a parameter; the search
  ends only if the chain of links does.
\<close>

type_synonym links = "nat \<Rightarrow> nat option"

definition Packet_pushSenderState :: "nat option \<Rightarrow> links \<Rightarrow> Packet \<Rightarrow> (links \<times> Packet) result" where
  "Packet_pushSenderState sender_state links p =
     (case sender_state of
        None \<Rightarrow> Inl (AssertFail ''sender_state != NULL'')
      | Some s \<Rightarrow> Inr (links(s := p_senderState p), p\<lparr>p_senderState := Some s\<rparr>))"

definition Packet_popSenderState :: "links \<Rightarrow> Packet \<Rightarrow> (nat \<times> links \<times> Packet) result" where
  "Packet_popSenderState links p =
     (case p_senderState p of
        None \<Rightarrow> Inl (AssertFail ''senderState != NULL'')
      | Some s \<Rightarrow> Inr (s, links(s := None), p\<lparr>p_senderState := links s\<rparr>))"

partial_function (option) findNextSenderState :: "(nat \<Rightarrow> bool) \<Rightarrow> links \<Rightarrow> nat option \<Rightarrow> nat option option" where
  "findNextSenderState is_T links sender_state =
     (case sender_state of
        None \<Rightarrow> Some None
      | Some s \<Rightarrow> if is_T s then Some (Some s) else findNextSenderState is_T links (links s))"

section \<open>Buffers: reading back what was written\<close>

lemma load_bytes_Inr:
  "load_bytes h (Ptr b i) n = Inr vs \<longleftrightarrow>
     b < length h \<and> (\<exists>bs. h ! b = Some bs \<and> i + n \<le> length bs \<and> vs = take n (drop i bs))"
  by (auto split: option.splits)

lemma store_bytes_Inr:
  "store_bytes h (Ptr b i) vs = Inr h' \<longleftrightarrow>
     b < length h \<and> (\<exists>bs. h ! b = Some bs \<and> i + length vs \<le> length bs \<and>
       h' = h[b := Some (take i bs @ vs @ drop (i + length vs) bs)])"
  by (auto split: option.splits)

declare load_bytes.simps(2) [simp del] store_bytes.simps(2) [simp del]

lemma load_store_same:
  assumes "store_bytes h q vs = Inr h'" and "n = length vs"
  shows "load_bytes h' q n = Inr vs"
proof (cases q)
  case (Ptr b i)
  with assms show ?thesis by (auto simp: store_bytes_Inr load_bytes_Inr)
qed (use assms in simp)

text \<open>The byte-by-byte loop of a masked write, as a buffer to buffer transfer.\<close>

lemma writeData_loop_result:
  assumes "b < length h" "c < length h" "b \<noteq> c" "h ! b = Some s" "h ! c = Some d"
    and "i + k + n \<le> length s" "j + k + n \<le> length d"
  shows "\<exists>d'. writeData_loop be h (Ptr b i) (Ptr c j) k n = Inr (h[c := Some d']) \<and>
    length d' = length d \<and>
    (\<forall>m < length d. d' ! m =
       (if j + k \<le> m \<and> m < j + k + n \<and> be ! (m - j) then s ! (i + (m - j)) else d ! m))"
  using assms
proof (induction n arbitrary: h d k)
  case 0
  then have "h[c := Some d] = h" by (metis list_update_id)
  then show ?case by (intro exI [of _ d]) auto
next
  case (Suc n)
  show ?case
  proof (cases "be ! k")
    case False
    have "\<exists>d'. writeData_loop be h (Ptr b i) (Ptr c j) (Suc k) n = Inr (h[c := Some d']) \<and>
      length d' = length d \<and> (\<forall>m < length d. d' ! m =
        (if j + Suc k \<le> m \<and> m < j + Suc k + n \<and> be ! (m - j) then s ! (i + (m - j)) else d ! m))"
      using Suc.prems by (intro Suc.IH) auto
    then obtain d' where d': "writeData_loop be h (Ptr b i) (Ptr c j) (Suc k) n = Inr (h[c := Some d'])"
      "length d' = length d" "\<forall>m < length d. d' ! m =
        (if j + Suc k \<le> m \<and> m < j + Suc k + n \<and> be ! (m - j) then s ! (i + (m - j)) else d ! m)"
      by blast
    have "j + k \<le> m \<and> m < j + k + Suc n \<and> be ! (m - j) \<longleftrightarrow>
      j + Suc k \<le> m \<and> m < j + Suc k + n \<and> be ! (m - j)" for m
      using False by (cases "m = j + k") auto
    with d' False show ?thesis by (intro exI [of _ d']) simp
  next
    case True
    define d1 where "d1 = d[j + k := s ! (i + k)]"
    have "take 1 (drop (i + k) s) = [s ! (i + k)]"
      using Suc.prems(6) by (simp add: take_Suc_conv_app_nth hd_drop_conv_nth take_Suc)
    then have ld: "load_bytes h (Ptr b (i + k)) 1 = Inr [s ! (i + k)]"
      using Suc.prems by (simp add: load_bytes_Inr)
    have "store_bytes h (Ptr c (j + k)) [s ! (i + k)] = Inr (h[c := Some d1])"
      using Suc.prems by (simp add: store_bytes_Inr d1_def upd_conv_take_nth_drop)
    then have step: "writeData_loop be h (Ptr b i) (Ptr c j) k (Suc n) =
      writeData_loop be (h[c := Some d1]) (Ptr b i) (Ptr c j) (Suc k) n"
      using ld True by simp
    have "\<exists>d'. writeData_loop be (h[c := Some d1]) (Ptr b i) (Ptr c j) (Suc k) n =
        Inr ((h[c := Some d1])[c := Some d']) \<and>
      length d' = length d1 \<and> (\<forall>m < length d1. d' ! m =
        (if j + Suc k \<le> m \<and> m < j + Suc k + n \<and> be ! (m - j) then s ! (i + (m - j)) else d1 ! m))"
      using Suc.prems by (intro Suc.IH) (auto simp: d1_def)
    then obtain d' where d': "writeData_loop be (h[c := Some d1]) (Ptr b i) (Ptr c j) (Suc k) n =
        Inr (h[c := Some d'])"
      "length d' = length d" "\<forall>m < length d. d' ! m =
        (if j + Suc k \<le> m \<and> m < j + Suc k + n \<and> be ! (m - j) then s ! (i + (m - j)) else d1 ! m)"
      by (auto simp: d1_def)
    have "d' ! m = (if j + k \<le> m \<and> m < j + k + Suc n \<and> be ! (m - j) then s ! (i + (m - j)) else d ! m)"
      if "m < length d" for m
      using d'(3) that True Suc.prems(7) by (cases "m = j + k") (auto simp: d1_def nth_list_update)
    with d' step show ?thesis by (intro exI [of _ d']) simp
  qed
qed

section \<open>Addresses\<close>

lemma Packet_block_offset:
  assumes "Packet_getAddr p = Inr a" and "blk = 2 ^ k" and "k < 32"
  shows "\<exists>b off. Packet_getBlockAddr blk p = Inr b \<and> Packet_getOffset blk p = Inr off \<and>
    unat b = unat a div 2 ^ k * 2 ^ k \<and> unat off = unat a mod 2 ^ k"
proof -
  have m: "(ucast (blk - 1) :: u64) = mask k"
    using assms(2,3) by (intro bit_word_eqI) (auto simp: bit_simps simp flip: mask_eq_exp_minus_1)
  have off: "unat (a AND mask k) = unat a mod 2 ^ k"
    by (simp only: unsigned_take_bit_eq flip: take_bit_eq_mask) (simp only: take_bit_eq_mod)
  have "unat (a AND NOT (mask k)) = unat a div 2 ^ k * 2 ^ k"
    using unat_and_not_low_mask [of k a] assms(3) by (simp add: mask_eq_exp_minus_1)
  with off show ?thesis
    using assms(1) m by (simp add: Packet_getBlockAddr_def Packet_getOffset_def)
qed

section \<open>Constructors and responses\<close>

lemma Packet_new_fields:
  assumes "Packet_new junk rp req cmd = Inr p"
  shows "p_cmd p = cmd" "p_req p = req" "p_data p = Null" "p_senderState p = None"
    "Request_hasPaddr req \<Longrightarrow> Packet_getAddr p = Request_getPaddr req"
    "Request_hasPaddr req \<Longrightarrow> Packet_isSecure p = Inr (Request_isSecure req)"
    "Request_hasSize req \<Longrightarrow> Packet_getSize p = Request_getSize req"
  using assms
  by (auto simp: Packet_new_def Let_def Packet_getAddr_def Packet_getSize_def Packet_isSecure_def
      Request_getPaddr_def Request_getSize_def clear_all_def split: if_splits)
     (simp_all add: flag_defs isSet_def)

lemma Packet_new_total:
  "\<not> Request_isHTMCmd req \<Longrightarrow> \<exists>p. Packet_new junk rp req cmd = Inr p"
  by (simp add: Packet_new_def Let_def Request_getPaddr_def Request_getSize_def)

lemma Packet_new_blk_total:
  "\<exists>p. Packet_new_blk junk rp req cmd blkSize pid = Inr p \<and> p_senderState p = None \<and>
     p_cmd p = cmd \<and> p_req p = req \<and> Packet_getSize p = Inr blkSize \<and>
     (Request_hasPaddr req \<longrightarrow> Packet_isSecure p = Inr (Request_isSecure req) \<and>
        Packet_getAddr p = Inr (r_paddr req AND scast (NOT (blkSize - 1))))"
  by (simp add: Packet_new_blk_def Let_def Request_getPaddr_def Packet_getAddr_def
      Packet_getSize_def Packet_isSecure_def clear_all_def)
     (simp add: flag_defs isSet_def)

lemma Request_new_plain: "\<not> Request_isHTMCmd (Request_new a sz 0 rid)"
  by (simp add: Request_isHTMCmd_def Request_isHTMStart_def Request_isHTMCommit_def
      Request_isHTMCancel_def Request_isHTMAbort_def Request_new_def Request_default_def setf_def)

lemma Packet_makeResponse_Inr:
  "Packet_needsResponse p \<Longrightarrow>
   Packet_makeResponse p = Inr (p\<lparr>p_cmd := MemCmd_responseCommand (p_cmd p),
     p_flags := clear (p_flags p) PKT_EXPRESS_SNOOP\<rparr>)"
  using MemCmd_response_table
  by (simp add: Packet_makeResponse_def Packet_needsResponse_def Packet_isRequest_def)

text \<open>The packet of a physical request, as the concrete examples use it.\<close>

definition sample_packet :: "Command \<Rightarrow> Request \<Rightarrow> Packet" where
  "sample_packet cmd req =
     \<lparr>p_flags = 0x300, p_cmd = cmd, p_id = 1, p_req = req, p_payloadDelay = 0, p_headerDelay = 0,
      p_data = Null, p_addr = r_paddr req, p_size = r_size req, p_isSecure = False,
      p_bytesValid = [], p_qosValue = 0, p_senderState = None, p_extensions = []\<rparr>"

lemma sample_packet_simps [simp]:
  "p_cmd (sample_packet cmd req) = cmd"
  "p_req (sample_packet cmd req) = req"
  "Packet_getAddr (sample_packet cmd req) = Inr (r_paddr req)"
  "Packet_getSize (sample_packet cmd req) = Inr (r_size req)"
  "Packet_isSecure (sample_packet cmd req) = Inr False"
  by (simp_all add: sample_packet_def Packet_getAddr_def Packet_getSize_def Packet_isSecure_def
      isSet_def flag_defs)

section \<open>Sender states\<close>

inductive sender_chain :: "links \<Rightarrow> nat option \<Rightarrow> nat list \<Rightarrow> bool" for links where
  chain_end: "sender_chain links None []"
| chain_link: "sender_chain links (links s) ss \<Longrightarrow> sender_chain links (Some s) (s # ss)"

inductive_cases sender_chainE: "sender_chain links s ss"
inductive_simps sender_chain_simps:
  "sender_chain links None ss" "sender_chain links (Some s) ss"

lemma sender_chain_update:
  "sender_chain links s ss \<Longrightarrow> t \<notin> set ss \<Longrightarrow> sender_chain (links(t := v)) s ss"
  by (induction rule: sender_chain.induct) (auto intro: sender_chain.intros)

lemma findNextSenderState_chain:
  "sender_chain links s ss \<Longrightarrow> findNextSenderState is_T links s = Some (find is_T ss)"
proof (induction rule: sender_chain.induct)
  case chain_end
  then show ?case by (subst findNextSenderState.simps) simp
next
  case (chain_link s ss)
  then show ?case by (subst findNextSenderState.simps) simp
qed

section \<open>Properties\<close>

text \<open>
  C26: a packet that needs a response can always be turned into it: no assertion fails, the
  result is a non-error response that needs no further response, and address, size, data, request
  and sender states are those of the request packet; a second \<open>makeResponse\<close> aborts.
\<close>

theorem makeResponse_total:
  assumes "Packet_needsResponse p"
  shows "\<exists>r. Packet_makeResponse p = Inr r \<and> Packet_isResponse r \<and> \<not> Packet_isRequest r \<and>
    \<not> Packet_isError r \<and> Packet_getAddr r = Packet_getAddr p \<and> Packet_getSize r = Packet_getSize p \<and>
    p_data r = p_data p \<and> p_req r = p_req p \<and> p_senderState r = p_senderState p \<and>
    Packet_makeResponse r = Inl (AssertFail ''needsResponse()'')"
proof -
  have d: "PKT_VALID_ADDR AND PKT_EXPRESS_SNOOP = 0" "PKT_VALID_SIZE AND PKT_EXPRESS_SNOOP = 0"
    by (simp_all add: flag_defs)
  show ?thesis
    using assms MemCmd_response_table [of "p_cmd p"]
      MemCmd_request_not_response [of "MemCmd_responseCommand (p_cmd p)"]
    by (simp add: Packet_makeResponse_Inr)
       (simp add: Packet_needsResponse_def Packet_isResponse_def Packet_isRequest_def
         Packet_isError_def Packet_getAddr_def Packet_getSize_def Packet_makeResponse_def
         isSet_clear_disjoint [OF d(1)] isSet_clear_disjoint [OF d(2)])
qed

theorem makeResponse_total_witness:
  "\<exists>p r. Packet_createRead (0, 0) 5 (Request_new 0x1000 8 0 1) = Inr p \<and>
    Packet_makeResponse p = Inr r \<and> Packet_isResponse r \<and> Packet_getAddr r = Inr 0x1000"
proof -
  let ?q = "Request_new 0x1000 8 0 1"
  have a: "Request_getPaddr ?q = Inr 0x1000" "Request_hasPaddr ?q"
    using Request_new_accessors(1) [of "0x1000" 8 0 1] by (simp_all add: Request_getPaddr_def)
  have c: "Packet_makeReadCmd ?q = ReadReq"
    using Request_new_plain [of "0x1000" 8 1]
    by (simp add: Packet_makeReadCmd_def Request_isLLSC_def Request_isPrefetchEx_def
        Request_isPrefetch_def Request_isLockedRMW_def Request_new_def Request_default_def setf_def)
  obtain p where p: "Packet_createRead (0, 0) 5 ?q = Inr p"
    using Packet_new_total [OF Request_new_plain] unfolding Packet_createRead_def by blast
  note f = Packet_new_fields [OF p [unfolded Packet_createRead_def]]
  have "Packet_needsResponse p" using f(1) c by (simp add: Packet_needsResponse_def)
  with p f(5) a show ?thesis using makeResponse_total [of p] by auto
qed

text \<open>
  For a block size that is a power of two, the block address and the block offset of a packet
  decompose its address: the block address is the multiple of the block size at or below it and
  the offset the remainder.
\<close>

theorem block_address_decomposition:
  assumes "Packet_getAddr p = Inr a" and "blk = 2 ^ k" and "k < 32"
  shows "\<exists>b off. Packet_getBlockAddr blk p = Inr b \<and> Packet_getOffset blk p = Inr off \<and>
    unat a = unat b + unat off \<and> 2 ^ k dvd unat b \<and> unat off < 2 ^ k \<and>
    Packet_matchBlockAddr b (p_isSecure p) blk p = Inr True"
proof -
  obtain b off where b: "Packet_getBlockAddr blk p = Inr b" "Packet_getOffset blk p = Inr off"
    "unat b = unat a div 2 ^ k * 2 ^ k" "unat off = unat a mod 2 ^ k"
    using Packet_block_offset [OF assms] by blast
  moreover have "Packet_isSecure p = Inr (p_isSecure p)"
    using assms(1) by (simp add: Packet_getAddr_def Packet_isSecure_def)
  ultimately have "Packet_matchBlockAddr b (p_isSecure p) blk p = Inr True"
    by (simp add: Packet_matchBlockAddr_def)
  moreover have "unat a = unat b + unat off" using b(3,4) by (simp only: div_mult_mod_eq)
  moreover have "2 ^ k dvd unat b" "unat off < 2 ^ k" using b(3,4) by simp_all
  ultimately show ?thesis using b(1,2) by blast
qed

theorem block_address_decomposition_witness:
  "\<exists>p b off. Packet_new_blk (0, 0) 5 (Request_new 0x12345 8 0 1) ReadReq 1 0 = Inr p \<and>
    Packet_getBlockAddr 64 p = Inr b \<and> Packet_getOffset 64 p = Inr off \<and>
    0x12345 = unat b + unat off \<and> 2 ^ 6 dvd unat b \<and> unat off < 2 ^ 6"
proof -
  let ?q = "Request_new 0x12345 8 0 1"
  have a: "Request_getPaddr ?q = Inr 0x12345" "Request_hasPaddr ?q"
    using Request_new_accessors(1) [of "0x12345" 8 0 1] by (simp_all add: Request_getPaddr_def)
  have s: "(scast (NOT (1 - 1 :: u32)) :: u64) = - 1" by simp
  obtain p where p: "Packet_new_blk (0, 0) 5 ?q ReadReq 1 0 = Inr p"
    "Packet_getAddr p = Inr 0x12345"
    using Packet_new_blk_total [of "(0, 0)" 5 ?q ReadReq 1 0] a s
    by (auto simp: Request_getPaddr_def)
  then show ?thesis using block_address_decomposition [of p "0x12345" 64 6] by auto
qed

text \<open>
  C27: \<open>writeData\<close> of a masked write whose byte enables cover the packet copies exactly the
  enabled bytes into the destination and leaves every other byte of it, and every other buffer,
  as it was.
\<close>

theorem writeData_masked:
  assumes "Packet_isMaskedWrite p" and "Packet_getSize p = Inr sz"
    and "Packet_getConstPtr p = Inr (Ptr b i)" and "length (r_byteEnable (p_req p)) = unat sz"
    and "b < length h" "c < length h" "b \<noteq> c" "h ! b = Some s" "h ! c = Some d"
    and "i + unat sz \<le> length s" "j + unat sz \<le> length d"
  shows "\<exists>d'. Packet_writeData h (Ptr c j) p = Inr (h[c := Some d']) \<and> length d' = length d \<and>
    (\<forall>m < length d. d' ! m =
      (if j \<le> m \<and> m < j + unat sz \<and> r_byteEnable (p_req p) ! (m - j) then s ! (i + (m - j)) else d ! m))"
  using writeData_loop_result [of b h c s d i 0 "unat sz" j "r_byteEnable (p_req p)"] assms
  by (simp add: Packet_writeData_def Request_getByteEnable_def)

theorem writeData_masked_witness:
  "\<exists>d'. Packet_writeData [Some [1, 2, 3, 4], Some [9, 9, 9, 9, 9, 9]] (Ptr 1 1)
     \<lparr>p_flags = 0x2300, p_cmd = WriteReq, p_id = 1,
      p_req = (Request_new 0x100 4 0 1)\<lparr>r_byteEnable := [True, False, False, True]\<rparr>,
      p_payloadDelay = 0, p_headerDelay = 0, p_data = Ptr 0 0, p_addr = 0x100, p_size = 4,
      p_isSecure = False, p_bytesValid = [], p_qosValue = 0, p_senderState = None,
      p_extensions = []\<rparr> = Inr [Some [1, 2, 3, 4], Some d'] \<and> d' ! 1 = 1 \<and> d' ! 2 = 9 \<and> d' ! 4 = 4"
proof -
  let ?p = "\<lparr>p_flags = 0x2300, p_cmd = WriteReq, p_id = 1,
      p_req = (Request_new 0x100 4 0 1)\<lparr>r_byteEnable := [True, False, False, True]\<rparr>,
      p_payloadDelay = 0, p_headerDelay = 0, p_data = Ptr 0 0, p_addr = 0x100, p_size = 4,
      p_isSecure = False, p_bytesValid = [], p_qosValue = 0, p_senderState = None,
      p_extensions = []\<rparr>"
  have "Packet_isMaskedWrite ?p" "Packet_getSize ?p = Inr 4" "Packet_getConstPtr ?p = Inr (Ptr 0 0)"
    by (simp_all add: Packet_isMaskedWrite_def Request_isMasked_def Packet_getSize_def
        Packet_getConstPtr_def isSet_def flag_defs)
  then obtain d' where d': "Packet_writeData [Some [1, 2, 3, 4], Some [9, 9, 9, 9, 9, 9]] (Ptr 1 1) ?p =
      Inr ([Some [1, 2, 3, 4], Some [9, 9, 9, 9, 9, 9]][1 := Some d'])"
    "\<forall>m < 6. d' ! m = (if 1 \<le> m \<and> m < 1 + 4 \<and> [True, False, False, True] ! (m - 1)
       then [1, 2, 3, 4] ! (0 + (m - 1)) else [9, 9, 9, 9, 9, 9] ! m)"
    using writeData_masked [of ?p 4 0 0 "[Some [1, 2, 3, 4], Some [9, 9, 9, 9, 9, 9]]" 1
        "[1, 2, 3, 4]" "[9, 9, 9, 9, 9, 9]" 1] by auto
  have "d' ! 1 = 1" "d' ! 2 = 9" "d' ! 4 = 4"
    using d'(2) [rule_format, of 1] d'(2) [rule_format, of 2] d'(2) [rule_format, of 4] by simp_all
  with d'(1) show ?thesis by (intro exI [of _ d']) simp
qed

text \<open>
  The sender states of a packet are a stack: pushing a state that is not on the stack and
  popping returns that state and restores the packet and every link of the stack, and the search
  for a state of a given type returns, with the first state of that type from the top.
\<close>

theorem sender_state_stack:
  assumes "sender_chain links (p_senderState p) ss" and "s \<notin> set ss"
  shows "\<exists>links' p'. Packet_pushSenderState (Some s) links p = Inr (links', p') \<and>
    sender_chain links' (p_senderState p') (s # ss) \<and>
    Packet_popSenderState links' p' = Inr (s, links(s := None), p) \<and>
    sender_chain (links(s := None)) (p_senderState p) ss \<and>
    findNextSenderState is_T links' (p_senderState p') = Some (find is_T (s # ss))"
proof -
  let ?l = "links(s := p_senderState p)"
  have c: "sender_chain ?l (Some s) (s # ss)"
    using sender_chain_update [OF assms] by (simp add: chain_link)
  then show ?thesis
    using findNextSenderState_chain [OF c] sender_chain_update [OF assms, of None]
    by (simp add: Packet_pushSenderState_def Packet_popSenderState_def)
qed

theorem sender_state_stack_witness:
  "\<exists>p links' p'. Packet_new_blk (0, 0) 5 (Request_new 0x40 8 0 1) ReadReq 64 0 = Inr p \<and>
    Packet_pushSenderState (Some 3) (\<lambda>_. None) p = Inr (links', p') \<and>
    Packet_popSenderState links' p' = Inr (3, (\<lambda>_. None)(3 := None), p)"
proof -
  obtain p where p: "Packet_new_blk (0, 0) 5 (Request_new 0x40 8 0 1) ReadReq 64 0 = Inr p"
    "p_senderState p = None"
    using Packet_new_blk_total [of "(0, 0)" 5 "Request_new 0x40 8 0 1" ReadReq 64 0] by blast
  then have "sender_chain (\<lambda>_. None) (p_senderState p) []" by (simp add: chain_end)
  from sender_state_stack [OF this, of 3 "\<lambda>_. True"] p(1) show ?thesis by auto
qed

end
