(* ===== verification/Cache_Blk.thy ===== *)
theory Cache_Blk
  imports Cache_Packet
begin

text \<open>
  Cache blocks: \<open>replaceable/include/replaceable_entry.h\<close>,
  \<open>prefetch/include/prefetch_tagged_entry.h\<close>, \<open>cache/include/cache_blk.h\<close> and
  \<open>cache/cache_blk.cpp\<close>. The class hierarchy is a chain of record extensions; the replacement
  data of an entry is null or the \<open>valid\<close> bit of \<open>RandomReplData\<close>, the data of the only policy
  of the repository. The value of \<open>curTick()\<close> is the argument \<open>now\<close>; \<open>base/include/cur_tick.h\<close>
  reads it from a variable that nothing assigns, so it is the zero of \<open>curTick\<close>. The locks of a
  block are the load-linked ranges that the store-conditional test consults.
\<close>

definition curTick :: Tick where
  "curTick = 0"

section \<open>Replaceable and tagged entries\<close>

record ReplaceableEntry =
  e_set :: u32
  e_way :: u32
  e_replacementData :: "bool option"

definition setPosition :: "u32 \<Rightarrow> u32 \<Rightarrow> 'a ReplaceableEntry_scheme \<Rightarrow> 'a ReplaceableEntry_scheme" where
  "setPosition st way e = e\<lparr>e_set := st, e_way := way\<rparr>"

definition getSet :: "'a ReplaceableEntry_scheme \<Rightarrow> u32" where
  "getSet e = e_set e"

definition getWay :: "'a ReplaceableEntry_scheme \<Rightarrow> u32" where
  "getWay e = e_way e"

record TaggedEntry = ReplaceableEntry +
  t_valid :: bool
  t_secure :: bool
  t_tag :: Addr

definition TaggedEntry_new :: "u32 \<times> u32 \<Rightarrow> TaggedEntry" where
  "TaggedEntry_new junk =
     \<lparr>e_set = fst junk, e_way = snd junk, e_replacementData = None,
      t_valid = False, t_secure = False, t_tag = MaxAddr\<rparr>"

definition TaggedEntry_isValid :: "'a TaggedEntry_scheme \<Rightarrow> bool" where
  "TaggedEntry_isValid e \<longleftrightarrow> t_valid e"

definition TaggedEntry_isSecure :: "'a TaggedEntry_scheme \<Rightarrow> bool" where
  "TaggedEntry_isSecure e \<longleftrightarrow> t_secure e"

definition TaggedEntry_getTag :: "'a TaggedEntry_scheme \<Rightarrow> Addr" where
  "TaggedEntry_getTag e = t_tag e"

definition TaggedEntry_matchTag :: "Addr \<Rightarrow> bool \<Rightarrow> 'a TaggedEntry_scheme \<Rightarrow> bool" where
  "TaggedEntry_matchTag tag is_secure e \<longleftrightarrow>
     TaggedEntry_isValid e \<and> TaggedEntry_getTag e = tag \<and> TaggedEntry_isSecure e = is_secure"

definition TaggedEntry_setTag :: "Addr \<Rightarrow> 'a TaggedEntry_scheme \<Rightarrow> 'a TaggedEntry_scheme" where
  "TaggedEntry_setTag tag e = e\<lparr>t_tag := tag\<rparr>"

definition TaggedEntry_setSecure :: "'a TaggedEntry_scheme \<Rightarrow> 'a TaggedEntry_scheme" where
  "TaggedEntry_setSecure e = e\<lparr>t_secure := True\<rparr>"

definition TaggedEntry_clearSecure :: "'a TaggedEntry_scheme \<Rightarrow> 'a TaggedEntry_scheme" where
  "TaggedEntry_clearSecure e = e\<lparr>t_secure := False\<rparr>"

definition TaggedEntry_setValid :: "'a TaggedEntry_scheme \<Rightarrow> 'a TaggedEntry_scheme result" where
  "TaggedEntry_setValid e =
     check ''!isValid()'' (\<not> TaggedEntry_isValid e) (Inr (e\<lparr>t_valid := True\<rparr>))"

definition TaggedEntry_insert ::
    "Addr \<Rightarrow> bool \<Rightarrow> 'a TaggedEntry_scheme \<Rightarrow> 'a TaggedEntry_scheme result" where
  "TaggedEntry_insert tag is_secure e =
     bindR (TaggedEntry_setValid e) (\<lambda>e.
       let e = TaggedEntry_setTag tag e
       in Inr (if is_secure then TaggedEntry_setSecure e else e))"

definition TaggedEntry_invalidate :: "'a TaggedEntry_scheme \<Rightarrow> 'a TaggedEntry_scheme" where
  "TaggedEntry_invalidate e =
     TaggedEntry_clearSecure (TaggedEntry_setTag MaxAddr (e\<lparr>t_valid := False\<rparr>))"

section \<open>Locks\<close>

record Lock =
  l_contextId :: ContextID
  l_lowAddr :: Addr
  l_highAddr :: Addr

definition Lock_range :: "Request \<Rightarrow> (Addr \<times> Addr) result" where
  "Lock_range req =
     bindR (Request_getPaddr req) (\<lambda>req_low.
     bindR (Request_getSize req) (\<lambda>sz. Inr (req_low, req_low + ucast sz - 1)))"

definition Lock_matches :: "Lock \<Rightarrow> Request \<Rightarrow> bool result" where
  "Lock_matches l req =
     bindR (Lock_range req) (\<lambda>(req_low, req_high).
     bindR (Request_contextId req) (\<lambda>cid.
       Inr (l_contextId l = cid \<and> req_low \<ge> l_lowAddr l \<and> req_high \<le> l_highAddr l)))"

definition Lock_intersects :: "Lock \<Rightarrow> Request \<Rightarrow> bool result" where
  "Lock_intersects l req =
     bindR (Lock_range req) (\<lambda>(req_low, req_high).
       Inr (req_low \<le> l_highAddr l \<and> req_high \<ge> l_lowAddr l))"

definition Lock_new :: "Request \<Rightarrow> Lock result" where
  "Lock_new req =
     bindR (Request_contextId req) (\<lambda>cid.
     bindR (Lock_range req) (\<lambda>(low, high).
       Inr \<lparr>l_contextId = cid, l_lowAddr = low, l_highAddr = high\<rparr>))"

section \<open>Cache blocks\<close>

definition WritableBit :: u32 where [flag_defs]: "WritableBit = 0x02"

definition ReadableBit :: u32 where [flag_defs]: "ReadableBit = 0x04"

definition DirtyBit :: u32 where [flag_defs]: "DirtyBit = 0x08"

definition AllBits :: u32 where [flag_defs]: "AllBits = 0x0E"

record CacheBlk = TaggedEntry +
  b_data :: ptr
  b_whenReady :: Tick
  b_lockList :: "Lock list"
  b_coherence :: u32
  b_taskId :: u32
  b_srcRequestorId :: u32
  b_refCount :: u32
  b_tickInserted :: Tick
  b_prefetched :: bool

definition CacheBlk_setCoherenceBits :: "u32 \<Rightarrow> 'a CacheBlk_scheme \<Rightarrow> 'a CacheBlk_scheme result" where
  "CacheBlk_setCoherenceBits bts b =
     check ''isValid()'' (TaggedEntry_isValid b) (Inr (b\<lparr>b_coherence := b_coherence b OR bts\<rparr>))"

definition CacheBlk_clearCoherenceBits :: "u32 \<Rightarrow> 'a CacheBlk_scheme \<Rightarrow> 'a CacheBlk_scheme" where
  "CacheBlk_clearCoherenceBits bts b = b\<lparr>b_coherence := b_coherence b AND NOT bts\<rparr>"

definition CacheBlk_isSet :: "u32 \<Rightarrow> 'a CacheBlk_scheme \<Rightarrow> bool" where
  "CacheBlk_isSet bts b \<longleftrightarrow> TaggedEntry_isValid b \<and> b_coherence b AND bts \<noteq> 0"

definition CacheBlk_wasPrefetched :: "'a CacheBlk_scheme \<Rightarrow> bool" where
  "CacheBlk_wasPrefetched b \<longleftrightarrow> b_prefetched b"

definition CacheBlk_clearPrefetched :: "'a CacheBlk_scheme \<Rightarrow> 'a CacheBlk_scheme" where
  "CacheBlk_clearPrefetched b = b\<lparr>b_prefetched := False\<rparr>"

definition CacheBlk_setPrefetched :: "'a CacheBlk_scheme \<Rightarrow> 'a CacheBlk_scheme" where
  "CacheBlk_setPrefetched b = b\<lparr>b_prefetched := True\<rparr>"

definition CacheBlk_getWhenReady :: "'a CacheBlk_scheme \<Rightarrow> Tick result" where
  "CacheBlk_getWhenReady b =
     check ''whenReady != MaxTick'' (b_whenReady b \<noteq> MaxTick) (Inr (b_whenReady b))"

definition CacheBlk_setWhenReady :: "Tick \<Rightarrow> 'a CacheBlk_scheme \<Rightarrow> 'a CacheBlk_scheme result" where
  "CacheBlk_setWhenReady tick b =
     check ''tick >= _tickInserted'' (tick \<ge> b_tickInserted b) (Inr (b\<lparr>b_whenReady := tick\<rparr>))"

definition CacheBlk_getTaskId :: "'a CacheBlk_scheme \<Rightarrow> u32" where
  "CacheBlk_getTaskId b = b_taskId b"

definition CacheBlk_getSrcRequestorId :: "'a CacheBlk_scheme \<Rightarrow> u32" where
  "CacheBlk_getSrcRequestorId b = b_srcRequestorId b"

definition CacheBlk_getRefCount :: "'a CacheBlk_scheme \<Rightarrow> u32" where
  "CacheBlk_getRefCount b = b_refCount b"

definition CacheBlk_increaseRefCount :: "'a CacheBlk_scheme \<Rightarrow> 'a CacheBlk_scheme" where
  "CacheBlk_increaseRefCount b = b\<lparr>b_refCount := b_refCount b + 1\<rparr>"

definition CacheBlk_getAge :: "Tick \<Rightarrow> 'a CacheBlk_scheme \<Rightarrow> Tick result" where
  "CacheBlk_getAge now b =
     check ''_tickInserted <= curTick()'' (b_tickInserted b \<le> now) (Inr (now - b_tickInserted b))"

definition CacheBlk_setTaskId :: "u32 \<Rightarrow> 'a CacheBlk_scheme \<Rightarrow> 'a CacheBlk_scheme" where
  "CacheBlk_setTaskId task_id b = b\<lparr>b_taskId := task_id\<rparr>"

definition CacheBlk_setSrcRequestorId :: "u32 \<Rightarrow> 'a CacheBlk_scheme \<Rightarrow> 'a CacheBlk_scheme" where
  "CacheBlk_setSrcRequestorId i b = b\<lparr>b_srcRequestorId := i\<rparr>"

definition CacheBlk_setRefCount :: "u32 \<Rightarrow> 'a CacheBlk_scheme \<Rightarrow> 'a CacheBlk_scheme" where
  "CacheBlk_setRefCount count b = b\<lparr>b_refCount := count\<rparr>"

definition CacheBlk_setTickInserted :: "Tick \<Rightarrow> 'a CacheBlk_scheme \<Rightarrow> 'a CacheBlk_scheme" where
  "CacheBlk_setTickInserted now b = b\<lparr>b_tickInserted := now\<rparr>"

definition CacheBlk_invalidate :: "'a CacheBlk_scheme \<Rightarrow> 'a CacheBlk_scheme result" where
  "CacheBlk_invalidate b =
     (let b = TaggedEntry_invalidate b;
          b = CacheBlk_clearPrefetched b;
          b = CacheBlk_clearCoherenceBits AllBits b;
          b = CacheBlk_setTaskId Unknown_task b
      in bindR (CacheBlk_setWhenReady MaxTick b) (\<lambda>b.
           let b = CacheBlk_setRefCount 0 b;
               b = CacheBlk_setSrcRequestorId (ucast invldRequestorId) b
           in Inr (b\<lparr>b_lockList := []\<rparr>)))"

definition CacheBlk_new :: "(u32 \<times> u32) \<times> u32 \<Rightarrow> CacheBlk result" where
  "CacheBlk_new junk =
     CacheBlk_invalidate
       (TaggedEntry.extend (TaggedEntry_new (fst junk))
          (CacheBlk.fields Null 0 [] (snd junk) 0 0 0 0 False))"

definition CacheBlk_insert ::
    "Tick \<Rightarrow> Addr \<Rightarrow> bool \<Rightarrow> u32 \<Rightarrow> u32 \<Rightarrow> 'a CacheBlk_scheme \<Rightarrow> 'a CacheBlk_scheme result" where
  "CacheBlk_insert now tag is_secure src_requestor_ID task_ID b =
     check ''!isValid()'' (\<not> TaggedEntry_isValid b)
       (bindR (TaggedEntry_insert tag is_secure b) (\<lambda>b.
          let b = CacheBlk_setSrcRequestorId src_requestor_ID b;
              b = CacheBlk_setTaskId task_ID b;
              b = CacheBlk_setTickInserted now b
          in Inr (CacheBlk_increaseRefCount b)))"

definition CacheBlk_move_assign :: "Tick \<Rightarrow> CacheBlk \<Rightarrow> CacheBlk \<Rightarrow> (CacheBlk \<times> CacheBlk) result" where
  "CacheBlk_move_assign now other b =
     check ''!isValid()'' (\<not> TaggedEntry_isValid b)
     (check ''other.isValid()'' (TaggedEntry_isValid other)
       (bindR (TaggedEntry_insert (TaggedEntry_getTag other) (TaggedEntry_isSecure other) b) (\<lambda>b.
        let b = (if CacheBlk_wasPrefetched other then CacheBlk_setPrefetched b else b)
        in bindR (CacheBlk_setCoherenceBits (b_coherence other) b) (\<lambda>b.
           let b = CacheBlk_setTaskId (CacheBlk_getTaskId other) b
           in bindR (CacheBlk_setWhenReady now b) (\<lambda>b.
              let b = CacheBlk_setRefCount (CacheBlk_getRefCount other) b;
                  b = CacheBlk_setSrcRequestorId (CacheBlk_getSrcRequestorId other) b;
                  other' = other\<lparr>b_lockList := b_lockList b\<rparr>;
                  b = b\<lparr>b_lockList := b_lockList other\<rparr>
              in bindR (CacheBlk_invalidate other') (\<lambda>other. Inr (b, other)))))))"

definition CacheBlk_trackLoadLocked :: "Packet \<Rightarrow> 'a CacheBlk_scheme \<Rightarrow> 'a CacheBlk_scheme result" where
  "CacheBlk_trackLoadLocked pkt b =
     check ''pkt->isLLSC()'' (Packet_isLLSC pkt)
       (bindR (erase_ifR (\<lambda>l. Lock_intersects l (p_req pkt)) (b_lockList b)) (\<lambda>ls.
        bindR (Lock_new (p_req pkt)) (\<lambda>l. Inr (b\<lparr>b_lockList := l # ls\<rparr>))))"

definition CacheBlk_clearLoadLocks :: "Request \<Rightarrow> 'a CacheBlk_scheme \<Rightarrow> 'a CacheBlk_scheme result" where
  "CacheBlk_clearLoadLocks req b =
     bindR (erase_ifR (\<lambda>l. bindR (Lock_intersects l req) (\<lambda>i.
                if i then bindR (Request_contextId req) (\<lambda>c. Inr (l_contextId l \<noteq> c))
                else Inr False)) (b_lockList b))
       (\<lambda>ls. Inr (b\<lparr>b_lockList := ls\<rparr>))"

fun checkWrite_loop :: "Request \<Rightarrow> Lock list \<Rightarrow> (bool \<times> Lock list) result" where
  "checkWrite_loop req [] = Inr (False, [])"
| "checkWrite_loop req (l # ls) =
     bindR (Lock_matches l req) (\<lambda>m.
       if m then Inr (True, ls)
       else bindR (checkWrite_loop req ls) (\<lambda>(success, ls). Inr (success, l # ls)))"

definition CacheBlk_checkWrite ::
    "Packet \<Rightarrow> 'a CacheBlk_scheme \<Rightarrow> (bool \<times> Packet \<times> 'a CacheBlk_scheme) result" where
  "CacheBlk_checkWrite pkt b =
     check ''pkt->isWrite()'' (Packet_isWrite pkt)
       (if \<not> Packet_isLLSC pkt \<and> b_lockList b = [] then Inr (True, pkt, b)
        else if Packet_isLLSC pkt then
          bindR (checkWrite_loop (p_req pkt) (b_lockList b)) (\<lambda>(success, ls).
            let b = b\<lparr>b_lockList := ls\<rparr>;
                req = Request_setExtraData (if success then 1 else 0) (p_req pkt)
            in bindR (CacheBlk_clearLoadLocks req b) (\<lambda>b. Inr (success, pkt\<lparr>p_req := req\<rparr>, b)))
        else bindR (CacheBlk_clearLoadLocks (p_req pkt) b) (\<lambda>b. Inr (True, pkt, b)))"

text \<open>The letter \<open>CacheBlk::print\<close> derives from the state bits.\<close>

definition CacheBlk_state_letter :: "'a CacheBlk_scheme \<Rightarrow> char" where
  "CacheBlk_state_letter b =
     (let w = CacheBlk_isSet WritableBit b; d = CacheBlk_isSet DirtyBit b; v = TaggedEntry_isValid b
      in if w \<and> d \<and> v then CHR ''M''
         else if \<not> w \<and> d \<and> v then CHR ''O''
         else if w \<and> \<not> d \<and> v then CHR ''E''
         else if \<not> w \<and> \<not> d \<and> v then CHR ''S''
         else if \<not> w \<and> \<not> d \<and> \<not> v then CHR ''I''
         else CHR ''T'')"

section \<open>The temporary block\<close>

record TempCacheBlk = CacheBlk +
  tb_addr :: Addr

definition TempCacheBlk_new :: "(u32 \<times> u32) \<times> u32 \<Rightarrow> Addr \<Rightarrow> ptr \<Rightarrow> TempCacheBlk result" where
  "TempCacheBlk_new junk junk_addr dat =
     bindR (CacheBlk_new junk) (\<lambda>b.
       Inr ((CacheBlk.extend b \<lparr>tb_addr = junk_addr\<rparr>)\<lparr>b_data := dat\<rparr>))"

definition TempCacheBlk_invalidate :: "TempCacheBlk \<Rightarrow> TempCacheBlk result" where
  "TempCacheBlk_invalidate b =
     bindR (CacheBlk_invalidate b) (\<lambda>b. Inr (b\<lparr>tb_addr := MaxAddr\<rparr>))"

definition TempCacheBlk_insert :: "Addr \<Rightarrow> bool \<Rightarrow> TempCacheBlk \<Rightarrow> TempCacheBlk result" where
  "TempCacheBlk_insert a is_secure b =
     bindR (TaggedEntry_insert a is_secure b) (\<lambda>b. Inr (b\<lparr>tb_addr := a\<rparr>))"

definition TempCacheBlk_getAddr :: "TempCacheBlk \<Rightarrow> Addr" where
  "TempCacheBlk_getAddr b = tb_addr b"

section \<open>Tags of entries\<close>

lemmas TaggedEntry_defs =
  TaggedEntry_isValid_def TaggedEntry_isSecure_def TaggedEntry_getTag_def TaggedEntry_matchTag_def
  TaggedEntry_setTag_def TaggedEntry_setSecure_def TaggedEntry_clearSecure_def
  TaggedEntry_setValid_def TaggedEntry_insert_def TaggedEntry_invalidate_def

text \<open>An entry that is not valid is not secure either: only then does \<open>insert\<close> set the bit right.\<close>

definition TaggedEntry_wf :: "'a TaggedEntry_scheme \<Rightarrow> bool" where
  "TaggedEntry_wf e \<longleftrightarrow> (t_valid e \<or> \<not> t_secure e)"

lemma TaggedEntry_wf_ops:
  "TaggedEntry_wf (TaggedEntry_new junk)"
  "TaggedEntry_wf (TaggedEntry_invalidate e)"
  "TaggedEntry_insert tag s e = Inr e' \<Longrightarrow> TaggedEntry_wf e'"
  by (auto simp: TaggedEntry_wf_def TaggedEntry_new_def TaggedEntry_defs Let_def split: if_splits)

lemma TaggedEntry_insert_Inr:
  "\<not> t_valid e \<Longrightarrow> TaggedEntry_wf e \<Longrightarrow>
   TaggedEntry_insert tag s e = Inr (e\<lparr>t_valid := True, t_tag := tag, t_secure := s\<rparr>)"
  by (auto simp: TaggedEntry_wf_def TaggedEntry_defs Let_def)

lemma TaggedEntry_insert_valid:
  "t_valid e \<Longrightarrow> TaggedEntry_insert tag s e = Inl (AssertFail ''!isValid()'')"
  by (simp add: TaggedEntry_defs)

lemmas CacheBlk_setters =
  CacheBlk_setSrcRequestorId_def CacheBlk_setTaskId_def CacheBlk_setTickInserted_def
  CacheBlk_increaseRefCount_def CacheBlk_setRefCount_def CacheBlk_setWhenReady_def
  CacheBlk_clearPrefetched_def CacheBlk_setPrefetched_def CacheBlk_clearCoherenceBits_def
  CacheBlk_setCoherenceBits_def

lemma CacheBlk_invalidate_Inr:
  "CacheBlk_invalidate b =
     Inr (b\<lparr>t_valid := False, t_tag := MaxAddr, t_secure := False, b_prefetched := False,
            b_coherence := b_coherence b AND NOT AllBits, b_taskId := Unknown_task,
            b_whenReady := MaxTick, b_refCount := 0,
            b_srcRequestorId := ucast invldRequestorId, b_lockList := []\<rparr>)"
proof -
  have "MaxTick = - 1" by (simp add: MaxTick_def)
  then have "b_tickInserted b \<le> MaxTick" by (metis word_order.extremum)
  then show ?thesis
    by (simp add: CacheBlk_invalidate_def Let_def CacheBlk_setters TaggedEntry_defs)
qed

lemma CacheBlk_insert_Inr:
  "\<not> t_valid b \<Longrightarrow> TaggedEntry_wf b \<Longrightarrow>
   CacheBlk_insert now tag s src task b =
     Inr (b\<lparr>t_valid := True, t_tag := tag, t_secure := s, b_srcRequestorId := src,
            b_taskId := task, b_tickInserted := now, b_refCount := b_refCount b + 1\<rparr>)"
  by (simp add: CacheBlk_insert_def TaggedEntry_insert_Inr TaggedEntry_isValid_def CacheBlk_setters)

section \<open>Load-linked ranges\<close>

text \<open>
  A request that can hold a lock: it has an address, a size and a context, is not empty and does
  not wrap around the address space.
\<close>

definition lock_req :: "Request \<Rightarrow> bool" where
  "lock_req r \<longleftrightarrow> Request_hasPaddr r \<and> Request_hasSize r \<and> Request_hasContextId r \<and>
     r_size r \<noteq> 0 \<and> unat (r_paddr r) + unat (r_size r) \<le> 2 ^ 64"

definition lock_of :: "Request \<Rightarrow> Lock" where
  "lock_of r = \<lparr>l_contextId = r_contextId r, l_lowAddr = r_paddr r,
                l_highAddr = r_paddr r + ucast (r_size r) - 1\<rparr>"

definition overlap :: "Lock \<Rightarrow> Lock \<Rightarrow> bool" where
  "overlap l m \<longleftrightarrow> l_lowAddr m \<le> l_highAddr l \<and> l_lowAddr l \<le> l_highAddr m"

definition covers :: "Lock \<Rightarrow> Lock \<Rightarrow> bool" where
  "covers l m \<longleftrightarrow> l_contextId l = l_contextId m \<and> l_lowAddr l \<le> l_lowAddr m \<and>
     l_highAddr m \<le> l_highAddr l"

lemma overlap_sym: "overlap l m = overlap m l"
  by (auto simp: overlap_def)

lemma lock_of_ordered: "lock_req r \<Longrightarrow> l_lowAddr (lock_of r) \<le> l_highAddr (lock_of r)"
proof -
  assume r: "lock_req r"
  then have pos: "0 < unat (r_size r)" by (simp add: lock_req_def unat_gt_0)
  have w: "r_paddr r + ucast (r_size r) - 1 = r_paddr r + (ucast (r_size r) - 1)" by simp
  have "ucast (r_size r) \<noteq> (0 :: u64)"
    using pos unat_ucast_u32 [of "r_size r"] by (metis less_not_refl unat_0)
  then have s: "unat (ucast (r_size r) - 1 :: u64) = unat (r_size r) - 1"
    using unat_minus_one [of "ucast (r_size r) :: u64"] unat_ucast_u32 by simp
  have "unat (r_paddr r) + (unat (r_size r) - 1) < 2 ^ 64"
    using r pos unfolding lock_req_def by linarith
  then have "unat (r_paddr r + (ucast (r_size r) - 1)) = unat (r_paddr r) + (unat (r_size r) - 1)"
    using s by (simp add: unat_word_ariths)
  then show ?thesis by (simp add: lock_of_def w word_le_nat_alt)
qed

lemma covers_overlap: "lock_req r \<Longrightarrow> covers l (lock_of r) \<Longrightarrow> overlap l (lock_of r)"
  using lock_of_ordered [of r] by (auto simp: covers_def overlap_def)

lemma Lock_range_Inr:
  "lock_req r \<Longrightarrow> Lock_range r = Inr (l_lowAddr (lock_of r), l_highAddr (lock_of r))"
  by (simp add: Lock_range_def lock_req_def lock_of_def Request_getPaddr_def Request_getSize_def)

lemma Request_contextId_lock: "lock_req r \<Longrightarrow> Request_contextId r = Inr (l_contextId (lock_of r))"
  by (simp add: Request_contextId_def lock_req_def lock_of_def)

lemma Lock_intersects_Inr: "lock_req r \<Longrightarrow> Lock_intersects l r = Inr (overlap l (lock_of r))"
  by (simp add: Lock_intersects_def Lock_range_Inr overlap_def conj_commute)

lemma Lock_matches_Inr: "lock_req r \<Longrightarrow> Lock_matches l r = Inr (covers l (lock_of r))"
  by (auto simp: Lock_matches_def Lock_range_Inr Request_contextId_lock covers_def)

lemma Lock_new_Inr: "lock_req r \<Longrightarrow> Lock_new r = Inr (lock_of r)"
  by (simp add: Lock_new_def Lock_range_Inr Request_contextId_lock)

lemma lock_req_setExtraData:
  "lock_req (Request_setExtraData v r) = lock_req r" "lock_of (Request_setExtraData v r) = lock_of r"
proof -
  have "isSet (setf f VALID_EXTRA_DATA) m = isSet f m" if "VALID_EXTRA_DATA AND m = 0" for f m
    using that by (simp add: isSet_def [of VALID_EXTRA_DATA])
  then have "isSet (setf f VALID_EXTRA_DATA) VALID_PADDR = isSet f VALID_PADDR"
    "isSet (setf f VALID_EXTRA_DATA) VALID_SIZE = isSet f VALID_SIZE"
    "isSet (setf f VALID_EXTRA_DATA) VALID_CONTEXT_ID = isSet f VALID_CONTEXT_ID" for f
    by (simp_all add: flag_defs)
  then show "lock_req (Request_setExtraData v r) = lock_req r"
    by (simp add: lock_req_def Request_private_ops Request_setExtraData_def)
  show "lock_of (Request_setExtraData v r) = lock_of r"
    by (simp add: lock_of_def Request_setExtraData_def)
qed

text \<open>The locks of a block never overlap.\<close>

definition locks_disjoint :: "'a CacheBlk_scheme \<Rightarrow> bool" where
  "locks_disjoint b \<longleftrightarrow> sorted_wrt (\<lambda>l m. \<not> overlap l m) (b_lockList b)"

lemma trackLoadLocked_Inr:
  "Packet_isLLSC pkt \<Longrightarrow> lock_req (p_req pkt) \<Longrightarrow>
   CacheBlk_trackLoadLocked pkt b =
     Inr (b\<lparr>b_lockList := lock_of (p_req pkt) #
       filter (\<lambda>l. \<not> overlap l (lock_of (p_req pkt))) (b_lockList b)\<rparr>)"
  by (simp add: CacheBlk_trackLoadLocked_def Lock_intersects_Inr Lock_new_Inr
      erase_ifR_filter [where p = "\<lambda>l. overlap l (lock_of (p_req pkt))"])

lemma clearLoadLocks_Inr:
  "lock_req r \<Longrightarrow>
   CacheBlk_clearLoadLocks r b =
     Inr (b\<lparr>b_lockList := filter (\<lambda>l. \<not> (overlap l (lock_of r) \<and> l_contextId l \<noteq> l_contextId (lock_of r)))
       (b_lockList b)\<rparr>)"
  by (simp add: CacheBlk_clearLoadLocks_def Lock_intersects_Inr Request_contextId_lock
      erase_ifR_filter [where p = "\<lambda>l. overlap l (lock_of r) \<and> l_contextId l \<noteq> l_contextId (lock_of r)"])

fun remove_first :: "('a \<Rightarrow> bool) \<Rightarrow> 'a list \<Rightarrow> 'a list" where
  "remove_first P [] = []"
| "remove_first P (x # xs) = (if P x then xs else x # remove_first P xs)"

lemma set_remove_first: "set (remove_first P xs) \<subseteq> set xs"
  by (induction xs) auto

lemma sorted_wrt_remove_first: "sorted_wrt R xs \<Longrightarrow> sorted_wrt R (remove_first P xs)"
  by (induction xs) (use set_remove_first in fastforce)+

lemma checkWrite_loop_Inr:
  "lock_req r \<Longrightarrow>
   checkWrite_loop r ls = Inr (\<exists>l \<in> set ls. covers l (lock_of r), remove_first (\<lambda>l. covers l (lock_of r)) ls)"
  by (induction ls) (auto simp: Lock_matches_Inr)

lemma checkWrite_store_conditional:
  assumes "Packet_isWrite pkt" "Packet_isLLSC pkt" "lock_req (p_req pkt)"
  shows "\<exists>b'. CacheBlk_checkWrite pkt b =
    Inr (\<exists>l \<in> set (b_lockList b). covers l (lock_of (p_req pkt)),
         pkt\<lparr>p_req := Request_setExtraData
           (if \<exists>l \<in> set (b_lockList b). covers l (lock_of (p_req pkt)) then 1 else 0) (p_req pkt)\<rparr>, b') \<and>
    (locks_disjoint b \<longrightarrow> locks_disjoint b')"
  using assms
  by (simp add: CacheBlk_checkWrite_def checkWrite_loop_Inr clearLoadLocks_Inr lock_req_setExtraData
      locks_disjoint_def sorted_wrt_filter sorted_wrt_remove_first)

lemma checkWrite_store:
  assumes "Packet_isWrite pkt" "\<not> Packet_isLLSC pkt" "lock_req (p_req pkt)"
  shows "CacheBlk_checkWrite pkt b = Inr (True, pkt,
    b\<lparr>b_lockList := filter (\<lambda>l. \<not> (overlap l (lock_of (p_req pkt)) \<and>
        l_contextId l \<noteq> l_contextId (lock_of (p_req pkt)))) (b_lockList b)\<rparr>)"
  using assms by (cases "b_lockList b") (simp_all add: CacheBlk_checkWrite_def clearLoadLocks_Inr)

lemma locks_disjoint_ops:
  assumes "locks_disjoint b"
  shows "CacheBlk_invalidate b = Inr b' \<Longrightarrow> locks_disjoint b'"
    and "Packet_isLLSC pkt \<Longrightarrow> lock_req (p_req pkt) \<Longrightarrow>
      CacheBlk_trackLoadLocked pkt b = Inr b' \<Longrightarrow> locks_disjoint b'"
    and "lock_req r \<Longrightarrow> CacheBlk_clearLoadLocks r b = Inr b' \<Longrightarrow> locks_disjoint b'"
  using assms
  by (auto simp: locks_disjoint_def CacheBlk_invalidate_Inr trackLoadLocked_Inr clearLoadLocks_Inr
      sorted_wrt_filter overlap_sym)

section \<open>Properties\<close>

text \<open>
  C13: load-linked and store-conditional on a block whose locks do not overlap. After a
  load-linked, a store-conditional of the same request succeeds and reports 1. If a plain store of
  another context to an overlapping range comes between them, the store succeeds and the
  store-conditional fails and reports 0. The locks never overlap throughout.
\<close>

theorem llsc_semantics:
  assumes "locks_disjoint b"
    and "Packet_isLLSC ll" "lock_req (p_req ll)"
    and "Packet_isWrite sc" "Packet_isLLSC sc" "p_req sc = p_req ll"
    and "Packet_isWrite st" "\<not> Packet_isLLSC st" "lock_req (p_req st)"
    and "overlap (lock_of (p_req ll)) (lock_of (p_req st))"
    and "r_contextId (p_req st) \<noteq> r_contextId (p_req ll)"
  shows "\<exists>b1 b2 b3 b4. CacheBlk_trackLoadLocked ll b = Inr b1 \<and> locks_disjoint b1 \<and>
    CacheBlk_checkWrite sc b1 = Inr (True, sc\<lparr>p_req := Request_setExtraData 1 (p_req sc)\<rparr>, b2) \<and>
    locks_disjoint b2 \<and>
    CacheBlk_checkWrite st b1 = Inr (True, st, b3) \<and> locks_disjoint b3 \<and>
    CacheBlk_checkWrite sc b3 = Inr (False, sc\<lparr>p_req := Request_setExtraData 0 (p_req sc)\<rparr>, b4) \<and>
    locks_disjoint b4"
proof -
  let ?L = "lock_of (p_req ll)" and ?S = "lock_of (p_req st)"
  define b1 where "b1 = b\<lparr>b_lockList := ?L # filter (\<lambda>l. \<not> overlap l ?L) (b_lockList b)\<rparr>"
  define b3 where "b3 = b1\<lparr>b_lockList := filter (\<lambda>l. \<not> (overlap l ?S \<and> l_contextId l \<noteq> l_contextId ?S))
    (b_lockList b1)\<rparr>"
  have t: "CacheBlk_trackLoadLocked ll b = Inr b1" and d1: "locks_disjoint b1"
    using assms(1-3) locks_disjoint_ops(2) [OF assms(1-3)] by (simp_all add: trackLoadLocked_Inr b1_def)
  have st: "CacheBlk_checkWrite st b1 = Inr (True, st, b3)" and d3: "locks_disjoint b3"
    using checkWrite_store [OF assms(7,8,9)] d1
    by (simp_all add: b3_def locks_disjoint_def sorted_wrt_filter)
  have "covers ?L ?L" by (simp add: covers_def)
  then have ok: "\<exists>l \<in> set (b_lockList b1). covers l (lock_of (p_req sc))"
    using assms(6) by (simp add: b1_def)
  have "\<not> covers l ?L" if "l \<in> set (b_lockList b3)" for l
  proof
    assume c: "covers l ?L"
    then have "overlap l ?L" using covers_overlap assms(3) by blast
    then have "l = ?L" using that by (auto simp: b3_def b1_def split: if_splits)
    moreover have "l_contextId ?L \<noteq> l_contextId ?S" using assms(11) by (simp add: lock_of_def)
    ultimately show False using that assms(10) by (auto simp: b3_def)
  qed
  then have fail: "\<not> (\<exists>l \<in> set (b_lockList b3). covers l (lock_of (p_req sc)))"
    using assms(6) by simp
  have "lock_req (p_req sc)" using assms(3,6) by simp
  note sc = checkWrite_store_conditional [OF assms(4,5) this]
  from sc [of b1] sc [of b3] show ?thesis using t d1 st d3 ok fail by auto
qed

theorem llsc_semantics_witness:
  "\<exists>b b1 b3 b4. CacheBlk_new ((0, 0), 0) = Inr b \<and>
    CacheBlk_trackLoadLocked
      (sample_packet LoadLockedReq (Request_setContext 1 (Request_new 0x100 8 0 1))) b = Inr b1 \<and>
    CacheBlk_checkWrite
      (sample_packet WriteReq (Request_setContext 2 (Request_new 0x104 4 0 1))) b1 = Inr (True,
       sample_packet WriteReq (Request_setContext 2 (Request_new 0x104 4 0 1)), b3) \<and>
    (\<exists>sc'. CacheBlk_checkWrite
      (sample_packet StoreCondReq (Request_setContext 1 (Request_new 0x100 8 0 1))) b3 =
        Inr (False, sc', b4))"
proof -
  let ?r = "Request_setContext 1 (Request_new 0x100 8 0 1)"
  let ?s = "Request_setContext 2 (Request_new 0x104 4 0 1)"
  obtain b where b: "CacheBlk_new ((0, 0), 0) = Inr b" "locks_disjoint b"
    by (simp add: CacheBlk_new_def CacheBlk_invalidate_Inr locks_disjoint_def)
  have l: "lock_req ?r" "lock_req ?s" "overlap (lock_of ?r) (lock_of ?s)"
    by (simp_all add: lock_req_def lock_of_def overlap_def Request_private_ops Request_new_def
        Request_setContext_def Request_default_def isSet_def setf_def flag_defs)
  have c: "r_contextId ?s \<noteq> r_contextId ?r"
    by (simp add: Request_setContext_def)
  have q: "MemCmd_isLLSC LoadLockedReq" "MemCmd_isLLSC StoreCondReq" "MemCmd_isWrite StoreCondReq"
    "\<not> MemCmd_isLLSC WriteReq"
    by (simp_all add: MemCmd_query_defs MemCmd_table)
  show ?thesis
    using llsc_semantics [OF b(2), of "sample_packet LoadLockedReq ?r" "sample_packet StoreCondReq ?r"
        "sample_packet WriteReq ?s"] b(1) l c q
    by (auto simp: Packet_isLLSC_def Packet_isWrite_def)
qed

text \<open>
  An entry that is not valid and well formed accepts an insertion and then matches exactly
  the inserted tag in the inserted security space; a valid one refuses it by assertion; an
  invalidated entry matches nothing. Blocks of the cache keep the well-formedness.
\<close>

theorem CacheBlk_insert_match:
  assumes "TaggedEntry_wf b"
  shows "(\<not> t_valid b \<longrightarrow> (\<exists>b'. CacheBlk_insert now tag s src task b = Inr b' \<and> TaggedEntry_wf b' \<and>
      (\<forall>tag' s'. TaggedEntry_matchTag tag' s' b' \<longleftrightarrow> tag' = tag \<and> s' = s))) \<and>
    (t_valid b \<longrightarrow> CacheBlk_insert now tag s src task b = Inl (AssertFail ''!isValid()'')) \<and>
    (\<exists>b'. CacheBlk_invalidate b = Inr b' \<and> TaggedEntry_wf b' \<and>
      (\<forall>tag' s'. \<not> TaggedEntry_matchTag tag' s' b'))"
proof (intro conjI impI)
  show "\<exists>b'. CacheBlk_invalidate b = Inr b' \<and> TaggedEntry_wf b' \<and>
      (\<forall>tag' s'. \<not> TaggedEntry_matchTag tag' s' b')"
    by (simp add: CacheBlk_invalidate_Inr TaggedEntry_wf_def TaggedEntry_matchTag_def
        TaggedEntry_isValid_def)
next
  assume "t_valid b"
  then show "CacheBlk_insert now tag s src task b = Inl (AssertFail ''!isValid()'')"
    by (simp add: CacheBlk_insert_def TaggedEntry_isValid_def)
next
  assume "\<not> t_valid b"
  from CacheBlk_insert_Inr [OF this assms]
  show "\<exists>b'. CacheBlk_insert now tag s src task b = Inr b' \<and> TaggedEntry_wf b' \<and>
      (\<forall>tag' s'. TaggedEntry_matchTag tag' s' b' \<longleftrightarrow> tag' = tag \<and> s' = s)"
    by (auto simp: TaggedEntry_wf_def TaggedEntry_matchTag_def TaggedEntry_isValid_def
        TaggedEntry_getTag_def TaggedEntry_isSecure_def)
qed

theorem CacheBlk_insert_match_witness:
  "\<exists>b b'. CacheBlk_new ((3, 1), 0) = Inr b \<and> CacheBlk_insert 7 0x12 True 1 1024 b = Inr b' \<and>
    TaggedEntry_matchTag 0x12 True b' \<and> \<not> TaggedEntry_matchTag 0x12 False b'"
proof -
  obtain b where b: "CacheBlk_new ((3, 1), 0) = Inr b" "\<not> t_valid b" "TaggedEntry_wf b"
    by (simp add: CacheBlk_new_def CacheBlk_invalidate_Inr TaggedEntry_wf_def)
  then show ?thesis using CacheBlk_insert_match [OF b(3), of 7 "0x12" True 1 1024] by auto
qed

end
