(* ===== verification/Indexing.thy ===== *)
theory Indexing
  imports Cache_Blk
begin

text \<open>
  \<open>indexing/indexing_base.cpp\<close> and \<open>indexing/set_associative.cpp\<close>: which entries an address
  may live in. The table \<open>sets\<close> holds pointers to entries; an entry pointer is the index of the
  block in the tag store's vector, \<open>None\<close> a null pointer. The locale \<open>indexing_policy\<close> states
  what the tag store relies on: the tag, the set and the byte offset decompose an address and
  \<open>regenerateAddr\<close> puts tag and set back together.
\<close>

section \<open>Definitions\<close>

record IndexingParams =
  ipp_assoc :: u32
  ipp_entry_size :: u32
  ipp_size :: u64

record IndexingPolicy =
  ip_assoc :: u32
  ip_numSets :: u32
  ip_setShift :: nat
  ip_setMask :: u32
  ip_sets :: "nat option list list"
  ip_tagShift :: nat

definition BaseIndexingPolicy_new :: "IndexingParams \<Rightarrow> IndexingPolicy result" where
  "BaseIndexingPolicy_new p =
     defined ''p.size / (p.entry_size * assoc)'' (ipp_entry_size p * ipp_assoc p \<noteq> 0)
       (let numSets = ucast (ipp_size p div ucast (ipp_entry_size p * ipp_assoc p)) :: u32
        in bindR (floorLog2 4 (sint (ipp_entry_size p))) (\<lambda>setShift.
           bindR (floorLog2 4 (uint numSets)) (\<lambda>l.
           check ''isPowerOf2(numSets)'' (isPowerOf2 (ucast numSets))
           (check ''assoc > 0'' (ipp_assoc p > 0)
             (Inr \<lparr>ip_assoc = ipp_assoc p, ip_numSets = numSets, ip_setShift = setShift,
                   ip_setMask = numSets - 1,
                   ip_sets = replicate (unat numSets) (replicate (unat (ipp_assoc p)) None),
                   ip_tagShift = setShift + l\<rparr>)))))"

definition getEntry :: "u32 \<Rightarrow> u32 \<Rightarrow> IndexingPolicy \<Rightarrow> nat option result" where
  "getEntry st way p =
     defined ''sets[set]'' (unat st < length (ip_sets p))
     (defined ''sets[set][way]'' (unat way < length (ip_sets p ! unat st))
       (Inr (ip_sets p ! unat st ! unat way)))"

definition setEntry :: "nat \<Rightarrow> u64 \<Rightarrow> IndexingPolicy \<Rightarrow> 'a ReplaceableEntry_scheme \<Rightarrow>
    (IndexingPolicy \<times> 'a ReplaceableEntry_scheme) result" where
  "setEntry entry index p e =
     defined ''div'' (ip_assoc p \<noteq> 0)
       (let st = ucast (index div ucast (ip_assoc p)) :: u32;
            way = ucast (index mod ucast (ip_assoc p)) :: u32
        in check ''set < numSets'' (st < ip_numSets p)
           (defined ''sets[set][way]'' (unat st < length (ip_sets p) \<and>
               unat way < length (ip_sets p ! unat st))
             (Inr (p\<lparr>ip_sets := (ip_sets p)[unat st := (ip_sets p ! unat st)[unat way := Some entry]]\<rparr>,
                   setPosition st way e))))"

definition Indexing_extractTag :: "Addr \<Rightarrow> IndexingPolicy \<Rightarrow> Addr result" where
  "Indexing_extractTag addr p =
     defined ''addr >> tagShift'' (ip_tagShift p < 64) (Inr (drop_bit (ip_tagShift p) addr))"

definition extractSet :: "Addr \<Rightarrow> IndexingPolicy \<Rightarrow> u32 result" where
  "extractSet addr p =
     defined ''addr >> setShift'' (ip_setShift p < 64)
       (Inr (ucast (drop_bit (ip_setShift p) addr AND ucast (ip_setMask p))))"

definition regenerateAddr :: "Addr \<Rightarrow> 'a ReplaceableEntry_scheme \<Rightarrow> IndexingPolicy \<Rightarrow> Addr result" where
  "regenerateAddr tag e p =
     defined ''tag << tagShift'' (ip_tagShift p < 64)
     (defined ''entry->getSet() << setShift'' (ip_setShift p < 32)
       (Inr (push_bit (ip_tagShift p) tag OR ucast (push_bit (ip_setShift p) (getSet e)))))"

definition getPossibleEntries :: "Addr \<Rightarrow> IndexingPolicy \<Rightarrow> nat option list result" where
  "getPossibleEntries addr p =
     bindR (extractSet addr p) (\<lambda>st.
       defined ''sets[extractSet(addr)]'' (unat st < length (ip_sets p))
         (Inr (ip_sets p ! unat st)))"

section \<open>Well-formed policies\<close>

text \<open>
  What the constructor establishes for power-of-two sizes: the shifts are the logarithms of the
  block size and the number of sets, and the indexed part of an address fits 32 bits, the width in
  which \<open>regenerateAddr\<close> shifts the set.
\<close>

definition Indexing_wf :: "IndexingPolicy \<Rightarrow> bool" where
  "Indexing_wf p \<longleftrightarrow>
     ip_setShift p \<le> ip_tagShift p \<and> ip_tagShift p < 32 \<and>
     ip_numSets p = 2 ^ (ip_tagShift p - ip_setShift p) \<and>
     ip_setMask p = ip_numSets p - 1 \<and> 0 < ip_assoc p \<and>
     length (ip_sets p) = unat (ip_numSets p) \<and>
     (\<forall>s < length (ip_sets p). length (ip_sets p ! s) = unat (ip_assoc p))"

definition blk_align :: "IndexingPolicy \<Rightarrow> Addr \<Rightarrow> Addr" where
  "blk_align p a = a AND NOT (mask (ip_setShift p))"

definition set_of :: "IndexingPolicy \<Rightarrow> Addr \<Rightarrow> u32" where
  "set_of p a = ucast (take_bit (ip_tagShift p - ip_setShift p) (drop_bit (ip_setShift p) a))"

definition tag_of :: "IndexingPolicy \<Rightarrow> Addr \<Rightarrow> Addr" where
  "tag_of p a = drop_bit (ip_tagShift p) a"

lemma Indexing_wf_mask: "Indexing_wf p \<Longrightarrow> ip_setMask p = mask (ip_tagShift p - ip_setShift p)"
  by (simp add: Indexing_wf_def mask_eq_exp_minus_1)

lemma Indexing_wf_shift: "Indexing_wf p \<Longrightarrow> ip_tagShift p - ip_setShift p < 32"
  unfolding Indexing_wf_def by linarith

lemma unat_numSets: "Indexing_wf p \<Longrightarrow> unat (ip_numSets p) = 2 ^ (ip_tagShift p - ip_setShift p)"
  using unat_exp_eq [of "ip_tagShift p - ip_setShift p", where ?'a = 32] Indexing_wf_shift
  by (simp add: Indexing_wf_def)

lemma extractTag_Inr: "Indexing_wf p \<Longrightarrow> Indexing_extractTag a p = Inr (tag_of p a)"
  by (simp add: Indexing_extractTag_def Indexing_wf_def tag_of_def)

lemma extractSet_Inr: "Indexing_wf p \<Longrightarrow> extractSet a p = Inr (set_of p a)"
proof -
  assume w: "Indexing_wf p"
  have "drop_bit s a AND (ucast (mask n :: u32)) = take_bit n (drop_bit s a)" if "n < 32" for s n
    using that by (intro bit_word_eqI) (auto simp: bit_simps)
  moreover have "ip_setShift p < 64" using w by (simp add: Indexing_wf_def)
  ultimately show ?thesis
    using w Indexing_wf_shift [OF w] by (simp add: extractSet_def Indexing_wf_mask set_of_def)
qed

lemma set_of_less: "Indexing_wf p \<Longrightarrow> unat (set_of p a) < unat (ip_numSets p)"
proof -
  assume w: "Indexing_wf p"
  let ?n = "ip_tagShift p - ip_setShift p"
  have "set_of p a = take_bit ?n (set_of p a)"
    by (rule bit_word_eqI) (auto simp: set_of_def bit_simps)
  then have "unat (set_of p a) = take_bit ?n (unat (set_of p a))"
    by (metis unsigned_take_bit_eq)
  then show ?thesis using w by (metis unat_numSets take_bit_nat_less_exp)
qed

lemma regenerateAddr_Inr:
  assumes "Indexing_wf p" and "e_set e = set_of p a"
  shows "regenerateAddr (tag_of p a) e p = Inr (blk_align p a)"
proof -
  have "push_bit (ip_tagShift p) (tag_of p a) OR ucast (push_bit (ip_setShift p) (set_of p a)) =
    blk_align p a"
  proof (rule bit_word_eqI)
    fix n assume "n < LENGTH(64)"
    moreover have "ip_setShift p \<le> ip_tagShift p" "ip_tagShift p < 32"
      using assms(1) by (simp_all add: Indexing_wf_def)
    ultimately show "bit (push_bit (ip_tagShift p) (tag_of p a) OR
        ucast (push_bit (ip_setShift p) (set_of p a))) n = bit (blk_align p a) n"
      by (cases "n < ip_tagShift p") (auto simp: bit_simps tag_of_def set_of_def blk_align_def)
  qed
  then show ?thesis
    using assms by (simp add: regenerateAddr_def getSet_def) (simp add: Indexing_wf_def)
qed

lemma getPossibleEntries_Inr:
  "Indexing_wf p \<Longrightarrow> getPossibleEntries a p = Inr (ip_sets p ! unat (set_of p a))"
  using set_of_less [of p a]
  by (simp add: getPossibleEntries_def extractSet_Inr) (simp add: Indexing_wf_def)

section \<open>The interface of an indexing policy\<close>

locale indexing_policy =
  fixes inv :: "'p \<Rightarrow> bool"
    and tag :: "'p \<Rightarrow> Addr \<Rightarrow> Addr"
    and set_index :: "'p \<Rightarrow> Addr \<Rightarrow> u32"
    and align :: "'p \<Rightarrow> Addr \<Rightarrow> Addr"
    and regenerate :: "Addr \<Rightarrow> u32 \<Rightarrow> 'p \<Rightarrow> Addr result"
  assumes regenerate_decomposed: "inv p \<Longrightarrow> regenerate (tag p a) (set_index p a) p = Inr (align p a)"
    and tag_align: "inv p \<Longrightarrow> tag p (align p a) = tag p a"
    and set_align: "inv p \<Longrightarrow> set_index p (align p a) = set_index p a"
begin

lemma same_block_iff:
  assumes "inv p"
  shows "align p a = align p b \<longleftrightarrow> tag p a = tag p b \<and> set_index p a = set_index p b"
proof
  assume "align p a = align p b"
  then show "tag p a = tag p b \<and> set_index p a = set_index p b"
    using tag_align [OF assms] set_align [OF assms] by metis
next
  assume "tag p a = tag p b \<and> set_index p a = set_index p b"
  then show "align p a = align p b"
    using regenerate_decomposed [OF assms, of a] regenerate_decomposed [OF assms, of b] by simp
qed

lemma align_idem: "inv p \<Longrightarrow> align p (align p a) = align p a"
  using same_block_iff tag_align set_align by blast

lemma conflicting_tags_differ:
  "inv p \<Longrightarrow> align p a \<noteq> align p b \<Longrightarrow> set_index p a = set_index p b \<Longrightarrow> tag p a \<noteq> tag p b"
  using same_block_iff by blast

end

definition regenerate_set :: "Addr \<Rightarrow> u32 \<Rightarrow> IndexingPolicy \<Rightarrow> Addr result" where
  "regenerate_set tag st p =
     regenerateAddr tag \<lparr>e_set = st, e_way = 0, e_replacementData = None\<rparr> p"

lemma regenerateAddr_set: "regenerateAddr tag e p = regenerate_set tag (e_set e) p"
  by (simp add: regenerateAddr_def regenerate_set_def getSet_def)

interpretation set_assoc: indexing_policy Indexing_wf tag_of set_of blk_align regenerate_set
proof
  fix p :: IndexingPolicy and a :: Addr
  assume w: "Indexing_wf p"
  show "regenerate_set (tag_of p a) (set_of p a) p = Inr (blk_align p a)"
    unfolding regenerate_set_def by (rule regenerateAddr_Inr [OF w]) simp
  show "tag_of p (blk_align p a) = tag_of p a"
    using w by (intro bit_word_eqI) (auto simp: tag_of_def blk_align_def bit_simps Indexing_wf_def
        dest: bit_imp_le_length)
  show "set_of p (blk_align p a) = set_of p a"
    using w by (intro bit_word_eqI) (auto simp: set_of_def blk_align_def bit_simps
        dest: bit_imp_le_length)
qed

section \<open>Construction\<close>

lemma BaseIndexingPolicy_new_wf:
  assumes "ipp_entry_size p = 2 ^ s" "s < 31" "ipp_assoc p \<noteq> 0"
    and "unat (ipp_size p) = 2 ^ s * unat (ipp_assoc p) * 2 ^ k" "s + k < 32"
    and "2 ^ s * unat (ipp_assoc p) < 2 ^ 32"
  shows "\<exists>ip. BaseIndexingPolicy_new p = Inr ip \<and> Indexing_wf ip \<and> ip_assoc ip = ipp_assoc p \<and>
    ip_setShift ip = s \<and> ip_tagShift ip = s + k \<and> ip_numSets ip = 2 ^ k \<and>
    ip_sets ip = replicate (2 ^ k) (replicate (unat (ipp_assoc p)) None)"
proof -
  let ?m = "ipp_entry_size p * ipp_assoc p"
  have a: "0 < unat (ipp_assoc p)" using assms(3) by (simp add: unat_gt_0)
  have e: "unat (ipp_entry_size p) = 2 ^ s"
    using assms(1,2) unat_exp_eq [of s, where ?'a = 32] by simp
  have m: "unat ?m = 2 ^ s * unat (ipp_assoc p)"
    using assms(6) e by (simp add: unat_word_ariths)
  then have m0: "?m \<noteq> 0" using a by (metis mult_is_0 neq0_conv power_not_zero unat_0 zero_neq_numeral)
  have "unat (ipp_size p div ucast ?m) = 2 ^ k"
    using assms(4) a m unat_ucast_u32 [of ?m] by (simp add: unat_div)
  moreover have k32: "k < 32" using assms(5) by simp
  ultimately have "unat (ucast (ipp_size p div ucast ?m) :: u32) = 2 ^ k"
    by (simp add: unsigned_ucast_eq take_bit_nat_eq_self)
  then have n: "(ucast (ipp_size p div ucast ?m) :: u32) = 2 ^ k"
    using unat_exp_eq [of k, where ?'a = 32] k32 by (simp add: word_unat_eq_iff)
  have ue: "uint (2 ^ j :: u32) = 2 ^ j" if "j < 32" for j
    using that uint_2p [where ?'a = 32, of j] by (simp add: word_gt_0)
  have "(0 :: int) \<le> 2 ^ s" by simp
  then have "- (2 ^ 31) \<le> (2 :: int) ^ s" by (rule order_trans [rotated]) simp
  moreover have "(2 :: int) ^ s < 2 ^ 31" using assms(2) by (rule power_strict_increasing) simp
  ultimately have "signed_take_bit 31 (2 ^ s :: int) = 2 ^ s" by (rule signed_take_bit_int_eq_self)
  then have "sint (ipp_entry_size p) = 2 ^ s"
    using assms(1,2) ue [of s] by (simp add: sint_uint)
  then have s: "floorLog2 4 (sint (ipp_entry_size p)) = Inr s"
    using floorLog2_power2 [of 4 s] assms(2) by simp
  have l: "floorLog2 4 (uint (2 ^ k :: u32)) = Inr k"
    using floorLog2_power2 [of 4 k] k32 ue by simp
  have "(ucast (2 ^ k :: u32) :: u64) = 2 ^ k"
    using k32 unat_ucast_u32 [of "2 ^ k"] unat_exp_eq [of k, where ?'a = 32]
      unat_exp_eq [of k, where ?'a = 64] by (simp add: word_unat_eq_iff)
  then have p2: "isPowerOf2 (ucast (2 ^ k :: u32))"
    using k32 by (simp add: isPowerOf2_iff) (rule exI [of _ k], simp)
  show ?thesis
    using m0 n s l p2 assms(3,5) a k32 unat_exp_eq [of k, where ?'a = 32]
    by (simp add: BaseIndexingPolicy_new_def Let_def Indexing_wf_def word_gt_0)
qed

section \<open>Properties\<close>

text \<open>
  C14: for a policy the constructor builds from power-of-two parameters, tag, set and alignment
  decompose every address: the set is in range, \<open>regenerateAddr\<close> of an address's tag in its set
  returns the block-aligned address, and two addresses have the same tag and set exactly when they
  lie in the same block.
\<close>

theorem indexing_decomposition:
  assumes "Indexing_wf p"
  shows "\<exists>t s. Indexing_extractTag a p = Inr t \<and> extractSet a p = Inr s \<and> s < ip_numSets p \<and>
    (\<forall>e :: CacheBlk. getSet e = s \<longrightarrow> regenerateAddr t e p = Inr (blk_align p a)) \<and>
    (\<forall>b. Indexing_extractTag b p = Inr t \<and> extractSet b p = Inr s \<longleftrightarrow> blk_align p b = blk_align p a)"
proof -
  have "set_of p a < ip_numSets p"
    using set_of_less [OF assms] by (simp add: word_less_nat_alt)
  then show ?thesis
    using assms set_assoc.same_block_iff [OF assms]
    by (auto simp: extractTag_Inr extractSet_Inr regenerateAddr_Inr getSet_def)
qed

theorem indexing_decomposition_witness:
  "\<exists>p t s. BaseIndexingPolicy_new \<lparr>ipp_assoc = 2, ipp_entry_size = 64, ipp_size = 4096\<rparr> = Inr p \<and>
    Indexing_extractTag 0xABCDE p = Inr t \<and> extractSet 0xABCDE p = Inr s \<and> s < ip_numSets p"
proof -
  obtain p where p: "BaseIndexingPolicy_new \<lparr>ipp_assoc = 2, ipp_entry_size = 64, ipp_size = 4096\<rparr> = Inr p"
    "Indexing_wf p"
    using BaseIndexingPolicy_new_wf [of "\<lparr>ipp_assoc = 2, ipp_entry_size = 64, ipp_size = 4096\<rparr>" 6 5]
    by auto
  then show ?thesis using indexing_decomposition [OF p(2), of "0xABCDE"] by blast
qed

end
