(* ===== verification/Replacement.thy ===== *)
theory Replacement
  imports Indexing
begin

text \<open>
  \<open>replaceable/replaceable_random.cpp\<close>: the random replacement policy behind the interface of
  \<open>replaceable/include/replaceable_base.h\<close>. The replacement data of an entry is its \<open>valid\<close> bit
  (\<open>Some v\<close>), a null pointer \<open>None\<close>. The number drawn from the generator of \<open>base/random.cpp\<close>
  is the parameter \<open>rnd\<close>; \<open>uniform_int_distribution\<close> documents that it lies between the two
  bounds it is given, here 0 and the index of the last candidate.
\<close>

section \<open>Definitions\<close>

definition Random_invalidate :: "bool option \<Rightarrow> bool option result" where
  "Random_invalidate replacement_data =
     defined ''replacement_data'' (replacement_data \<noteq> None) (Inr (Some False))"

definition Random_touch :: "bool option \<Rightarrow> bool option" where
  "Random_touch replacement_data = replacement_data"

definition Random_reset :: "bool option \<Rightarrow> bool option result" where
  "Random_reset replacement_data =
     defined ''replacement_data'' (replacement_data \<noteq> None) (Inr (Some True))"

definition Random_instantiateEntry :: "bool option" where
  "Random_instantiateEntry = Some False"

text \<open>The candidates with their replacement data, and the first that holds no data.\<close>

fun getVictim_loop :: "(nat \<Rightarrow> bool option) \<Rightarrow> nat option list \<Rightarrow> nat option \<Rightarrow> nat option result" where
  "getVictim_loop repl [] victim = Inr victim"
| "getVictim_loop repl (c # cs) victim =
     (case c of
        None \<Rightarrow> Inl (Undef ''candidate'')
      | Some i \<Rightarrow>
          (case repl i of
             None \<Rightarrow> Inl (Undef ''candidate->replacementData'')
           | Some v \<Rightarrow> if \<not> v then Inr (Some i) else getVictim_loop repl cs victim))"

definition Random_getVictim :: "nat \<Rightarrow> (nat \<Rightarrow> bool option) \<Rightarrow> nat option list \<Rightarrow> nat option result" where
  "Random_getVictim rnd repl candidates =
     check ''candidates.size() > 0'' (length candidates > 0)
     (defined ''candidates[random]'' (rnd < length candidates)
       (getVictim_loop repl candidates (candidates ! rnd)))"

section \<open>The interface of a replacement policy\<close>

text \<open>
  What the tag store relies on: a victim is one of the candidates, and as long as a candidate is
  free, the victim is free.
\<close>

locale replacement_policy =
  fixes victim :: "nat \<Rightarrow> (nat \<Rightarrow> bool option) \<Rightarrow> nat option list \<Rightarrow> nat option result"
  assumes victim_candidate:
    "cs \<noteq> [] \<Longrightarrow> rnd < length cs \<Longrightarrow> (\<And>i. Some i \<in> set cs \<Longrightarrow> repl i \<noteq> None) \<Longrightarrow> None \<notin> set cs \<Longrightarrow>
       \<exists>i. victim rnd repl cs = Inr (Some i) \<and> Some i \<in> set cs"
    and victim_free:
    "victim rnd repl cs = Inr (Some i) \<Longrightarrow> Some j \<in> set cs \<Longrightarrow> repl j = Some False \<Longrightarrow>
       repl i = Some False"
begin

lemma victim_exists_free:
  assumes "rnd < length cs" "\<And>i. Some i \<in> set cs \<Longrightarrow> repl i \<noteq> None" "None \<notin> set cs"
    and "Some j \<in> set cs" "repl j = Some False"
  shows "\<exists>i. victim rnd repl cs = Inr (Some i) \<and> Some i \<in> set cs \<and> repl i = Some False"
  using victim_candidate [of cs rnd repl] victim_free assms by fastforce

lemma victim_full:
  assumes "rnd < length cs" "\<And>i. Some i \<in> set cs \<Longrightarrow> repl i = Some True" "None \<notin> set cs"
  shows "\<exists>i. victim rnd repl cs = Inr (Some i) \<and> Some i \<in> set cs \<and> repl i = Some True"
  using victim_candidate [of cs rnd repl] assms by fastforce

end

lemma getVictim_loop_spec:
  assumes "\<And>i. Some i \<in> set cs \<Longrightarrow> repl i \<noteq> None" and "None \<notin> set cs"
  shows "\<exists>r. getVictim_loop repl cs v = Inr r \<and>
    (if \<exists>j. Some j \<in> set cs \<and> repl j = Some False
     then \<exists>i. r = Some i \<and> Some i \<in> set cs \<and> repl i = Some False else r = v)"
  using assms
proof (induction cs)
  case (Cons c cs)
  from Cons.prems obtain i where i: "c = Some i" by (cases c) auto
  from Cons.prems(1) [of i] i obtain w where "repl i = Some w" by auto
  moreover have "\<exists>r. getVictim_loop repl cs v = Inr r \<and>
    (if \<exists>j. Some j \<in> set cs \<and> repl j = Some False
     then \<exists>i. r = Some i \<and> Some i \<in> set cs \<and> repl i = Some False else r = v)"
    using Cons.prems by (intro Cons.IH) auto
  ultimately show ?case using i by (cases w) (auto split: if_splits)
qed simp

lemma getVictim_loop_free:
  "getVictim_loop repl cs v = Inr (Some i) \<Longrightarrow> Some j \<in> set cs \<Longrightarrow> repl j = Some False \<Longrightarrow>
   repl i = Some False"
  by (induction cs) (auto split: option.splits if_splits)

interpretation random_rp: replacement_policy Random_getVictim
proof
  fix cs :: "nat option list" and rnd :: nat and repl :: "nat \<Rightarrow> bool option"
  assume a: "cs \<noteq> []" "rnd < length cs" "\<And>i. Some i \<in> set cs \<Longrightarrow> repl i \<noteq> None" "None \<notin> set cs"
  then obtain k where "cs ! rnd = Some k" "Some k \<in> set cs"
    by (metis nth_mem option.exhaust)
  with a getVictim_loop_spec [of cs repl "cs ! rnd"]
  show "\<exists>i. Random_getVictim rnd repl cs = Inr (Some i) \<and> Some i \<in> set cs"
    by (auto simp: Random_getVictim_def split: if_splits)
next
  fix cs :: "nat option list" and rnd i j :: nat and repl :: "nat \<Rightarrow> bool option"
  assume "Random_getVictim rnd repl cs = Inr (Some i)" "Some j \<in> set cs" "repl j = Some False"
  then show "repl i = Some False"
    using getVictim_loop_free by (auto simp: Random_getVictim_def)
qed

end
