(* ===== verification/Tags.thy ===== *)
theory Tags
  imports Replacement
begin

text \<open>
  \<open>tags/tag_base.cpp\<close>, \<open>tags/include/tag_base.h\<close>, \<open>tags/include/tag_set_assoc.h\<close> and
  \<open>tags/tag_set_assoc.cpp\<close>: the set-associative tag store. A block pointer is the index of the
  block in \<open>blks\<close>, \<open>None\<close> a null pointer. The statistics structure, the warm-up bound (a
  floating-point product that nothing reads) are left out; \<open>print\<close> is in the theory of log texts.
\<close>

section \<open>Definitions\<close>

record TagsParams =
  tp_block_size :: u32
  tp_size :: u64
  tp_sequential_access :: bool
  tp_tag_latency :: Cycles
  tp_assoc :: u32
  tp_indexing_policy :: "IndexingPolicy option"
  tp_replacement_policy :: bool

record BaseSetAssoc =
  bt_blkSize :: u32
  bt_blkMask :: Addr
  bt_size :: u32
  bt_lookupLatency :: Cycles
  bt_indexingPolicy :: IndexingPolicy
  bt_warmedUp :: bool
  bt_numBlocks :: u32
  bt_dataBlks :: ptr
  bt_allocAssoc :: u32
  bt_blks :: "CacheBlk list"
  bt_sequentialAccess :: bool

definition BaseSetAssoc_new ::
    "(nat \<Rightarrow> (u32 \<times> u32) \<times> u32) \<Rightarrow> ptr \<Rightarrow> TagsParams \<Rightarrow> BaseSetAssoc result" where
  "BaseSetAssoc_new junk dataBlks p =
     defined ''p.size / p.block_size'' (tp_block_size p \<noteq> 0)
       (let n = tp_size p div scast (tp_block_size p)
        in bindR (mapR (\<lambda>i. CacheBlk_new (junk i)) [0..<unat n]) (\<lambda>blks.
           case tp_indexing_policy p of
             None \<Rightarrow> Inl (AssertFail ''p.indexing_policy'')
           | Some ip \<Rightarrow>
               check ''blkSize < 4 || isPowerOf2(blkSize)''
                 (tp_block_size p < 4 \<or> isPowerOf2 (ucast (tp_block_size p)))
               (check ''p.replacement_policy'' (tp_replacement_policy p)
                 (Inr \<lparr>bt_blkSize = tp_block_size p, bt_blkMask = ucast (tp_block_size p - 1),
                       bt_size = ucast (tp_size p), bt_lookupLatency = tp_tag_latency p,
                       bt_indexingPolicy = ip, bt_warmedUp = False, bt_numBlocks = ucast n,
                       bt_dataBlks = dataBlks, bt_allocAssoc = tp_assoc p, bt_blks = blks,
                       bt_sequentialAccess = tp_sequential_access p\<rparr>))))"

fun tagsInit_loop :: "nat \<Rightarrow> nat \<Rightarrow> BaseSetAssoc \<Rightarrow> BaseSetAssoc result" where
  "tagsInit_loop 0 blk_index T = Inr T"
| "tagsInit_loop (Suc n) blk_index T =
     defined ''blks[blk_index]'' (blk_index < length (bt_blks T))
       (bindR (setEntry blk_index (word_of_nat blk_index) (bt_indexingPolicy T) (bt_blks T ! blk_index))
          (\<lambda>(ip, blk).
             let blk = blk\<lparr>b_data := ptr_add (bt_dataBlks T) (unat (bt_blkSize T * word_of_nat blk_index)),
                           e_replacementData := Random_instantiateEntry\<rparr>
             in tagsInit_loop n (Suc blk_index)
                  (T\<lparr>bt_indexingPolicy := ip, bt_blks := (bt_blks T)[blk_index := blk]\<rparr>)))"

definition tagsInit :: "BaseSetAssoc \<Rightarrow> BaseSetAssoc result" where
  "tagsInit T = tagsInit_loop (unat (bt_numBlocks T)) 0 T"

definition findBlockBySetAndWay :: "u32 \<Rightarrow> u32 \<Rightarrow> BaseSetAssoc \<Rightarrow> nat option result" where
  "findBlockBySetAndWay st way T = getEntry st way (bt_indexingPolicy T)"

definition BaseTags_extractTag :: "Addr \<Rightarrow> BaseSetAssoc \<Rightarrow> Addr result" where
  "BaseTags_extractTag addr T = Indexing_extractTag addr (bt_indexingPolicy T)"

fun findBlock_loop :: "CacheBlk list \<Rightarrow> Addr \<Rightarrow> bool \<Rightarrow> nat option list \<Rightarrow> nat option result" where
  "findBlock_loop blks tag is_secure [] = Inr None"
| "findBlock_loop blks tag is_secure (location # ls) =
     (case location of
        None \<Rightarrow> Inl (Undef ''blk->matchTag'')
      | Some i \<Rightarrow>
          defined ''blk->matchTag'' (i < length blks)
            (if TaggedEntry_matchTag tag is_secure (blks ! i) then Inr (Some i)
             else findBlock_loop blks tag is_secure ls))"

definition findBlock :: "Addr \<Rightarrow> bool \<Rightarrow> BaseSetAssoc \<Rightarrow> nat option result" where
  "findBlock addr is_secure T =
     bindR (BaseTags_extractTag addr T) (\<lambda>tag.
     bindR (getPossibleEntries addr (bt_indexingPolicy T)) (\<lambda>entries.
       findBlock_loop (bt_blks T) tag is_secure entries))"

definition blkAlign :: "Addr \<Rightarrow> BaseSetAssoc \<Rightarrow> Addr" where
  "blkAlign addr T = addr AND NOT (bt_blkMask T)"

definition extractBlkOffset :: "Addr \<Rightarrow> BaseSetAssoc \<Rightarrow> int" where
  "extractBlkOffset addr T = sint (ucast (addr AND bt_blkMask T) :: u32)"

definition BaseTags_invalidate :: "nat option \<Rightarrow> BaseSetAssoc \<Rightarrow> BaseSetAssoc result" where
  "BaseTags_invalidate blk T =
     (case blk of
        None \<Rightarrow> Inl (AssertFail ''blk'')
      | Some i \<Rightarrow>
          defined ''blk'' (i < length (bt_blks T))
          (check ''blk->isValid()'' (TaggedEntry_isValid (bt_blks T ! i))
            (bindR (CacheBlk_invalidate (bt_blks T ! i)) (\<lambda>b.
               Inr (T\<lparr>bt_blks := (bt_blks T)[i := b]\<rparr>)))))"

definition BaseSetAssoc_invalidate :: "nat option \<Rightarrow> BaseSetAssoc \<Rightarrow> BaseSetAssoc result" where
  "BaseSetAssoc_invalidate blk T =
     bindR (BaseTags_invalidate blk T) (\<lambda>T.
       (case blk of
          None \<Rightarrow> Inl (Undef ''blk->replacementData'')
        | Some i \<Rightarrow>
            bindR (Random_invalidate (e_replacementData (bt_blks T ! i))) (\<lambda>d.
              Inr (T\<lparr>bt_blks := (bt_blks T)[i := (bt_blks T ! i)\<lparr>e_replacementData := d\<rparr>]\<rparr>))))"

definition accessBlock :: "Packet \<Rightarrow> BaseSetAssoc \<Rightarrow> (nat option \<times> Cycles \<times> BaseSetAssoc) result" where
  "accessBlock pkt T =
     bindR (Packet_getAddr pkt) (\<lambda>a.
     bindR (Packet_isSecure pkt) (\<lambda>s.
     bindR (findBlock a s T) (\<lambda>blk.
       let T = (case blk of
                  None \<Rightarrow> T
                | Some i \<Rightarrow>
                    let b = CacheBlk_increaseRefCount (bt_blks T ! i);
                        b = b\<lparr>e_replacementData := Random_touch (e_replacementData b)\<rparr>
                    in T\<lparr>bt_blks := (bt_blks T)[i := b]\<rparr>)
       in Inr (blk, bt_lookupLatency T, T))))"

definition findVictim :: "nat \<Rightarrow> Addr \<Rightarrow> bool \<Rightarrow> nat \<Rightarrow> BaseSetAssoc \<Rightarrow> nat option list \<Rightarrow>
    (nat option \<times> nat option list) result" where
  "findVictim rnd addr is_secure sz T evict_blks =
     bindR (getPossibleEntries addr (bt_indexingPolicy T)) (\<lambda>entries.
     bindR (Random_getVictim rnd (\<lambda>i. if i < length (bt_blks T) then e_replacementData (bt_blks T ! i) else None) entries) (\<lambda>victim.
       Inr (victim, evict_blks @ [victim])))"

definition BaseTags_insertBlock :: "Tick \<Rightarrow> Packet \<Rightarrow> nat \<Rightarrow> BaseSetAssoc \<Rightarrow> BaseSetAssoc result" where
  "BaseTags_insertBlock now pkt i T =
     defined ''blk'' (i < length (bt_blks T))
     (check ''!blk->isValid()'' (\<not> TaggedEntry_isValid (bt_blks T ! i))
       (bindR (Packet_getAddr pkt) (\<lambda>a.
        bindR (BaseTags_extractTag a T) (\<lambda>tag.
        bindR (Packet_isSecure pkt) (\<lambda>s.
        bindR (CacheBlk_insert now tag s (ucast (Request_requestorId (p_req pkt)))
                 (Request_taskId (p_req pkt)) (bt_blks T ! i)) (\<lambda>b.
          Inr (T\<lparr>bt_blks := (bt_blks T)[i := b]\<rparr>)))))))"

definition insertBlock :: "Tick \<Rightarrow> Packet \<Rightarrow> nat \<Rightarrow> BaseSetAssoc \<Rightarrow> BaseSetAssoc result" where
  "insertBlock now pkt i T =
     bindR (BaseTags_insertBlock now pkt i T) (\<lambda>T.
     bindR (Random_reset (e_replacementData (bt_blks T ! i))) (\<lambda>d.
       Inr (T\<lparr>bt_blks := (bt_blks T)[i := (bt_blks T ! i)\<lparr>e_replacementData := d\<rparr>]\<rparr>)))"

definition BaseTags_moveBlock :: "Tick \<Rightarrow> nat \<Rightarrow> nat \<Rightarrow> BaseSetAssoc \<Rightarrow> BaseSetAssoc result" where
  "BaseTags_moveBlock now src dest T =
     defined ''blk'' (src < length (bt_blks T) \<and> dest < length (bt_blks T))
     (check ''!dest_blk->isValid()'' (\<not> TaggedEntry_isValid (bt_blks T ! dest))
     (check ''src_blk->isValid()'' (TaggedEntry_isValid (bt_blks T ! src))
       (bindR (CacheBlk_move_assign now (bt_blks T ! src) (bt_blks T ! dest)) (\<lambda>(d, s).
          check ''dest_blk->isValid()'' (TaggedEntry_isValid d)
          (check ''!src_blk->isValid()'' (\<not> TaggedEntry_isValid s)
            (Inr (T\<lparr>bt_blks := (bt_blks T)[dest := d, src := s]\<rparr>)))))))"

definition moveBlock :: "Tick \<Rightarrow> nat \<Rightarrow> nat \<Rightarrow> BaseSetAssoc \<Rightarrow> BaseSetAssoc result" where
  "moveBlock now src dest T =
     bindR (BaseTags_moveBlock now src dest T) (\<lambda>T.
     bindR (Random_invalidate (e_replacementData (bt_blks T ! src))) (\<lambda>d.
       let T = T\<lparr>bt_blks := (bt_blks T)[src := (bt_blks T ! src)\<lparr>e_replacementData := d\<rparr>]\<rparr>
       in bindR (Random_reset (e_replacementData (bt_blks T ! dest))) (\<lambda>d.
            Inr (T\<lparr>bt_blks := (bt_blks T)[dest := (bt_blks T ! dest)\<lparr>e_replacementData := d\<rparr>]\<rparr>))))"

definition setWayAllocationMax :: "int \<Rightarrow> BaseSetAssoc \<Rightarrow> BaseSetAssoc result" where
  "setWayAllocationMax ways T =
     check ''ways < 1'' (ways < 1) (Inr (T\<lparr>bt_allocAssoc := word_of_int ways\<rparr>))"

definition getWayAllocationMax :: "BaseSetAssoc \<Rightarrow> int" where
  "getWayAllocationMax T = sint (bt_allocAssoc T)"

definition regenerateBlkAddr :: "nat \<Rightarrow> BaseSetAssoc \<Rightarrow> Addr result" where
  "regenerateBlkAddr i T =
     defined ''blk->getTag()'' (i < length (bt_blks T))
       (regenerateAddr (TaggedEntry_getTag (bt_blks T ! i)) (bt_blks T ! i) (bt_indexingPolicy T))"

fun anyBlk :: "(CacheBlk \<Rightarrow> (bool \<times> CacheBlk) result) \<Rightarrow> CacheBlk list \<Rightarrow> (bool \<times> CacheBlk list) result" where
  "anyBlk visitor [] = Inr (False, [])"
| "anyBlk visitor (b # bs) =
     bindR (visitor b) (\<lambda>(r, b).
       if r then Inr (True, b # bs)
       else bindR (anyBlk visitor bs) (\<lambda>(r, bs). Inr (r, b # bs)))"

definition forEachBlk :: "(CacheBlk \<Rightarrow> CacheBlk result) \<Rightarrow> BaseSetAssoc \<Rightarrow> BaseSetAssoc result" where
  "forEachBlk visitor T =
     bindR (anyBlk (\<lambda>b. bindR (visitor b) (\<lambda>b. Inr (False, b))) (bt_blks T)) (\<lambda>(r, bs).
       Inr (T\<lparr>bt_blks := bs\<rparr>))"

definition cleanupRefsVisitor :: "CacheBlk \<Rightarrow> CacheBlk result" where
  "cleanupRefsVisitor blk = Inr blk"

definition cleanupRefs :: "BaseSetAssoc \<Rightarrow> BaseSetAssoc result" where
  "cleanupRefs T = forEachBlk cleanupRefsVisitor T"

definition computeStatsVisitor :: "Tick \<Rightarrow> CacheBlk \<Rightarrow> CacheBlk result" where
  "computeStatsVisitor now blk =
     (if TaggedEntry_isValid blk then
        check ''task_id < context_switch_task_id::NumTaskId'' (CacheBlk_getTaskId blk < 1025)
          (bindR (CacheBlk_getAge now blk) (\<lambda>age. Inr blk))
      else Inr blk)"

definition computeStats :: "Tick \<Rightarrow> BaseSetAssoc \<Rightarrow> BaseSetAssoc result" where
  "computeStats now T = forEachBlk (computeStatsVisitor now) T"

section \<open>Invariant\<close>

text \<open>
  The store is a matrix of \<open>numSets\<close> rows of \<open>assoc\<close> blocks: block \<open>i\<close> sits in row \<open>i div assoc\<close>
  and is what the indexing table holds there. Its replacement data mirror its valid bit, its tag
  is one an address can have, and no address is held twice.
\<close>

abbreviation tassoc :: "BaseSetAssoc \<Rightarrow> nat" where
  "tassoc T \<equiv> unat (ip_assoc (bt_indexingPolicy T))"

definition blk_ok :: "BaseSetAssoc \<Rightarrow> nat \<Rightarrow> CacheBlk \<Rightarrow> bool" where
  "blk_ok T i b \<longleftrightarrow>
     unat (e_set b) = i div tassoc T \<and> TaggedEntry_wf b \<and> e_replacementData b = Some (t_valid b) \<and>
     (t_valid b \<longrightarrow> unat (t_tag b) < 2 ^ (64 - ip_tagShift (bt_indexingPolicy T)))"

definition same_line :: "CacheBlk \<Rightarrow> CacheBlk \<Rightarrow> bool" where
  "same_line b c \<longleftrightarrow> t_valid b \<and> t_valid c \<and> e_set b = e_set c \<and> t_tag b = t_tag c \<and> t_secure b = t_secure c"

definition tags_inv :: "BaseSetAssoc \<Rightarrow> bool" where
  "tags_inv T \<longleftrightarrow>
     Indexing_wf (bt_indexingPolicy T) \<and>
     length (bt_blks T) = unat (ip_numSets (bt_indexingPolicy T)) * tassoc T \<and>
     (\<forall>i < length (bt_blks T).
        ip_sets (bt_indexingPolicy T) ! (i div tassoc T) ! (i mod tassoc T) = Some i \<and>
        blk_ok T i (bt_blks T ! i)) \<and>
     (\<forall>i < length (bt_blks T). \<forall>j < length (bt_blks T).
        same_line (bt_blks T ! i) (bt_blks T ! j) \<longrightarrow> i = j)"

text \<open>The set of an address as a range of block indices, and the block that holds an address.\<close>

definition set_ways :: "BaseSetAssoc \<Rightarrow> Addr \<Rightarrow> nat list" where
  "set_ways T a =
     (let s = unat (set_of (bt_indexingPolicy T) a) in [s * tassoc T ..< s * tassoc T + tassoc T])"

definition tag_lookup :: "BaseSetAssoc \<Rightarrow> Addr \<Rightarrow> bool \<Rightarrow> nat option" where
  "tag_lookup T a s =
     List.find (\<lambda>i. TaggedEntry_matchTag (tag_of (bt_indexingPolicy T) a) s (bt_blks T ! i)) (set_ways T a)"

definition resident :: "BaseSetAssoc \<Rightarrow> nat \<Rightarrow> Addr \<Rightarrow> bool \<Rightarrow> bool" where
  "resident T i a s \<longleftrightarrow> i < length (bt_blks T) \<and> t_valid (bt_blks T ! i) \<and>
     t_secure (bt_blks T ! i) = s \<and> t_tag (bt_blks T ! i) = tag_of (bt_indexingPolicy T) a \<and>
     e_set (bt_blks T ! i) = set_of (bt_indexingPolicy T) a"

lemma tags_inv_assoc: "tags_inv T \<Longrightarrow> 0 < tassoc T"
  by (simp add: tags_inv_def Indexing_wf_def word_gt_0 unat_gt_0)

lemma tags_inv_blk: "tags_inv T \<Longrightarrow> i < length (bt_blks T) \<Longrightarrow> blk_ok T i (bt_blks T ! i)"
  by (simp add: tags_inv_def)

lemma tags_inv_table:
  "tags_inv T \<Longrightarrow> i < length (bt_blks T) \<Longrightarrow>
   ip_sets (bt_indexingPolicy T) ! (i div tassoc T) ! (i mod tassoc T) = Some i"
  by (simp add: tags_inv_def)

lemma tags_inv_unique:
  "tags_inv T \<Longrightarrow> i < length (bt_blks T) \<Longrightarrow> j < length (bt_blks T) \<Longrightarrow>
   same_line (bt_blks T ! i) (bt_blks T ! j) \<Longrightarrow> i = j"
  by (simp add: tags_inv_def)

lemma row_less: "s < n \<Longrightarrow> w < a \<Longrightarrow> s * a + w < n * (a :: nat)"
proof -
  assume "s < n" "w < a"
  then have "s * a + w < Suc s * a" by simp
  also have "\<dots> \<le> n * a" using \<open>s < n\<close> by (intro mult_le_mono) simp_all
  finally show ?thesis .
qed

lemma set_ways_less:
  assumes "tags_inv T" "i \<in> set (set_ways T a)"
  shows "i < length (bt_blks T)" "i div tassoc T = unat (set_of (bt_indexingPolicy T) a)"
proof -
  let ?s = "unat (set_of (bt_indexingPolicy T) a)"
  obtain w where w: "i = ?s * tassoc T + w" "w < tassoc T"
    using assms(2) by (auto simp: set_ways_def Let_def le_iff_add)
  have "?s < unat (ip_numSets (bt_indexingPolicy T))"
    using assms(1) set_of_less by (simp add: tags_inv_def)
  then show "i < length (bt_blks T)"
    using w assms(1) row_less by (simp add: tags_inv_def)
  show "i div tassoc T = ?s" using w by simp
qed

lemma set_ways_iff:
  assumes "tags_inv T"
  shows "i \<in> set (set_ways T a) \<longleftrightarrow>
    i < length (bt_blks T) \<and> e_set (bt_blks T ! i) = set_of (bt_indexingPolicy T) a"
proof
  assume i: "i \<in> set (set_ways T a)"
  note l = set_ways_less [OF assms i]
  then have "unat (e_set (bt_blks T ! i)) = unat (set_of (bt_indexingPolicy T) a)"
    using tags_inv_blk [OF assms l(1)] by (simp add: blk_ok_def)
  with l(1) show "i < length (bt_blks T) \<and> e_set (bt_blks T ! i) = set_of (bt_indexingPolicy T) a"
    by (simp add: word_unat_eq_iff)
next
  assume i: "i < length (bt_blks T) \<and> e_set (bt_blks T ! i) = set_of (bt_indexingPolicy T) a"
  then have d: "unat (set_of (bt_indexingPolicy T) a) = i div tassoc T"
    using tags_inv_blk [OF assms] by (metis blk_ok_def)
  have "i div tassoc T * tassoc T \<le> i" "i < i div tassoc T * tassoc T + tassoc T"
    using tags_inv_assoc [OF assms] div_mult_mod_eq [of i "tassoc T"]
      mod_less_divisor [of "tassoc T" i] by linarith+
  then show "i \<in> set (set_ways T a)" by (simp add: set_ways_def Let_def d)
qed

lemma possible_entries:
  assumes "tags_inv T"
  shows "getPossibleEntries a (bt_indexingPolicy T) = Inr (map Some (set_ways T a))"
proof -
  let ?p = "bt_indexingPolicy T" and ?s = "unat (set_of (bt_indexingPolicy T) a)"
  have wf: "Indexing_wf ?p" using assms by (simp add: tags_inv_def)
  have s: "?s < length (ip_sets ?p)" using wf set_of_less [OF wf] by (simp add: Indexing_wf_def)
  have len: "length (ip_sets ?p ! ?s) = tassoc T" using wf s by (simp add: Indexing_wf_def)
  have "ip_sets ?p ! ?s = map Some (set_ways T a)"
  proof (rule nth_equalityI)
    show "length (ip_sets ?p ! ?s) = length (map Some (set_ways T a))"
      using len by (simp add: set_ways_def Let_def)
    fix w assume "w < length (ip_sets ?p ! ?s)"
    then have w: "w < tassoc T" using len by simp
    then have "set_ways T a ! w = ?s * tassoc T + w" by (simp add: set_ways_def Let_def)
    moreover have "?s * tassoc T + w < length (bt_blks T)"
      using row_less [of ?s "unat (ip_numSets ?p)" w "tassoc T"] w set_of_less [OF wf] assms
      by (simp add: tags_inv_def)
    then have "ip_sets ?p ! ((?s * tassoc T + w) div tassoc T) ! ((?s * tassoc T + w) mod tassoc T) =
      Some (?s * tassoc T + w)" by (rule tags_inv_table [OF assms])
    ultimately show "ip_sets ?p ! ?s ! w = map Some (set_ways T a) ! w"
      using w by (simp add: set_ways_def Let_def)
  qed
  then show ?thesis by (simp add: getPossibleEntries_Inr [OF wf])
qed

section \<open>Lookup\<close>

lemma findBlock_loop_find:
  "(\<And>i. i \<in> set is \<Longrightarrow> i < length bs) \<Longrightarrow>
   findBlock_loop bs tag s (map Some is) = Inr (List.find (\<lambda>i. TaggedEntry_matchTag tag s (bs ! i)) is)"
  by (induction "is") auto

lemma findBlock_Inr:
  assumes "tags_inv T"
  shows "findBlock a s T = Inr (tag_lookup T a s)"
proof -
  have wf: "Indexing_wf (bt_indexingPolicy T)" using assms by (simp add: tags_inv_def)
  show ?thesis
    unfolding findBlock_def BaseTags_extractTag_def extractTag_Inr [OF wf]
      possible_entries [OF assms] bindR.simps tag_lookup_def
    by (rule findBlock_loop_find) (rule set_ways_less(1) [OF assms])
qed

lemma resident_unique:
  "tags_inv T \<Longrightarrow> resident T i a s \<Longrightarrow> resident T j a s \<Longrightarrow> i = j"
  using tags_inv_unique [of T i j] by (simp add: resident_def same_line_def)

lemma tag_lookup_iff:
  assumes "tags_inv T"
  shows "tag_lookup T a s = Some i \<longleftrightarrow> resident T i a s"
proof
  assume "tag_lookup T a s = Some i"
  then have "i \<in> set (set_ways T a)"
    "TaggedEntry_matchTag (tag_of (bt_indexingPolicy T) a) s (bt_blks T ! i)"
    unfolding tag_lookup_def find_Some_iff by auto
  then show "resident T i a s"
    using set_ways_iff [OF assms]
    by (simp add: resident_def TaggedEntry_matchTag_def TaggedEntry_isValid_def
        TaggedEntry_getTag_def TaggedEntry_isSecure_def)
next
  assume r: "resident T i a s"
  then have "i \<in> set (set_ways T a)" using set_ways_iff [OF assms] by (simp add: resident_def)
  moreover have "TaggedEntry_matchTag (tag_of (bt_indexingPolicy T) a) s (bt_blks T ! i)"
    using r by (simp add: resident_def TaggedEntry_matchTag_def TaggedEntry_isValid_def
        TaggedEntry_getTag_def TaggedEntry_isSecure_def)
  ultimately have "tag_lookup T a s \<noteq> None" unfolding tag_lookup_def find_None_iff by blast
  then obtain j where j: "tag_lookup T a s = Some j" by blast
  then have "j \<in> set (set_ways T a)"
    "TaggedEntry_matchTag (tag_of (bt_indexingPolicy T) a) s (bt_blks T ! j)"
    unfolding tag_lookup_def find_Some_iff by auto
  then have "resident T j a s"
    using set_ways_iff [OF assms]
    by (simp add: resident_def TaggedEntry_matchTag_def TaggedEntry_isValid_def
        TaggedEntry_getTag_def TaggedEntry_isSecure_def)
  then show "tag_lookup T a s = Some i" using resident_unique [OF assms r] j by simp
qed

lemma option_eqI: "(\<And>j. x = Some j \<longleftrightarrow> y = Some j) \<Longrightarrow> x = y"
  by (cases x; cases y) auto

section \<open>Updating one block\<close>

definition upd_blk :: "nat \<Rightarrow> CacheBlk \<Rightarrow> BaseSetAssoc \<Rightarrow> BaseSetAssoc" where
  "upd_blk i b T = T\<lparr>bt_blks := (bt_blks T)[i := b]\<rparr>"

lemma upd_blk_simps [simp]:
  "bt_indexingPolicy (upd_blk i b T) = bt_indexingPolicy T"
  "length (bt_blks (upd_blk i b T)) = length (bt_blks T)"
  "bt_lookupLatency (upd_blk i b T) = bt_lookupLatency T"
  "i < length (bt_blks T) \<Longrightarrow> bt_blks (upd_blk i b T) ! j = (if j = i then b else bt_blks T ! j)"
  by (simp_all add: upd_blk_def nth_list_update)

lemma upd_blk_inv:
  assumes "tags_inv T" "i < length (bt_blks T)" "blk_ok T i b"
    and "\<And>j. j < length (bt_blks T) \<Longrightarrow> j \<noteq> i \<Longrightarrow> \<not> same_line b (bt_blks T ! j)"
  shows "tags_inv (upd_blk i b T)"
proof -
  have "same_line x y \<longleftrightarrow> same_line y x" for x y by (auto simp: same_line_def)
  then show ?thesis
    using assms unfolding tags_inv_def blk_ok_def
    by (simp add: assms(2))
qed

lemma upd_blk_resident:
  assumes "i < length (bt_blks T)"
  shows "resident (upd_blk i b T) j a s \<longleftrightarrow>
    (if j = i then t_valid b \<and> t_secure b = s \<and> t_tag b = tag_of (bt_indexingPolicy T) a \<and>
        e_set b = set_of (bt_indexingPolicy T) a
     else resident T j a s)"
  using assms by (simp add: resident_def)

lemma same_block_tag_set:
  assumes "tags_inv T"
  shows "blk_align (bt_indexingPolicy T) a = blk_align (bt_indexingPolicy T) b \<longleftrightarrow>
    tag_of (bt_indexingPolicy T) a = tag_of (bt_indexingPolicy T) b \<and>
    set_of (bt_indexingPolicy T) a = set_of (bt_indexingPolicy T) b"
  using assms by (intro set_assoc.same_block_iff) (simp add: tags_inv_def)

lemma tag_of_less:
  assumes "Indexing_wf p"
  shows "unat (tag_of p a) < 2 ^ (64 - ip_tagShift p)"
proof -
  have "unat a < 2 ^ ip_tagShift p * 2 ^ (64 - ip_tagShift p)"
    using assms unat_u64_less [of a] by (simp add: Indexing_wf_def flip: power_add)
  then have "unat a div 2 ^ ip_tagShift p < 2 ^ (64 - ip_tagShift p)"
    by (simp add: less_mult_imp_div_less mult.commute)
  then show ?thesis by (simp only: tag_of_def unat_drop)
qed

lemma address_of_entry:
  assumes "Indexing_wf p" "unat t < 2 ^ (64 - ip_tagShift p)" "unat s < unat (ip_numSets p)"
  shows "\<exists>b. tag_of p b = t \<and> set_of p b = s"
proof -
  define b where "b = push_bit (ip_tagShift p) t OR ucast (push_bit (ip_setShift p) s)"
  have sh: "ip_setShift p \<le> ip_tagShift p" "ip_tagShift p < 32"
    using assms(1) by (simp_all add: Indexing_wf_def)
  have t: "\<not> bit t n" if "64 - ip_tagShift p \<le> n" for n
    using unat_lt_exp_bits [OF assms(2) that] .
  have s: "\<not> bit s n" if "ip_tagShift p - ip_setShift p \<le> n" for n
    using unat_lt_exp_bits [of s "ip_tagShift p - ip_setShift p" n] assms(3) that
    by (simp add: unat_numSets [OF assms(1)])
  have "tag_of p b = t"
  proof (rule bit_word_eqI)
    fix n assume "n < LENGTH(64)"
    moreover have "ip_tagShift p + n < 64" if "bit t n"
      using t [of n] that by (cases "64 - ip_tagShift p \<le> n") auto
    ultimately show "bit (tag_of p b) n = bit t n"
      using sh s [of "ip_tagShift p + n - ip_setShift p"]
      by (auto simp: tag_of_def b_def bit_simps not_less)
  qed
  moreover have "set_of p b = s"
  proof (rule bit_word_eqI)
    fix n assume "n < LENGTH(32)"
    moreover have "n < ip_tagShift p - ip_setShift p" if "bit s n"
      using s [of n] that by (cases "ip_tagShift p - ip_setShift p \<le> n") auto
    ultimately show "bit (set_of p b) n = bit s n"
      using sh by (auto simp: set_of_def b_def bit_simps not_less)
  qed
  ultimately show ?thesis by blast
qed

lemma resident_address:
  assumes "tags_inv T"
  shows "resident T i a s \<longleftrightarrow> i < length (bt_blks T) \<and> t_valid (bt_blks T ! i) \<and>
    t_secure (bt_blks T ! i) = s \<and> regenerateBlkAddr i T = Inr (blk_align (bt_indexingPolicy T) a)"
proof -
  let ?p = "bt_indexingPolicy T"
  have wf: "Indexing_wf ?p" using assms by (simp add: tags_inv_def)
  have "t_tag (bt_blks T ! i) = tag_of ?p a \<and> e_set (bt_blks T ! i) = set_of ?p a \<longleftrightarrow>
      regenerateBlkAddr i T = Inr (blk_align ?p a)" if i: "i < length (bt_blks T)" "t_valid (bt_blks T ! i)"
  proof -
    have bound: "unat (e_set (bt_blks T ! i)) < unat (ip_numSets ?p)"
      using tags_inv_blk [OF assms i(1)] i(1) assms
      by (simp add: blk_ok_def tags_inv_def less_mult_imp_div_less)
    then obtain b where b: "tag_of ?p b = t_tag (bt_blks T ! i)" "set_of ?p b = e_set (bt_blks T ! i)"
      using address_of_entry [OF wf _ bound, of "t_tag (bt_blks T ! i)"] tags_inv_blk [OF assms i(1)] i(2)
      by (auto simp: blk_ok_def)
    have "regenerateBlkAddr i T = Inr (blk_align ?p b)"
      using regenerateAddr_Inr [OF wf, of "bt_blks T ! i" b] b i(1)
      by (simp add: regenerateBlkAddr_def TaggedEntry_getTag_def)
    then show ?thesis using b same_block_tag_set [OF assms, of b a] by auto
  qed
  then show ?thesis by (auto simp: resident_def)
qed

lemma tag_lookup_upd:
  assumes "tags_inv T" "tags_inv (upd_blk i b T)" "i < length (bt_blks T)"
    and "\<And>j a s. resident (upd_blk i b T) j a s \<longleftrightarrow> f a s = Some j"
  shows "tag_lookup (upd_blk i b T) a s = f a s"
  by (rule option_eqI) (simp add: tag_lookup_iff [OF assms(2)] assms(4))

section \<open>Operations\<close>

lemma insertBlock_spec:
  assumes "tags_inv T" "Packet_getAddr pkt = Inr a" "Packet_isSecure pkt = Inr s"
    and "tag_lookup T a s = None" "i \<in> set (set_ways T a)" "\<not> t_valid (bt_blks T ! i)"
  shows "\<exists>b. insertBlock now pkt i T = Inr (upd_blk i b T) \<and> tags_inv (upd_blk i b T) \<and>
    t_valid b \<and> b_coherence b = b_coherence (bt_blks T ! i) \<and>
    (\<forall>a' s'. tag_lookup (upd_blk i b T) a' s' =
      (if blk_align (bt_indexingPolicy T) a' = blk_align (bt_indexingPolicy T) a \<and> s' = s then Some i
       else tag_lookup T a' s'))"
proof -
  let ?p = "bt_indexingPolicy T"
  have wf: "Indexing_wf ?p" using assms(1) by (simp add: tags_inv_def)
  have i: "i < length (bt_blks T)" "e_set (bt_blks T ! i) = set_of ?p a"
    using assms(1,5) set_ways_iff by blast+
  note ok = tags_inv_blk [OF assms(1) i(1)]
  define b where "b = (bt_blks T ! i)\<lparr>t_valid := True, t_tag := tag_of ?p a, t_secure := s,
    b_srcRequestorId := ucast (Request_requestorId (p_req pkt)),
    b_taskId := Request_taskId (p_req pkt), b_tickInserted := now,
    b_refCount := b_refCount (bt_blks T ! i) + 1, e_replacementData := Some True\<rparr>"
  have r: "insertBlock now pkt i T = Inr (upd_blk i b T)"
    using assms(2,3,6) i(1) ok
    by (simp add: insertBlock_def BaseTags_insertBlock_def BaseTags_extractTag_def
        extractTag_Inr [OF wf] CacheBlk_insert_Inr blk_ok_def TaggedEntry_isValid_def Random_reset_def
        upd_blk_def b_def ex_bool_eq)
  have "blk_ok T i b"
    using ok tag_of_less [OF wf, of a] by (simp add: blk_ok_def b_def TaggedEntry_wf_def)
  moreover have "\<not> same_line b (bt_blks T ! j)" if "j < length (bt_blks T)" "j \<noteq> i" for j
  proof
    assume "same_line b (bt_blks T ! j)"
    then have "resident T j a s" using that i(2) by (auto simp: same_line_def b_def resident_def)
    then show False using assms(4) tag_lookup_iff [OF assms(1), of a s j] by simp
  qed
  ultimately have inv: "tags_inv (upd_blk i b T)" using upd_blk_inv assms(1) i(1) by blast
  have "resident (upd_blk i b T) j a' s' \<longleftrightarrow>
    (if blk_align ?p a' = blk_align ?p a \<and> s' = s then Some i else tag_lookup T a' s') = Some j" for j a' s'
    using assms(6) i tag_lookup_iff [OF assms(1)] tag_lookup_iff [OF assms(1), of a s] assms(4)
      same_block_tag_set [OF assms(1), of a' a]
    by (auto simp: upd_blk_resident [OF i(1)] b_def resident_def)
  from tag_lookup_upd [OF assms(1) inv i(1) this]
  have "tag_lookup (upd_blk i b T) a' s' =
    (if blk_align ?p a' = blk_align ?p a \<and> s' = s then Some i else tag_lookup T a' s')" for a' s' .
  with r inv show ?thesis by (intro exI [of _ b]) (simp add: b_def)
qed

lemma insertBlock_occupied:
  "i < length (bt_blks T) \<Longrightarrow> t_valid (bt_blks T ! i) \<Longrightarrow>
   insertBlock now pkt i T = Inl (AssertFail ''!blk->isValid()'')"
  by (simp add: insertBlock_def BaseTags_insertBlock_def TaggedEntry_isValid_def)

lemma invalidate_spec:
  assumes "tags_inv T" "tag_lookup T a s = Some i"
  shows "\<exists>b. BaseSetAssoc_invalidate (Some i) T = Inr (upd_blk i b T) \<and> tags_inv (upd_blk i b T) \<and>
    \<not> t_valid b \<and>
    (\<forall>a' s'. tag_lookup (upd_blk i b T) a' s' =
      (if blk_align (bt_indexingPolicy T) a' = blk_align (bt_indexingPolicy T) a \<and> s' = s then None
       else tag_lookup T a' s'))"
proof -
  let ?p = "bt_indexingPolicy T"
  have res: "resident T i a s" using assms tag_lookup_iff by blast
  then have i: "i < length (bt_blks T)" "t_valid (bt_blks T ! i)" by (simp_all add: resident_def)
  note ok = tags_inv_blk [OF assms(1) i(1)]
  define b where "b = (bt_blks T ! i)\<lparr>t_valid := False, t_tag := MaxAddr, t_secure := False,
    b_prefetched := False, b_coherence := b_coherence (bt_blks T ! i) AND NOT AllBits,
    b_taskId := Unknown_task, b_whenReady := MaxTick, b_refCount := 0,
    b_srcRequestorId := ucast invldRequestorId, b_lockList := [], e_replacementData := Some False\<rparr>"
  have b: "BaseSetAssoc_invalidate (Some i) T = Inr (upd_blk i b T)" "\<not> t_valid b"
    "\<not> t_secure b" "e_set b = e_set (bt_blks T ! i)" "e_replacementData b = Some False"
    using i ok
    by (simp_all add: BaseSetAssoc_invalidate_def BaseTags_invalidate_def TaggedEntry_isValid_def
        CacheBlk_invalidate_Inr Random_invalidate_def blk_ok_def upd_blk_def b_def ex_bool_eq)
  have inv: "tags_inv (upd_blk i b T)"
    using ok b by (intro upd_blk_inv [OF assms(1) i(1)]) (simp_all add: blk_ok_def TaggedEntry_wf_def same_line_def)
  have "resident T j a' s' \<and> j \<noteq> i \<longleftrightarrow>
    (if blk_align ?p a' = blk_align ?p a \<and> s' = s then None else tag_lookup T a' s') = Some j" for j a' s'
  proof (cases "blk_align ?p a' = blk_align ?p a \<and> s' = s")
    case True
    then have "resident T j a' s' \<Longrightarrow> j = i"
      using resident_unique [OF assms(1), of j a s i] res same_block_tag_set [OF assms(1)]
      by (simp add: resident_def)
    with True show ?thesis by auto
  next
    case False
    then have "\<not> resident T i a' s'"
      using res same_block_tag_set [OF assms(1)] by (auto simp: resident_def)
    with False show ?thesis using tag_lookup_iff [OF assms(1)] by auto
  qed
  moreover have "resident (upd_blk i b T) j a' s' \<longleftrightarrow> resident T j a' s' \<and> j \<noteq> i" for j a' s'
    using b(2) by (auto simp: upd_blk_resident [OF i(1)])
  ultimately have "resident (upd_blk i b T) j a' s' \<longleftrightarrow>
    (if blk_align ?p a' = blk_align ?p a \<and> s' = s then None else tag_lookup T a' s') = Some j" for j a' s'
    by simp
  from tag_lookup_upd [OF assms(1) inv i(1) this] b inv show ?thesis by blast
qed

lemma accessBlock_spec:
  assumes "tags_inv T" "Packet_getAddr pkt = Inr a" "Packet_isSecure pkt = Inr s"
  shows "\<exists>T'. accessBlock pkt T = Inr (tag_lookup T a s, bt_lookupLatency T, T') \<and> tags_inv T' \<and>
    bt_indexingPolicy T' = bt_indexingPolicy T \<and>
    (\<forall>a' s'. tag_lookup T' a' s' = tag_lookup T a' s') \<and>
    (\<forall>i < length (bt_blks T). b_coherence (bt_blks T' ! i) = b_coherence (bt_blks T ! i) \<and>
       t_valid (bt_blks T' ! i) = t_valid (bt_blks T ! i)) \<and>
    T' = (case tag_lookup T a s of None \<Rightarrow> T | Some i \<Rightarrow> upd_blk i (CacheBlk_increaseRefCount (bt_blks T ! i)) T)"
proof (cases "tag_lookup T a s")
  case None
  then show ?thesis using assms by (simp add: accessBlock_def findBlock_Inr)
next
  case (Some i)
  then have i: "i < length (bt_blks T)" using assms(1) tag_lookup_iff by (auto simp: resident_def)
  define b where "b = (bt_blks T ! i)\<lparr>b_refCount := b_refCount (bt_blks T ! i) + 1\<rparr>"
  have r: "accessBlock pkt T = Inr (Some i, bt_lookupLatency T, upd_blk i b T)"
    using assms Some by (simp add: accessBlock_def findBlock_Inr CacheBlk_increaseRefCount_def
        Random_touch_def upd_blk_def b_def)
  have inv: "tags_inv (upd_blk i b T)"
  proof (rule upd_blk_inv [OF assms(1) i])
    show "blk_ok T i b"
      using tags_inv_blk [OF assms(1) i] by (simp add: blk_ok_def b_def TaggedEntry_wf_def)
    show "\<not> same_line b (bt_blks T ! j)" if "j < length (bt_blks T)" "j \<noteq> i" for j
      using tags_inv_unique [OF assms(1) i that(1)] that(2) by (auto simp: b_def same_line_def)
  qed
  have "resident (upd_blk i b T) j a' s' \<longleftrightarrow> tag_lookup T a' s' = Some j" for j a' s'
    using i by (simp add: upd_blk_resident tag_lookup_iff [OF assms(1)] b_def resident_def)
  from tag_lookup_upd [OF assms(1) inv i this] r inv Some i show ?thesis by (simp add: b_def CacheBlk_increaseRefCount_def)
qed

lemma findVictim_spec:
  assumes "tags_inv T" "rnd < tassoc T"
  shows "\<exists>i. findVictim rnd a s sz T ev = Inr (Some i, ev @ [Some i]) \<and> i \<in> set (set_ways T a) \<and>
    ((\<exists>j \<in> set (set_ways T a). \<not> t_valid (bt_blks T ! j)) \<longrightarrow> \<not> t_valid (bt_blks T ! i))"
proof -
  let ?repl = "\<lambda>i. if i < length (bt_blks T) then e_replacementData (bt_blks T ! i) else None" and ?cs = "map Some (set_ways T a)"
  have repl: "?repl j = Some (t_valid (bt_blks T ! j))" if "j \<in> set (set_ways T a)" for j
    using tags_inv_blk [OF assms(1)] set_ways_less(1) [OF assms(1) that] by (simp add: blk_ok_def)
  have rnd: "rnd < length ?cs" using assms(2) by (simp add: set_ways_def Let_def)
  then obtain i where i: "Random_getVictim rnd ?repl ?cs = Inr (Some i)" "i \<in> set (set_ways T a)"
    using random_rp.victim_candidate [of ?cs rnd ?repl] repl by fastforce
  have "\<not> t_valid (bt_blks T ! i)" if "j \<in> set (set_ways T a)" "\<not> t_valid (bt_blks T ! j)" for j
    using random_rp.victim_free [OF i(1), of j] that repl i(2) by simp
  with i show ?thesis
    by (auto simp: findVictim_def possible_entries [OF assms(1)])
qed

section \<open>Initialisation\<close>

definition init_inv :: "nat \<Rightarrow> BaseSetAssoc \<Rightarrow> bool" where
  "init_inv k T \<longleftrightarrow>
     Indexing_wf (bt_indexingPolicy T) \<and>
     length (bt_blks T) = unat (ip_numSets (bt_indexingPolicy T)) * tassoc T \<and>
     (\<forall>j < length (bt_blks T). \<not> t_valid (bt_blks T ! j) \<and> \<not> t_secure (bt_blks T ! j)) \<and>
     (\<forall>j < k. ip_sets (bt_indexingPolicy T) ! (j div tassoc T) ! (j mod tassoc T) = Some j \<and>
        unat (e_set (bt_blks T ! j)) = j div tassoc T \<and> e_replacementData (bt_blks T ! j) = Some False)"

lemma init_inv_done: "init_inv (length (bt_blks T)) T \<Longrightarrow> tags_inv T"
  by (simp add: init_inv_def tags_inv_def blk_ok_def same_line_def TaggedEntry_wf_def)

lemma init_inv_empty:
  assumes "init_inv k T"
  shows "tag_lookup T a s = None"
proof -
  have "i < length (bt_blks T)" if i: "i \<in> set (set_ways T a)" for i
  proof -
    obtain w where "i = unat (set_of (bt_indexingPolicy T) a) * tassoc T + w" "w < tassoc T"
      using i by (auto simp: set_ways_def Let_def le_iff_add)
    then show ?thesis using assms row_less set_of_less by (simp add: init_inv_def)
  qed
  then show ?thesis
    using assms by (auto simp: tag_lookup_def find_None_iff init_inv_def TaggedEntry_matchTag_def
        TaggedEntry_isValid_def)
qed

lemma setEntry_Inr:
  assumes "Indexing_wf p" "k < unat (ip_numSets p) * unat (ip_assoc p)"
  shows "\<exists>st way. setEntry k (word_of_nat k) p e =
      Inr (p\<lparr>ip_sets := (ip_sets p)[k div unat (ip_assoc p) :=
        (ip_sets p ! (k div unat (ip_assoc p)))[k mod unat (ip_assoc p) := Some k]]\<rparr>, setPosition st way e) \<and>
    unat st = k div unat (ip_assoc p)"
proof -
  let ?A = "unat (ip_assoc p)" and ?N = "unat (ip_numSets p)"
  have A: "0 < ?A" using assms(1) by (simp add: Indexing_wf_def unat_gt_0 word_gt_0)
  have "?N * ?A < 2 ^ 32 * 2 ^ 32"
    using unat_u32_less [of "ip_numSets p"] unat_u32_less [of "ip_assoc p"] A
    by (intro mult_strict_mono) simp_all
  then have k: "unat (word_of_nat k :: u64) = k"
    using assms(2) by (simp add: unat_of_nat take_bit_nat_eq_self)
  have d: "k div ?A < ?N" using assms(2) by (simp add: less_mult_imp_div_less)
  have m: "k mod ?A < ?A" using A by simp
  have "unat (word_of_nat k div ucast (ip_assoc p) :: u64) = k div ?A"
    using k by (simp add: unat_div unat_ucast_u32)
  then have s: "unat (ucast (word_of_nat k div ucast (ip_assoc p) :: u64) :: u32) = k div ?A"
    using d unat_u32_less [of "ip_numSets p"] by (simp add: unsigned_ucast_eq take_bit_nat_eq_self)
  have "unat (word_of_nat k mod ucast (ip_assoc p) :: u64) = k mod ?A"
    using k by (simp add: unat_mod unat_ucast_u32)
  then have w: "unat (ucast (word_of_nat k mod ucast (ip_assoc p) :: u64) :: u32) = k mod ?A"
    using m unat_u32_less [of "ip_assoc p"] by (simp add: unsigned_ucast_eq take_bit_nat_eq_self)
  have "ip_assoc p \<noteq> 0" "k div ?A < length (ip_sets p)" "length (ip_sets p ! (k div ?A)) = ?A"
    using assms(1) d by (auto simp: Indexing_wf_def)
  with s w d m show ?thesis
    by (simp add: setEntry_def Let_def word_less_nat_alt) blast
qed

lemma tagsInit_loop_step:
  assumes "init_inv k T" "k < length (bt_blks T)"
  shows "\<exists>ip b. tagsInit_loop (Suc n) k T =
      tagsInit_loop n (Suc k) (T\<lparr>bt_indexingPolicy := ip, bt_blks := (bt_blks T)[k := b]\<rparr>) \<and>
    init_inv (Suc k) (T\<lparr>bt_indexingPolicy := ip, bt_blks := (bt_blks T)[k := b]\<rparr>) \<and>
    ip_tagShift ip = ip_tagShift (bt_indexingPolicy T) \<and>
    ip_setShift ip = ip_setShift (bt_indexingPolicy T)"
proof -
  let ?p = "bt_indexingPolicy T"
  have wf: "Indexing_wf ?p" and len: "k < unat (ip_numSets ?p) * tassoc T"
    using assms by (simp_all add: init_inv_def)
  have d: "k div tassoc T < length (ip_sets ?p)" "length (ip_sets ?p ! (k div tassoc T)) = tassoc T"
    using wf len by (auto simp: Indexing_wf_def less_mult_imp_div_less)
  have m: "k mod tassoc T < tassoc T" using len by (cases "tassoc T") simp_all
  obtain st way where se: "setEntry k (word_of_nat k) ?p (bt_blks T ! k) =
      Inr (?p\<lparr>ip_sets := (ip_sets ?p)[k div tassoc T := (ip_sets ?p ! (k div tassoc T))[k mod tassoc T := Some k]]\<rparr>,
        setPosition st way (bt_blks T ! k))" and st: "unat st = k div tassoc T"
    using setEntry_Inr [OF wf len] by blast
  define ip where "ip = ?p\<lparr>ip_sets := (ip_sets ?p)[k div tassoc T := (ip_sets ?p ! (k div tassoc T))[k mod tassoc T := Some k]]\<rparr>"
  define b where "b = (setPosition st way (bt_blks T ! k))
    \<lparr>b_data := ptr_add (bt_dataBlks T) (unat (bt_blkSize T * word_of_nat k)), e_replacementData := Some False\<rparr>"
  have r: "tagsInit_loop (Suc n) k T =
    tagsInit_loop n (Suc k) (T\<lparr>bt_indexingPolicy := ip, bt_blks := (bt_blks T)[k := b]\<rparr>)"
    using assms(2) se by (simp add: Random_instantiateEntry_def ip_def b_def)
  have "ip_sets ip ! (j div tassoc T) ! (j mod tassoc T) = Some j" if "j < Suc k" for j
  proof (cases "j = k")
    case True
    then show ?thesis using d m by (simp add: ip_def)
  next
    case False
    then have "ip_sets ?p ! (j div tassoc T) ! (j mod tassoc T) = Some j"
      using that assms(1) by (simp add: init_inv_def)
    moreover have "j div tassoc T \<noteq> k div tassoc T \<or> j mod tassoc T \<noteq> k mod tassoc T"
      using False by (metis div_mult_mod_eq)
    ultimately show ?thesis
      using d by (cases "j div tassoc T = k div tassoc T") (auto simp: ip_def nth_list_update)
  qed
  moreover have "Indexing_wf ip"
    using wf d by (auto simp: Indexing_wf_def ip_def nth_list_update)
  moreover have "unat (e_set b) = k div tassoc T" "\<not> t_valid b" "\<not> t_secure b"
    "e_replacementData b = Some False"
    using st assms by (simp_all add: b_def setPosition_def init_inv_def)
  ultimately have "init_inv (Suc k) (T\<lparr>bt_indexingPolicy := ip, bt_blks := (bt_blks T)[k := b]\<rparr>)"
    using assms by (auto simp: init_inv_def ip_def nth_list_update less_Suc_eq)
  with r show ?thesis by (intro exI [of _ ip] exI [of _ b]) (simp add: ip_def)
qed

lemma tagsInit_loop_inv:
  assumes "init_inv k T" "k + n = length (bt_blks T)"
  shows "\<exists>T'. tagsInit_loop n k T = Inr T' \<and> init_inv (length (bt_blks T')) T' \<and>
    ip_tagShift (bt_indexingPolicy T') = ip_tagShift (bt_indexingPolicy T) \<and>
    ip_setShift (bt_indexingPolicy T') = ip_setShift (bt_indexingPolicy T)"
  using assms
proof (induction n arbitrary: k T)
  case 0
  then show ?case by simp
next
  case (Suc n)
  then have "k < length (bt_blks T)" by simp
  from tagsInit_loop_step [OF Suc.prems(1) this, of n] obtain ip b where
    s: "tagsInit_loop (Suc n) k T =
      tagsInit_loop n (Suc k) (T\<lparr>bt_indexingPolicy := ip, bt_blks := (bt_blks T)[k := b]\<rparr>)"
    "init_inv (Suc k) (T\<lparr>bt_indexingPolicy := ip, bt_blks := (bt_blks T)[k := b]\<rparr>)"
    "ip_tagShift ip = ip_tagShift (bt_indexingPolicy T)" "ip_setShift ip = ip_setShift (bt_indexingPolicy T)"
    by blast
  from Suc.IH [OF s(2)] Suc.prems(2) show ?case unfolding s(1) using s(3,4) by simp
qed

lemma CacheBlk_new_fields:
  "\<exists>b. CacheBlk_new junk = Inr b \<and> \<not> t_valid b \<and> \<not> t_secure b"
  by (simp add: CacheBlk_new_def CacheBlk_invalidate_Inr)

lemma mapR_all:
  "(\<And>x. x \<in> set xs \<Longrightarrow> \<exists>y. f x = Inr y \<and> P y) \<Longrightarrow>
   \<exists>ys. mapR f xs = Inr ys \<and> length ys = length xs \<and> (\<forall>y \<in> set ys. P y)"
  by (induction xs) fastforce+

lemma scast_power2: "s < 31 \<Longrightarrow> (scast (2 ^ s :: u32) :: u64) = 2 ^ s"
  by (rule bit_word_eqI) (auto simp: bit_simps bit_signed_iff min_def)

lemma BaseSetAssoc_built:
  assumes "tp_block_size p = 2 ^ s" "s < 31" "tp_replacement_policy p"
    and "tp_indexing_policy p = Some ip" "Indexing_wf ip" "ip_setShift ip = s"
    and "unat (tp_size p) = 2 ^ s * (unat (ip_numSets ip) * unat (ip_assoc ip))"
    and "unat (ip_numSets ip) * unat (ip_assoc ip) < 2 ^ 32"
  shows "\<exists>T T'. BaseSetAssoc_new junk dat p = Inr T \<and> tagsInit T = Inr T' \<and> tags_inv T' \<and>
    ip_setShift (bt_indexingPolicy T') = s \<and> (\<forall>a sec. tag_lookup T' a sec = None)"
proof -
  let ?n = "unat (ip_numSets ip) * unat (ip_assoc ip)"
  let ?m = "tp_size p div scast (tp_block_size p)"
  have u: "unat (2 ^ s :: u64) = 2 ^ s" using assms(2) unat_exp_eq [of s, where ?'a = 64] by simp
  then have m: "unat ?m = ?n"
    using assms(1,2,7) by (simp add: scast_power2 unat_div)
  then have mu: "unat (ucast ?m :: u32) = ?n"
    using assms(8) by (simp add: unsigned_ucast_eq take_bit_nat_eq_self)
  obtain bs where bs: "mapR (\<lambda>i. CacheBlk_new (junk i)) [0..<unat ?m] = Inr bs"
    "length bs = ?n" "\<forall>b \<in> set bs. \<not> t_valid b \<and> \<not> t_secure b"
    using mapR_all [of "[0..<unat ?m]" "\<lambda>i. CacheBlk_new (junk i)" "\<lambda>b. \<not> t_valid b \<and> \<not> t_secure b"]
      CacheBlk_new_fields m by fastforce
  have "tp_block_size p \<noteq> 0"
    using assms(1,2) unat_exp_eq [of s, where ?'a = 32] by (auto simp: word_unat_eq_iff)
  moreover have "(ucast (2 ^ s :: u32) :: u64) = 2 ^ s"
    using assms(2) by (intro bit_word_eqI) (auto simp: bit_simps)
  then have "isPowerOf2 (ucast (tp_block_size p))"
    using assms(1,2) by (simp add: isPowerOf2_iff) (rule exI [of _ s], simp)
  ultimately obtain T where T: "BaseSetAssoc_new junk dat p = Inr T" "bt_indexingPolicy T = ip"
    "bt_blks T = bs" "bt_numBlocks T = ucast ?m"
    using assms(3,4) bs(1) by (simp add: BaseSetAssoc_new_def Let_def)
  have "init_inv 0 T" using assms(5) T bs(2,3) by (simp add: init_inv_def)
  from tagsInit_loop_inv [OF this, of ?n] T bs(2) mu obtain T' where
    "tagsInit T = Inr T'" "init_inv (length (bt_blks T')) T'"
    "ip_setShift (bt_indexingPolicy T') = s"
    using assms(6) by (auto simp: tagsInit_def)
  with T(1) show ?thesis using init_inv_done init_inv_empty by blast
qed

text \<open>A store of 4 KiB with two ways of 64-byte blocks, the one the concrete examples use.\<close>

lemma sample_store:
  "\<exists>ip T T'. BaseIndexingPolicy_new \<lparr>ipp_assoc = 2, ipp_entry_size = 64, ipp_size = 4096\<rparr> = Inr ip \<and>
    BaseSetAssoc_new (\<lambda>_. ((0, 0), 0)) (Ptr 0 0)
      \<lparr>tp_block_size = 64, tp_size = 4096, tp_sequential_access = False, tp_tag_latency = 1,
       tp_assoc = 2, tp_indexing_policy = Some ip, tp_replacement_policy = True\<rparr> = Inr T \<and>
    tagsInit T = Inr T' \<and> tags_inv T' \<and> ip_setShift (bt_indexingPolicy T') = 6 \<and>
    (\<forall>a sec. tag_lookup T' a sec = None)"
proof -
  obtain ip where ip: "BaseIndexingPolicy_new \<lparr>ipp_assoc = 2, ipp_entry_size = 64, ipp_size = 4096\<rparr> = Inr ip"
    "Indexing_wf ip" "ip_assoc ip = 2" "ip_setShift ip = 6" "ip_numSets ip = 2 ^ 5"
    using BaseIndexingPolicy_new_wf [of "\<lparr>ipp_assoc = 2, ipp_entry_size = 64, ipp_size = 4096\<rparr>" 6 5]
    by auto
  then show ?thesis
    using BaseSetAssoc_built [of "\<lparr>tp_block_size = 64, tp_size = 4096, tp_sequential_access = False,
        tp_tag_latency = 1, tp_assoc = 2, tp_indexing_policy = Some ip, tp_replacement_policy = True\<rparr>"
        6 ip "\<lambda>_. ((0, 0), 0)" "Ptr 0 0"] by simp
qed

section \<open>The interface of a tag store\<close>

text \<open>
  What the cache relies on: an abstract map from addresses and security spaces to slots, a victim
  among the slots an address may use, which is free when one of them is, and the effect of
  filling a free slot and of dropping an occupied one on that map.
\<close>

locale tag_store =
  fixes inv :: "'t \<Rightarrow> bool"
    and lookup :: "'t \<Rightarrow> Addr \<Rightarrow> bool \<Rightarrow> nat option"
    and align :: "'t \<Rightarrow> Addr \<Rightarrow> Addr"
    and slot :: "'t \<Rightarrow> Addr \<Rightarrow> nat \<Rightarrow> bool"
    and free :: "'t \<Rightarrow> nat \<Rightarrow> bool"
    and draw :: "'t \<Rightarrow> nat \<Rightarrow> bool"
    and victim :: "nat \<Rightarrow> Addr \<Rightarrow> 't \<Rightarrow> nat option result"
    and fill :: "Packet \<Rightarrow> nat \<Rightarrow> 't \<Rightarrow> 't result"
    and drop_blk :: "nat \<Rightarrow> 't \<Rightarrow> 't result"
  assumes victim_slot: "inv T \<Longrightarrow> draw T rnd \<Longrightarrow> \<exists>i. victim rnd a T = Inr (Some i) \<and> slot T a i"
    and victim_free: "inv T \<Longrightarrow> draw T rnd \<Longrightarrow> victim rnd a T = Inr (Some i) \<Longrightarrow> slot T a j \<Longrightarrow>
      free T j \<Longrightarrow> free T i"
    and occupied: "inv T \<Longrightarrow> slot T a i \<Longrightarrow> \<not> free T i \<Longrightarrow> \<exists>b s. lookup T b s = Some i"
    and fill_free: "inv T \<Longrightarrow> slot T a i \<Longrightarrow> free T i \<Longrightarrow> lookup T a s = None \<Longrightarrow>
      Packet_getAddr pkt = Inr a \<Longrightarrow> Packet_isSecure pkt = Inr s \<Longrightarrow>
      \<exists>T'. fill pkt i T = Inr T' \<and> inv T' \<and> align T' = align T \<and>
        (\<forall>b s'. lookup T' b s' = (if align T b = align T a \<and> s' = s then Some i else lookup T b s'))"
    and fill_occupied: "inv T \<Longrightarrow> slot T a i \<Longrightarrow> \<not> free T i \<Longrightarrow> \<exists>e. fill pkt i T = Inl e"
    and drop_occupied: "inv T \<Longrightarrow> lookup T a s = Some i \<Longrightarrow>
      \<exists>T'. drop_blk i T = Inr T' \<and> inv T' \<and> free T' i \<and> align T' = align T \<and>
        (\<forall>b. slot T' b = slot T b) \<and>
        (\<forall>b s'. lookup T' b s' = (if align T b = align T a \<and> s' = s then None else lookup T b s'))"
begin

definition place :: "Packet \<Rightarrow> nat \<Rightarrow> 't \<Rightarrow> 't result" where
  "place pkt i T = (if free T i then fill pkt i T else bindR (drop_blk i T) (fill pkt i))"

lemma place_hit:
  assumes "inv T" "draw T rnd" "lookup T a s = None"
    and "Packet_getAddr pkt = Inr a" "Packet_isSecure pkt = Inr s"
  shows "\<exists>i T'. victim rnd a T = Inr (Some i) \<and> place pkt i T = Inr T' \<and> inv T' \<and>
    lookup T' a s = Some i \<and>
    (\<forall>b s' j. lookup T' b s' = Some j \<longrightarrow> align T b = align T a \<and> s' = s \<or> lookup T b s' = Some j)"
proof -
  obtain i where i: "victim rnd a T = Inr (Some i)" "slot T a i"
    using victim_slot assms(1,2) by blast
  show ?thesis
  proof (cases "free T i")
    case True
    from fill_free [OF assms(1) i(2) True assms(3-5)] show ?thesis
      using True i(1) by (fastforce simp: place_def)
  next
    case False
    then obtain b s' where b: "lookup T b s' = Some i" using occupied assms(1) i(2) by blast
    obtain T1 where T1: "drop_blk i T = Inr T1" "inv T1" "free T1 i" "align T1 = align T"
      "\<And>b. slot T1 b = slot T b"
      "\<And>c s''. lookup T1 c s'' = (if align T c = align T b \<and> s'' = s' then None else lookup T c s'')"
      using drop_occupied [OF assms(1) b] by blast
    have n: "lookup T1 a s = None" using T1(6) assms(3) by simp
    obtain T2 where "fill pkt i T1 = Inr T2" "inv T2"
      "\<And>c s''. lookup T2 c s'' = (if align T1 c = align T1 a \<and> s'' = s then Some i else lookup T1 c s'')"
      using fill_free [OF T1(2) _ T1(3) n assms(4,5)] i(2) T1(5) by auto
    then show ?thesis using False i(1) T1 by (fastforce simp: place_def split: if_splits)
  qed
qed

lemma fill_without_drop_stops:
  assumes "inv T" "draw T rnd" "victim rnd a T = Inr (Some i)" "\<forall>j. slot T a j \<longrightarrow> \<not> free T j"
  shows "\<exists>e. fill pkt i T = Inl e"
  using victim_slot [OF assms(1,2), of a] fill_occupied [OF assms(1)] assms(3,4) by auto

end

definition victim_of :: "nat \<Rightarrow> Addr \<Rightarrow> BaseSetAssoc \<Rightarrow> nat option result" where
  "victim_of rnd a T = bindR (findVictim rnd a False 0 T []) (\<lambda>(v, ev). Inr v)"

interpretation sets: tag_store tags_inv tag_lookup "\<lambda>T. blk_align (bt_indexingPolicy T)"
  "\<lambda>T a i. i \<in> set (set_ways T a)" "\<lambda>T i. \<not> t_valid (bt_blks T ! i)" "\<lambda>T rnd. rnd < tassoc T"
  victim_of "insertBlock now" "\<lambda>i. BaseSetAssoc_invalidate (Some i)" for now
proof
  fix T :: BaseSetAssoc and rnd i j :: nat and a :: Addr and s :: bool and pkt :: Packet
  assume inv: "tags_inv T"
  show "\<exists>i. victim_of rnd a T = Inr (Some i) \<and> i \<in> set (set_ways T a)" if "rnd < tassoc T"
    using findVictim_spec [OF inv that, of a False 0 "[]"] by (auto simp: victim_of_def)
  show "\<not> t_valid (bt_blks T ! i)"
    if "rnd < tassoc T" "victim_of rnd a T = Inr (Some i)" "j \<in> set (set_ways T a)" "\<not> t_valid (bt_blks T ! j)"
    using findVictim_spec [OF inv that(1), of a False 0 "[]"] that(2-4) by (auto simp: victim_of_def)
  show "\<exists>T'. insertBlock now pkt i T = Inr T' \<and> tags_inv T' \<and>
      blk_align (bt_indexingPolicy T') = blk_align (bt_indexingPolicy T) \<and>
      (\<forall>b s'. tag_lookup T' b s' = (if blk_align (bt_indexingPolicy T) b = blk_align (bt_indexingPolicy T) a \<and> s' = s
         then Some i else tag_lookup T b s'))"
    if "i \<in> set (set_ways T a)" "\<not> t_valid (bt_blks T ! i)" "tag_lookup T a s = None"
      "Packet_getAddr pkt = Inr a" "Packet_isSecure pkt = Inr s"
    using insertBlock_spec [OF inv that(4,5,3,1,2)] by (metis upd_blk_simps(1))
  show "\<exists>e. insertBlock now pkt i T = Inl e" if "i \<in> set (set_ways T a)" "\<not> \<not> t_valid (bt_blks T ! i)"
    using insertBlock_occupied set_ways_less(1) [OF inv that(1)] that(2) by blast
  show "\<exists>T'. BaseSetAssoc_invalidate (Some i) T = Inr T' \<and> tags_inv T' \<and> \<not> t_valid (bt_blks T' ! i) \<and>
      blk_align (bt_indexingPolicy T') = blk_align (bt_indexingPolicy T) \<and>
      (\<forall>b. (\<lambda>i. i \<in> set (set_ways T' b)) = (\<lambda>i. i \<in> set (set_ways T b))) \<and>
      (\<forall>b s'. tag_lookup T' b s' = (if blk_align (bt_indexingPolicy T) b = blk_align (bt_indexingPolicy T) a \<and> s' = s
         then None else tag_lookup T b s'))" if l: "tag_lookup T a s = Some i"
  proof -
    have "i < length (bt_blks T)" using l tag_lookup_iff [OF inv] by (simp add: resident_def)
    then show ?thesis using invalidate_spec [OF inv l] by (fastforce simp: set_ways_def)
  qed
next
  fix T :: BaseSetAssoc and i :: nat and a :: Addr
  assume inv: "tags_inv T" and i: "i \<in> set (set_ways T a)" "\<not> \<not> t_valid (bt_blks T ! i)"
  let ?p = "bt_indexingPolicy T"
  have l: "i < length (bt_blks T)" "e_set (bt_blks T ! i) = set_of ?p a"
    using set_ways_iff [OF inv] i(1) by blast+
  obtain b where "tag_of ?p b = t_tag (bt_blks T ! i)" "set_of ?p b = e_set (bt_blks T ! i)"
    using address_of_entry [of ?p "t_tag (bt_blks T ! i)" "e_set (bt_blks T ! i)"] inv i(2)
      tags_inv_blk [OF inv l(1)] set_of_less [of ?p a] l(2) by (auto simp: tags_inv_def blk_ok_def)
  then have "resident T i b (t_secure (bt_blks T ! i))" using l(1) i(2) by (simp add: resident_def)
  then show "\<exists>b s. tag_lookup T b s = Some i" using tag_lookup_iff [OF inv] by blast
qed

section \<open>Properties\<close>

text \<open>
  C12: constructing the tag store over a well-formed set-associative indexing policy and running
  \<open>tagsInit\<close> returns (no assertion fails and no index leaves its table), establishes the store
  invariant, and every lookup in the fresh store misses.
\<close>

theorem tagsInit_establishes:
  assumes "tp_block_size p = 2 ^ s" "s < 31" "tp_replacement_policy p"
    and "tp_indexing_policy p = Some ip" "Indexing_wf ip" "ip_setShift ip = s"
    and "unat (tp_size p) = 2 ^ s * (unat (ip_numSets ip) * unat (ip_assoc ip))"
    and "unat (ip_numSets ip) * unat (ip_assoc ip) < 2 ^ 32"
  shows "\<exists>T T'. BaseSetAssoc_new junk dat p = Inr T \<and> tagsInit T = Inr T' \<and> tags_inv T' \<and>
    (\<forall>a sec. findBlock a sec T' = Inr None)"
  using BaseSetAssoc_built [OF assms, of junk dat] by (auto simp: findBlock_Inr)

theorem tagsInit_establishes_witness:
  "\<exists>ip T T'. BaseIndexingPolicy_new \<lparr>ipp_assoc = 2, ipp_entry_size = 64, ipp_size = 4096\<rparr> = Inr ip \<and>
    BaseSetAssoc_new (\<lambda>_. ((0, 0), 0)) (Ptr 0 0)
      \<lparr>tp_block_size = 64, tp_size = 4096, tp_sequential_access = False, tp_tag_latency = 1,
       tp_assoc = 2, tp_indexing_policy = Some ip, tp_replacement_policy = True\<rparr> = Inr T \<and>
    tagsInit T = Inr T' \<and> findBlock 0x1240 False T' = Inr None"
proof -
  obtain ip where ip: "BaseIndexingPolicy_new \<lparr>ipp_assoc = 2, ipp_entry_size = 64, ipp_size = 4096\<rparr> = Inr ip"
    "Indexing_wf ip" "ip_assoc ip = 2" "ip_setShift ip = 6" "ip_numSets ip = 2 ^ 5"
    using BaseIndexingPolicy_new_wf [of "\<lparr>ipp_assoc = 2, ipp_entry_size = 64, ipp_size = 4096\<rparr>" 6 5]
    by auto
  then show ?thesis
    using tagsInit_establishes [of "\<lparr>tp_block_size = 64, tp_size = 4096, tp_sequential_access = False,
        tp_tag_latency = 1, tp_assoc = 2, tp_indexing_policy = Some ip, tp_replacement_policy = True\<rparr>"
        6 ip "\<lambda>_. ((0, 0), 0)" "Ptr 0 0"] by auto
qed

text \<open>
  C1: in a store that satisfies the invariant, \<open>findBlock\<close> always returns, and returns a block
  exactly when that block is valid, lies in the requested security space, and has the
  block-aligned address as the address \<open>regenerateBlkAddr\<close> computes for it; there is at most one.
\<close>

theorem findBlock_exact:
  assumes "tags_inv T"
  shows "\<exists>r. findBlock a s T = Inr r \<and>
    (\<forall>i. r = Some i \<longleftrightarrow> i < length (bt_blks T) \<and> t_valid (bt_blks T ! i) \<and> t_secure (bt_blks T ! i) = s \<and>
       regenerateBlkAddr i T = Inr (blk_align (bt_indexingPolicy T) a))"
  using findBlock_Inr [OF assms] tag_lookup_iff [OF assms] resident_address [OF assms] by auto

theorem findBlock_exact_witness:
  "\<exists>T. tags_inv T \<and> (\<exists>r. findBlock 0x1240 False T = Inr r \<and>
    (\<forall>i. r = Some i \<longleftrightarrow> i < length (bt_blks T) \<and> t_valid (bt_blks T ! i) \<and> t_secure (bt_blks T ! i) = False \<and>
       regenerateBlkAddr i T = Inr (blk_align (bt_indexingPolicy T) 0x1240)))"
proof -
  obtain T where "tags_inv T" using sample_store by blast
  from findBlock_exact [OF this, of "0x1240" False] this show ?thesis by blast
qed

text \<open>
  C9: \<open>insertBlock\<close> into an invalid way of the address's set, for an address that misses, returns,
  keeps the invariant and refines an update of the address map: afterwards every address of the
  inserted block in its security space is found in that way, and every other lookup returns what
  it returned before.
\<close>

theorem insertBlock_refines_update:
  assumes "tags_inv T" "Packet_getAddr pkt = Inr a" "Packet_isSecure pkt = Inr s"
    and "findBlock a s T = Inr None" "i \<in> set (set_ways T a)" "\<not> t_valid (bt_blks T ! i)"
  shows "\<exists>T'. insertBlock now pkt i T = Inr T' \<and> tags_inv T' \<and>
    (\<forall>a' s'. findBlock a' s' T' =
      (if blk_align (bt_indexingPolicy T) a' = blk_align (bt_indexingPolicy T) a \<and> s' = s then Inr (Some i)
       else findBlock a' s' T))"
proof -
  have "tag_lookup T a s = None" using assms(1,4) by (simp add: findBlock_Inr)
  from insertBlock_spec [OF assms(1-3) this assms(5,6), of now] show ?thesis
    using assms(1) by (auto simp: findBlock_Inr)
qed

theorem insertBlock_refines_update_witness:
  "\<exists>T T' i. tags_inv T \<and> insertBlock 0 (sample_packet ReadReq (Request_new 0x1240 8 0 1)) i T = Inr T' \<and>
    findBlock 0x1278 False T' = Inr (Some i)"
proof -
  obtain T where T: "tags_inv T" "ip_setShift (bt_indexingPolicy T) = 6" "\<And>a s. tag_lookup T a s = None"
    using sample_store by blast
  have "0 < tassoc T" using T(1) by (rule tags_inv_assoc)
  then obtain i where i: "i \<in> set (set_ways T 0x1240)"
    using findVictim_spec [OF T(1), of 0] by blast
  have "\<not> t_valid (bt_blks T ! i)"
    using sets.occupied [OF T(1) i] T(3) by fastforce
  moreover have "blk_align (bt_indexingPolicy T) 0x1278 = blk_align (bt_indexingPolicy T) 0x1240"
    by (simp add: blk_align_def T(2) mask_eq_exp_minus_1)
  moreover have "Packet_getAddr (sample_packet ReadReq (Request_new 0x1240 8 0 1)) = Inr 0x1240"
    "findBlock 0x1240 False T = Inr None"
    using T by (simp_all add: Request_new_def findBlock_Inr)
  ultimately obtain T' where
    "insertBlock 0 (sample_packet ReadReq (Request_new 0x1240 8 0 1)) i T = Inr T'"
    "findBlock 0x1278 False T' = Inr (Some i)"
    using insertBlock_refines_update [OF T(1), of "sample_packet ReadReq (Request_new 0x1240 8 0 1)"
        "0x1240" False i 0] i by auto
  then show ?thesis using T(1) by blast
qed

text \<open>
  C11: invalidating the block that holds an address returns, keeps the invariant and removes exactly
  that block from the address map: the address misses afterwards and every other lookup is
  unchanged.
\<close>

theorem invalidate_refines_removal:
  assumes "tags_inv T" "findBlock a s T = Inr (Some i)"
  shows "\<exists>T'. BaseSetAssoc_invalidate (Some i) T = Inr T' \<and> tags_inv T' \<and>
    (\<forall>a' s'. findBlock a' s' T' =
      (if blk_align (bt_indexingPolicy T) a' = blk_align (bt_indexingPolicy T) a \<and> s' = s then Inr None
       else findBlock a' s' T))"
  using invalidate_spec [OF assms(1), of a s i] assms by (auto simp: findBlock_Inr)

theorem invalidate_refines_removal_witness:
  "\<exists>T i T'. tags_inv T \<and> findBlock 0x1240 False T = Inr (Some i) \<and>
    BaseSetAssoc_invalidate (Some i) T = Inr T' \<and> findBlock 0x1240 False T' = Inr None"
proof -
  obtain T0 where T0: "tags_inv T0" "\<And>a s. tag_lookup T0 a s = None" using sample_store by blast
  obtain i T where T: "tags_inv T" "tag_lookup T 0x1240 False = Some i"
    using sets.place_hit [where now = 0, OF T0(1) tags_inv_assoc [OF T0(1)] T0(2), of
        "sample_packet ReadReq (Request_new 0x1240 8 0 1)" "0x1240" False] by (auto simp: Request_new_def)
  then show ?thesis using invalidate_refines_removal [OF T(1), of "0x1240" False i] by (auto simp: findBlock_Inr)
qed

text \<open>
  C10: replacing a block as the tag store's interface intends: for any drawn number the victim is a
  way of the address's set and is invalid whenever a way of it is; invalidating the victim if
  needed and inserting always succeeds, after which the address hits in the victim and every other
  hit was a hit before. Inserting over a valid victim without invalidating it aborts.
\<close>

theorem replacement_cycle:
  assumes "tags_inv T" "rnd < tassoc T" "findBlock a s T = Inr None"
    and "Packet_getAddr pkt = Inr a" "Packet_isSecure pkt = Inr s"
  shows "\<exists>i T'. findVictim rnd a s sz T [] = Inr (Some i, [Some i]) \<and>
    ((\<exists>j \<in> set (set_ways T a). \<not> t_valid (bt_blks T ! j)) \<longrightarrow> \<not> t_valid (bt_blks T ! i)) \<and>
    (if t_valid (bt_blks T ! i)
     then insertBlock now pkt i T = Inl (AssertFail ''!blk->isValid()'') \<and>
       bindR (BaseSetAssoc_invalidate (Some i) T) (insertBlock now pkt i) = Inr T'
     else insertBlock now pkt i T = Inr T') \<and>
    tags_inv T' \<and> findBlock a s T' = Inr (Some i) \<and>
    (\<forall>a' s' j. findBlock a' s' T' = Inr (Some j) \<longrightarrow>
       blk_align (bt_indexingPolicy T) a' = blk_align (bt_indexingPolicy T) a \<and> s' = s \<or>
       findBlock a' s' T = Inr (Some j))"
proof -
  obtain i where i: "findVictim rnd a s sz T [] = Inr (Some i, [Some i])" "i \<in> set (set_ways T a)"
    "(\<exists>j \<in> set (set_ways T a). \<not> t_valid (bt_blks T ! j)) \<longrightarrow> \<not> t_valid (bt_blks T ! i)"
    using findVictim_spec [OF assms(1,2), of a s sz "[]"] by auto
  have v: "victim_of rnd a T = Inr (Some i)"
    using i(1) by (auto simp: victim_of_def findVictim_def)
  have n: "tag_lookup T a s = None" using assms(1,3) by (simp add: findBlock_Inr)
  obtain T' where T': "sets.place now pkt i T = Inr T'" "tags_inv T'" "tag_lookup T' a s = Some i"
    "\<And>b s' j. tag_lookup T' b s' = Some j \<Longrightarrow>
      blk_align (bt_indexingPolicy T) b = blk_align (bt_indexingPolicy T) a \<and> s' = s \<or> tag_lookup T b s' = Some j"
    using sets.place_hit [OF assms(1,2) n assms(4,5), of now] v by auto
  have "i < length (bt_blks T)" using set_ways_less(1) [OF assms(1) i(2)] .
  then have "if t_valid (bt_blks T ! i)
     then insertBlock now pkt i T = Inl (AssertFail ''!blk->isValid()'') \<and>
       bindR (BaseSetAssoc_invalidate (Some i) T) (insertBlock now pkt i) = Inr T'
     else insertBlock now pkt i T = Inr T'"
    using T'(1) insertBlock_occupied by (auto simp: sets.place_def)
  with i T'(2-4) show ?thesis
    by (intro exI [of _ i] exI [of _ T']) (auto simp: findBlock_Inr assms(1))
qed

theorem replacement_cycle_witness:
  "\<exists>T i T'. tags_inv T \<and> findVictim 0 0x1240 False 64 T [] = Inr (Some i, [Some i]) \<and>
    insertBlock 0 (sample_packet ReadReq (Request_new 0x1240 8 0 1)) i T = Inr T' \<and>
    findBlock 0x1240 False T' = Inr (Some i)"
proof -
  obtain T where T: "tags_inv T" "\<And>a s. tag_lookup T a s = None"
    using sample_store by blast
  let ?pkt = "sample_packet ReadReq (Request_new 0x1240 8 0 1)"
  have "Packet_getAddr ?pkt = Inr 0x1240" "Packet_isSecure ?pkt = Inr False" "findBlock 0x1240 False T = Inr None"
    using T by (simp_all add: Request_new_def findBlock_Inr)
  from replacement_cycle [OF T(1) tags_inv_assoc [OF T(1)] this(3,1,2), of 64 0] obtain i T' where
    i: "findVictim 0 0x1240 False 64 T [] = Inr (Some i, [Some i])"
    "(\<exists>j \<in> set (set_ways T 0x1240). \<not> t_valid (bt_blks T ! j)) \<longrightarrow> \<not> t_valid (bt_blks T ! i)"
    "if t_valid (bt_blks T ! i)
     then insertBlock 0 ?pkt i T = Inl (AssertFail ''!blk->isValid()'') \<and>
       bindR (BaseSetAssoc_invalidate (Some i) T) (insertBlock 0 ?pkt i) = Inr T'
     else insertBlock 0 ?pkt i T = Inr T'"
    "findBlock 0x1240 False T' = Inr (Some i)" by blast
  have f: "\<not> t_valid (bt_blks T ! j)" if "j \<in> set (set_ways T 0x1240)" for j
    using sets.occupied [OF T(1) that] T(2) by fastforce
  obtain k where "k \<in> set (set_ways T 0x1240)"
    using findVictim_spec [OF T(1) tags_inv_assoc [OF T(1)]] by blast
  then have "\<not> t_valid (bt_blks T ! i)" using i(2) f by blast
  then show ?thesis using i T(1) by auto
qed

text \<open>
  The allocation limit cannot be set: \<open>setWayAllocationMax\<close> asserts that the number of ways is
  below one, so every positive limit aborts.
\<close>

theorem setWayAllocationMax_rejects:
  "setWayAllocationMax ways T = Inl (AssertFail ''ways < 1'') \<longleftrightarrow> 0 < ways"
  by (simp add: setWayAllocationMax_def check_def)

end
