(* ===== verification/Cache_Queue.thy ===== *)
theory Cache_Queue
  imports Cache_Blk
begin

text \<open>
  \<open>cache/include/cache_queue_entry.h\<close> and the template \<open>Queue<Entry>\<close> of
  \<open>cache/include/cache_queue.h\<close>: a pool of entries with a free list, the list of allocated
  entries and the list of ready ones, ordered by ready time. An entry pointer is the index of the
  entry in the pool, so that erasing at an entry's stored iterator is removing its index, which is
  undefined when the entry is not in the list. The virtual members of the entry class are
  parameters; the locale \<open>queue_entry\<close> states what the queue relies on of them.
\<close>

section \<open>Definitions\<close>

record QueueEntry =
  qe_readyTime :: Tick
  qe_isUncacheable :: bool
  qe_inService :: bool
  qe_order :: Counter
  qe_blkAddr :: Addr
  qe_blkSize :: u32
  qe_isSecure :: bool

record QTarget =
  tg_recvTime :: Tick
  tg_readyTime :: Tick
  tg_order :: Counter
  tg_pkt :: Packet

definition QTarget_new :: "Tick \<Rightarrow> Packet \<Rightarrow> Tick \<Rightarrow> Counter \<Rightarrow> QTarget" where
  "QTarget_new now pkt ready_time order =
     \<lparr>tg_recvTime = now, tg_readyTime = ready_time, tg_order = order, tg_pkt = pkt\<rparr>"

definition QueueEntry_new :: QueueEntry where
  "QueueEntry_new =
     \<lparr>qe_readyTime = 0, qe_isUncacheable = False, qe_inService = False, qe_order = 0,
      qe_blkAddr = 0, qe_blkSize = 0, qe_isSecure = False\<rparr>"

definition QueueEntry_isUncacheable :: "'a QueueEntry_scheme \<Rightarrow> bool" where
  "QueueEntry_isUncacheable e = qe_isUncacheable e"

record 'e Queue =
  q_numEntries :: int
  q_numReserve :: int
  q_entries :: "'e list"
  q_allocatedList :: "nat list"
  q_readyList :: "nat list"
  q_freeList :: "nat list"
  q_numInService :: int
  q_allocated :: int

abbreviation entry_at :: "'e Queue \<Rightarrow> nat \<Rightarrow> 'e" where
  "entry_at q i \<equiv> q_entries q ! i"

definition set_entry :: "nat \<Rightarrow> 'e \<Rightarrow> 'e Queue \<Rightarrow> 'e Queue" where
  "set_entry i e q = q\<lparr>q_entries := (q_entries q)[i := e]\<rparr>"

definition Queue_new :: "'e \<Rightarrow> int \<Rightarrow> int \<Rightarrow> 'e Queue" where
  "Queue_new entry num_entries reserve =
     (let n = nat (num_entries + reserve)
      in \<lparr>q_numEntries = num_entries + reserve, q_numReserve = reserve,
          q_entries = replicate n entry, q_allocatedList = [], q_readyList = [],
          q_freeList = [0..<n], q_numInService = 0, q_allocated = 0\<rparr>)"

fun addToReadyList_loop :: "(nat \<Rightarrow> Tick) \<Rightarrow> nat \<Rightarrow> nat list \<Rightarrow> nat list result" where
  "addToReadyList_loop rt e [] = Inl (AssertFail ''0'')"
| "addToReadyList_loop rt e (i # is) =
     (if rt i > rt e then Inr (e # i # is)
      else bindR (addToReadyList_loop rt e is) (\<lambda>is. Inr (i # is)))"

definition addToReadyList ::
    "nat \<Rightarrow> 'a QueueEntry_scheme Queue \<Rightarrow> 'a QueueEntry_scheme Queue result" where
  "addToReadyList e q =
     (let rt = (\<lambda>i. qe_readyTime (entry_at q i))
      in if q_readyList q = [] \<or> rt (last (q_readyList q)) \<le> rt e
         then Inr (q\<lparr>q_readyList := q_readyList q @ [e]\<rparr>)
         else bindR (addToReadyList_loop rt e (q_readyList q)) (\<lambda>l. Inr (q\<lparr>q_readyList := l\<rparr>)))"

definition Queue_isEmpty :: "'e Queue \<Rightarrow> bool" where
  "Queue_isEmpty q \<longleftrightarrow> q_allocated q = 0"

definition Queue_isFull :: "'e Queue \<Rightarrow> bool" where
  "Queue_isFull q \<longleftrightarrow> q_allocated q \<ge> q_numEntries q - q_numReserve q"

definition numInService :: "'e Queue \<Rightarrow> int" where
  "numInService q = q_numInService q"

fun findMatch_loop :: "('a QueueEntry_scheme \<Rightarrow> bool result) \<Rightarrow> bool \<Rightarrow> 'a QueueEntry_scheme list \<Rightarrow>
    nat list \<Rightarrow> nat option result" where
  "findMatch_loop match ignore_uncacheable es [] = Inr None"
| "findMatch_loop match ignore_uncacheable es (i # is) =
     (if \<not> (ignore_uncacheable \<and> QueueEntry_isUncacheable (es ! i)) then
        bindR (match (es ! i)) (\<lambda>m.
          if m then Inr (Some i) else findMatch_loop match ignore_uncacheable es is)
      else findMatch_loop match ignore_uncacheable es is)"

definition findMatch :: "('a QueueEntry_scheme \<Rightarrow> Addr \<Rightarrow> bool \<Rightarrow> bool result) \<Rightarrow> Addr \<Rightarrow> bool \<Rightarrow> bool \<Rightarrow>
    'a QueueEntry_scheme Queue \<Rightarrow> nat option result" where
  "findMatch matchBlockAddr blk_addr is_secure ignore_uncacheable q =
     findMatch_loop (\<lambda>e. matchBlockAddr e blk_addr is_secure) ignore_uncacheable
       (q_entries q) (q_allocatedList q)"

fun Queue_trySatisfy_loop :: "('e \<Rightarrow> bool result) \<Rightarrow> ('e \<Rightarrow> bool) \<Rightarrow> 'e list \<Rightarrow> nat list \<Rightarrow> bool result" where
  "Queue_trySatisfy_loop match satisfy es [] = Inr False"
| "Queue_trySatisfy_loop match satisfy es (i # is) =
     bindR (match (es ! i)) (\<lambda>m.
       if m \<and> satisfy (es ! i) then Inr True else Queue_trySatisfy_loop match satisfy es is)"

definition Queue_trySatisfyFunctional :: "('e \<Rightarrow> Packet \<Rightarrow> bool result) \<Rightarrow> ('e \<Rightarrow> Packet \<Rightarrow> bool) \<Rightarrow>
    Packet \<Rightarrow> 'e Queue \<Rightarrow> bool result" where
  "Queue_trySatisfyFunctional matchBlockAddr trySatisfy pkt q =
     Queue_trySatisfy_loop (\<lambda>e. matchBlockAddr e pkt) (\<lambda>e. trySatisfy e pkt) (q_entries q) (q_allocatedList q)"

fun findPending_loop :: "('e \<Rightarrow> bool result) \<Rightarrow> 'e list \<Rightarrow> nat list \<Rightarrow> nat option result" where
  "findPending_loop conflict es [] = Inr None"
| "findPending_loop conflict es (i # is) =
     bindR (conflict (es ! i)) (\<lambda>c. if c then Inr (Some i) else findPending_loop conflict es is)"

definition findPending :: "('e \<Rightarrow> 'f \<Rightarrow> bool result) \<Rightarrow> 'f \<Rightarrow> 'e Queue \<Rightarrow> nat option result" where
  "findPending conflictAddr entry q =
     findPending_loop (\<lambda>e. conflictAddr e entry) (q_entries q) (q_readyList q)"

definition getNext :: "Tick \<Rightarrow> 'a QueueEntry_scheme Queue \<Rightarrow> nat option" where
  "getNext now q =
     (case q_readyList q of
        [] \<Rightarrow> None
      | i # _ \<Rightarrow> if qe_readyTime (entry_at q i) > now then None else Some i)"

definition nextReadyTime :: "'a QueueEntry_scheme Queue \<Rightarrow> Tick" where
  "nextReadyTime q =
     (case q_readyList q of [] \<Rightarrow> MaxTick | i # _ \<Rightarrow> qe_readyTime (entry_at q i))"

definition Queue_deallocate :: "('a QueueEntry_scheme \<Rightarrow> 'a QueueEntry_scheme result) \<Rightarrow> nat \<Rightarrow>
    'a QueueEntry_scheme Queue \<Rightarrow> 'a QueueEntry_scheme Queue result" where
  "Queue_deallocate release i q =
     defined ''allocatedList.erase'' (i \<in> set (q_allocatedList q))
       (let q = q\<lparr>q_allocatedList := remove1 i (q_allocatedList q),
                  q_freeList := i # q_freeList q, q_allocated := q_allocated q - 1\<rparr>
        in bindR (if qe_inService (entry_at q i)
                  then Inr (q\<lparr>q_numInService := q_numInService q - 1\<rparr>)
                  else defined ''readyList.erase'' (i \<in> set (q_readyList q))
                         (Inr (q\<lparr>q_readyList := remove1 i (q_readyList q)\<rparr>))) (\<lambda>q.
           bindR (release (entry_at q i)) (\<lambda>e. Inr (set_entry i e q))))"

text \<open>
  The common part of \<open>MSHRQueue::allocate\<close> and \<open>WriteQueue::allocate\<close>; \<open>idle\<close> is the test that the
  entry has no targets and \<open>occupy\<close> the entry's own \<open>allocate\<close>, which returns with the entry
  whatever else it changes.
\<close>

definition allocate_entry ::
    "('a QueueEntry_scheme \<Rightarrow> bool) \<Rightarrow> ('a QueueEntry_scheme \<Rightarrow> ('a QueueEntry_scheme \<times> 'u) result) \<Rightarrow>
     'a QueueEntry_scheme Queue \<Rightarrow> (nat \<times> 'a QueueEntry_scheme Queue \<times> 'u) result" where
  "allocate_entry idle occupy q =
     (case q_freeList q of
        [] \<Rightarrow> Inl (AssertFail ''!freeList.empty()'')
      | i # free \<Rightarrow>
          check ''getNumTargets() == 0'' (idle (entry_at q i))
            (bindR (occupy (entry_at q i)) (\<lambda>(e, u).
               let q = set_entry i e (q\<lparr>q_freeList := free\<rparr>);
                   q = q\<lparr>q_allocatedList := q_allocatedList q @ [i]\<rparr>
               in bindR (addToReadyList i q) (\<lambda>q. Inr (i, q\<lparr>q_allocated := q_allocated q + 1\<rparr>, u)))))"

section \<open>The ready list\<close>

lemma addToReadyList_loop_last:
  "is \<noteq> [] \<Longrightarrow> rt (last is) > rt e \<Longrightarrow>
   addToReadyList_loop rt e is = Inr (insert_before (\<lambda>i. rt e < rt i) e is)"
  by (induction "is") (auto split: if_splits)

lemma insert_before_snoc:
  "(\<And>y. y \<in> set xs \<Longrightarrow> \<not> P y) \<Longrightarrow> insert_before P x xs = xs @ [x]"
  by (induction xs) auto

definition ready_insert :: "('e \<Rightarrow> Tick) \<Rightarrow> 'e \<Rightarrow> 'e list \<Rightarrow> 'e list" where
  "ready_insert rt e l =
     (if l = [] \<or> rt (last l) \<le> rt e then l @ [e] else insert_before (\<lambda>i. rt e < rt i) e l)"

lemma ready_insert_simps [simp]:
  "set (ready_insert rt e l) = insert e (set l)"
  "length (ready_insert rt e l) = Suc (length l)"
  "distinct (ready_insert rt e l) \<longleftrightarrow> e \<notin> set l \<and> distinct l"
  by (auto simp: ready_insert_def)

lemma addToReadyList_Inr:
  "addToReadyList e q =
     Inr (q\<lparr>q_readyList := ready_insert (\<lambda>i. qe_readyTime (entry_at q i)) e (q_readyList q)\<rparr>)"
  using addToReadyList_loop_last [of "q_readyList q" "\<lambda>i. qe_readyTime (entry_at q i)" e]
  by (auto simp: addToReadyList_def ready_insert_def Let_def not_le)

lemma sorted_map_last: "sorted (map f xs) \<Longrightarrow> y \<in> set xs \<Longrightarrow> f y \<le> f (last xs)"
  by (induction xs rule: rev_induct) (auto simp: sorted_append)

lemma ready_insert_sorted:
  assumes "sorted (map rt l)"
  shows "ready_insert rt e l = insert_before (\<lambda>i. rt e < rt i) e l"
proof (cases "l = [] \<or> rt (last l) \<le> rt e")
  case True
  then have "\<not> rt e < rt y" if "y \<in> set l" for y
    using sorted_map_last [OF assms that] that by auto
  then show ?thesis using True by (simp add: ready_insert_def insert_before_snoc)
qed (simp add: ready_insert_def)

lemma sorted_ready_insert: "sorted (map rt l) \<Longrightarrow> sorted (map rt (ready_insert rt e l))"
  by (simp add: ready_insert_sorted sorted_insert_before)

lemma map_ready_insert_cong:
  "(\<And>i. i \<in> set l \<Longrightarrow> rt i = rt' i) \<Longrightarrow> rt e = rt' e \<Longrightarrow> ready_insert rt e l = ready_insert rt' e l"
proof -
  assume a: "\<And>i. i \<in> set l \<Longrightarrow> rt i = rt' i" "rt e = rt' e"
  then have "insert_before (\<lambda>i. rt e < rt i) e l = insert_before (\<lambda>i. rt' e < rt' i) e l"
    by (induction l) auto
  moreover have "l \<noteq> [] \<Longrightarrow> rt (last l) = rt' (last l)" using a(1) by simp
  ultimately show ?thesis using a(2) by (auto simp: ready_insert_def)
qed

section \<open>Invariant\<close>

text \<open>
  Every entry is on exactly one of the free and the allocated list, the ready list holds the
  allocated entries that are not in service, and the two counters count. The ready list is
  ordered by ready time as long as no entry has been moved to its front or delayed, so order is
  stated apart.
\<close>

definition queue_inv :: "'a QueueEntry_scheme Queue \<Rightarrow> bool" where
  "queue_inv q \<longleftrightarrow>
     distinct (q_allocatedList q @ q_freeList q) \<and>
     set (q_allocatedList q @ q_freeList q) = {..<length (q_entries q)} \<and>
     distinct (q_readyList q) \<and>
     set (q_readyList q) = {i \<in> set (q_allocatedList q). \<not> qe_inService (entry_at q i)} \<and>
     q_allocated q = int (length (q_allocatedList q)) \<and>
     q_numInService q = int (length (filter (\<lambda>i. qe_inService (entry_at q i)) (q_allocatedList q))) \<and>
     q_numEntries q = int (length (q_entries q))"

definition ready_sorted :: "'a QueueEntry_scheme Queue \<Rightarrow> bool" where
  "ready_sorted q \<longleftrightarrow> sorted (map (\<lambda>i. qe_readyTime (entry_at q i)) (q_readyList q))"

lemma queue_inv_new:
  "0 \<le> num_entries + reserve \<Longrightarrow> queue_inv (Queue_new e num_entries reserve)"
  by (auto simp: queue_inv_def Queue_new_def Let_def)

lemma ready_sorted_new: "ready_sorted (Queue_new e num_entries reserve)"
  by (simp add: ready_sorted_def Queue_new_def Let_def)

lemma queue_inv_lists:
  assumes "queue_inv q"
  shows "i \<in> set (q_allocatedList q) \<Longrightarrow> i < length (q_entries q)"
    and "i \<in> set (q_freeList q) \<Longrightarrow> i < length (q_entries q)"
    and "i \<in> set (q_freeList q) \<Longrightarrow> i \<notin> set (q_allocatedList q)"
    and "i \<in> set (q_readyList q) \<longleftrightarrow> i \<in> set (q_allocatedList q) \<and> \<not> qe_inService (entry_at q i)"
  using assms by (auto simp: queue_inv_def)

lemma queue_capacity:
  assumes "queue_inv q" "q_allocated q < q_numEntries q"
  shows "q_freeList q \<noteq> []"
proof
  assume f: "q_freeList q = []"
  then have "length (q_allocatedList q) = length (q_entries q)"
    using assms(1) distinct_card [of "q_allocatedList q"] by (simp add: queue_inv_def)
  with assms show False by (simp add: queue_inv_def)
qed

lemma set_entry_simps [simp]:
  "q_allocatedList (set_entry i e q) = q_allocatedList q" "q_readyList (set_entry i e q) = q_readyList q"
  "q_freeList (set_entry i e q) = q_freeList q" "q_allocated (set_entry i e q) = q_allocated q"
  "q_numInService (set_entry i e q) = q_numInService q" "q_numEntries (set_entry i e q) = q_numEntries q"
  "q_numReserve (set_entry i e q) = q_numReserve q"
  "length (q_entries (set_entry i e q)) = length (q_entries q)"
  "i < length (q_entries q) \<Longrightarrow> entry_at (set_entry i e q) j = (if j = i then e else entry_at q j)"
  by (simp_all add: set_entry_def nth_list_update)

text \<open>Changing an entry without changing whether it is in service.\<close>

lemma queue_inv_set_entry:
  assumes "queue_inv q" "i < length (q_entries q)"
    and "i \<in> set (q_allocatedList q) \<Longrightarrow> qe_inService e = qe_inService (entry_at q i)"
  shows "queue_inv (set_entry i e q)"
proof -
  have "filter (\<lambda>j. qe_inService (entry_at (set_entry i e q) j)) (q_allocatedList q) =
    filter (\<lambda>j. qe_inService (entry_at q j)) (q_allocatedList q)"
    using assms by (intro filter_cong) auto
  then show ?thesis using assms by (auto simp: queue_inv_def)
qed

lemma int_length_remove1: "x \<in> set xs \<Longrightarrow> int (length (remove1 x xs)) = int (length xs) - 1"
  using length_pos_if_in_set [of x xs] by (simp add: length_remove1 of_nat_diff Suc_le_eq)

section \<open>Operations that every queue shares\<close>

locale queue_entry =
  fixes wf :: "'a QueueEntry_scheme \<Rightarrow> bool"
    and idle :: "'a QueueEntry_scheme \<Rightarrow> bool"
    and release :: "'a QueueEntry_scheme \<Rightarrow> 'a QueueEntry_scheme result"
  assumes release_idle: "wf e \<Longrightarrow> release e = Inr e' \<Longrightarrow> wf e' \<and> idle e' \<and> \<not> qe_inService e'"
begin

definition pool_inv :: "'a QueueEntry_scheme Queue \<Rightarrow> bool" where
  "pool_inv q \<longleftrightarrow> queue_inv q \<and> (\<forall>i < length (q_entries q). wf (entry_at q i)) \<and>
     (\<forall>i \<in> set (q_freeList q). idle (entry_at q i))"

lemma pool_inv_set_entry:
  assumes "pool_inv q" "i \<in> set (q_allocatedList q)" "wf e" "qe_inService e = qe_inService (entry_at q i)"
  shows "pool_inv (set_entry i e q)"
proof -
  have i: "i < length (q_entries q)" "i \<notin> set (q_freeList q)"
    using assms(1,2) queue_inv_lists [of q i] by (auto simp: pool_inv_def)
  then show ?thesis
    using assms queue_inv_set_entry [of q i e] by (auto simp: pool_inv_def)
qed

lemma deallocate_pool:
  assumes "pool_inv q" "i \<in> set (q_allocatedList q)" "release (entry_at q i) = Inr e"
  shows "\<exists>q'. Queue_deallocate release i q = Inr q' \<and> pool_inv q' \<and>
    set (q_allocatedList q') = set (q_allocatedList q) - {i} \<and> i \<in> set (q_freeList q') \<and>
    q_allocated q' = q_allocated q - 1 \<and> q_numReserve q' = q_numReserve q \<and>
    q_numEntries q' = q_numEntries q \<and>
    (\<forall>j. j \<noteq> i \<longrightarrow> entry_at q' j = entry_at q j) \<and> (ready_sorted q \<longrightarrow> ready_sorted q')"
proof -
  have inv: "queue_inv q" using assms(1) by (simp add: pool_inv_def)
  have i: "i < length (q_entries q)" using queue_inv_lists(1) [OF inv assms(2)] .
  have e: "wf e" "idle e" "\<not> qe_inService e"
    using release_idle [OF _ assms(3)] assms(1) i by (simp_all add: pool_inv_def)
  have da: "distinct (q_allocatedList q)" "distinct (q_freeList q)" "distinct (q_readyList q)"
    using inv by (simp_all add: queue_inv_def)
  have nf: "i \<notin> set (q_freeList q)" using queue_inv_lists(3) [OF inv] assms(2) by blast
  define q' where "q' = set_entry i e (q\<lparr>q_allocatedList := remove1 i (q_allocatedList q),
    q_freeList := i # q_freeList q, q_allocated := q_allocated q - 1,
    q_readyList := remove1 i (q_readyList q),
    q_numInService := q_numInService q - (if qe_inService (entry_at q i) then 1 else 0)\<rparr>)"
  have r: "Queue_deallocate release i q = Inr q'"
  proof (cases "qe_inService (entry_at q i)")
    case True
    then have "remove1 i (q_readyList q) = q_readyList q"
      using queue_inv_lists(4) [OF inv, of i] by (simp add: remove1_idem)
    with True show ?thesis
      using assms(2,3) by (simp add: Queue_deallocate_def q'_def Let_def set_entry_def)
  next
    case False
    then have "i \<in> set (q_readyList q)" using queue_inv_lists(4) [OF inv] assms(2) by blast
    with False show ?thesis
      using assms(2,3) by (simp add: Queue_deallocate_def q'_def Let_def set_entry_def)
  qed
  have es: "entry_at q' j = (if j = i then e else entry_at q j)" for j
    using i by (simp add: q'_def)
  let ?P = "\<lambda>j. qe_inService (entry_at q j)"
  have "filter (\<lambda>j. qe_inService (entry_at q' j)) (remove1 i (q_allocatedList q)) =
    filter ?P (remove1 i (q_allocatedList q))"
    using da(1) by (intro filter_cong) (auto simp: es set_remove1_eq)
  also have "\<dots> = remove1 i (filter ?P (q_allocatedList q))" by (simp add: filter_remove1)
  finally have f: "int (length (filter (\<lambda>j. qe_inService (entry_at q' j)) (remove1 i (q_allocatedList q)))) =
    q_numInService q - (if ?P i then 1 else 0)"
    using inv assms(2) int_length_remove1 [of i "filter ?P (q_allocatedList q)"]
    by (cases "?P i") (simp_all add: queue_inv_def remove1_idem)
  have "queue_inv q'"
    using inv da nf assms(2) i f e es
    by (auto simp: queue_inv_def q'_def set_remove1_eq int_length_remove1)
  then have p: "pool_inv q'"
    using assms(1) da nf e es by (auto simp: pool_inv_def q'_def set_remove1_eq)
  have "ready_sorted q'" if "ready_sorted q"
  proof -
    have "map (\<lambda>j. qe_readyTime (entry_at q' j)) (remove1 i (q_readyList q)) =
      map (\<lambda>j. qe_readyTime (entry_at q j)) (remove1 i (q_readyList q))"
      using da(3) by (auto simp: es set_remove1_eq)
    moreover have "q_readyList q' = remove1 i (q_readyList q)" by (simp add: q'_def)
    ultimately show ?thesis
      using that sorted_map_remove1 unfolding ready_sorted_def by (simp only:)
  qed
  with r p es da show ?thesis by (intro exI [of _ q']) (simp add: q'_def set_remove1_eq)
qed

lemma allocate_pool:
  assumes "pool_inv q" "q_allocated q < q_numEntries q"
    and "\<And>e. wf e \<Longrightarrow> idle e \<Longrightarrow> \<exists>e' u. occupy e = Inr (e', u) \<and> wf e' \<and> \<not> qe_inService e'"
  shows "\<exists>i q' u. allocate_entry idle occupy q = Inr (i, q', u) \<and> pool_inv q' \<and>
    idle (entry_at q i) \<and> occupy (entry_at q i) = Inr (entry_at q' i, u) \<and>
    q_allocatedList q' = q_allocatedList q @ [i] \<and> i \<notin> set (q_allocatedList q) \<and>
    i \<in> set (q_readyList q') \<and> q_allocated q' = q_allocated q + 1 \<and>
    q_numReserve q' = q_numReserve q \<and> q_numEntries q' = q_numEntries q \<and>
    (\<forall>j. j \<noteq> i \<longrightarrow> entry_at q' j = entry_at q j) \<and> (ready_sorted q \<longrightarrow> ready_sorted q')"
proof -
  have inv: "queue_inv q" using assms(1) by (simp add: pool_inv_def)
  obtain i free where fl: "q_freeList q = i # free"
    using queue_capacity [OF inv assms(2)] by (cases "q_freeList q") auto
  then have i: "i < length (q_entries q)" "i \<notin> set (q_allocatedList q)" "idle (entry_at q i)"
    using assms(1) queue_inv_lists [OF inv, of i] by (auto simp: pool_inv_def)
  then have nr: "i \<notin> set (q_readyList q)" using queue_inv_lists(4) [OF inv] by blast
  obtain e u where e: "occupy (entry_at q i) = Inr (e, u)" "wf e" "\<not> qe_inService e"
    using assms(3) [OF _ i(3)] assms(1) i(1) unfolding pool_inv_def by blast
  define q1 where "q1 = set_entry i e q"
  have es: "entry_at q1 j = (if j = i then e else entry_at q j)" for j using i by (simp add: q1_def)
  define l where "l = ready_insert (\<lambda>j. qe_readyTime (entry_at q1 j)) i (q_readyList q)"
  define q' where "q' = q1\<lparr>q_freeList := free, q_allocatedList := q_allocatedList q @ [i],
    q_readyList := l, q_allocated := q_allocated q + 1\<rparr>"
  have r: "allocate_entry idle occupy q = Inr (i, q', u)"
    using fl i e(1)
    by (simp add: allocate_entry_def Let_def addToReadyList_Inr q'_def q1_def l_def set_entry_def)
  have es': "entry_at q' j = (if j = i then e else entry_at q j)" for j using es by (simp add: q'_def)
  have "filter (\<lambda>j. qe_inService (entry_at q' j)) (q_allocatedList q) =
    filter (\<lambda>j. qe_inService (entry_at q j)) (q_allocatedList q)"
    using i(2) by (intro filter_cong) (auto simp: es')
  then have "queue_inv q'"
    using inv fl i nr e(3) es' by (auto simp: queue_inv_def q'_def q1_def l_def)
  moreover have "q_freeList q' = free" "q_allocatedList q' = q_allocatedList q @ [i]" "i \<notin> set free"
    "length (q_entries q') = length (q_entries q)"
    using inv fl by (simp_all add: q'_def q1_def queue_inv_def)
  ultimately have p: "pool_inv q'"
    using assms(1) fl i(2) e(2) es' by (auto simp: pool_inv_def)
  have "ready_sorted q'" if "ready_sorted q"
  proof -
    have "map (\<lambda>j. qe_readyTime (entry_at q1 j)) (q_readyList q) =
      map (\<lambda>j. qe_readyTime (entry_at q j)) (q_readyList q)"
      using nr by (auto simp: es)
    then have "sorted (map (\<lambda>j. qe_readyTime (entry_at q1 j)) (q_readyList q))"
      using that unfolding ready_sorted_def by (simp only:)
    then have "sorted (map (\<lambda>j. qe_readyTime (entry_at q1 j)) l)"
      unfolding l_def by (rule sorted_ready_insert)
    then show ?thesis by (simp add: ready_sorted_def q'_def)
  qed
  with r p e es' i show ?thesis
    by (intro exI [of _ i] exI [of _ q'] exI [of _ u]) (simp add: q'_def q1_def l_def)
qed

lemma pool_inv_reorder:
  assumes "pool_inv q" "distinct l" "set l = set (q_readyList q)"
  shows "pool_inv (q\<lparr>q_readyList := l\<rparr>)"
  using assms by (simp add: pool_inv_def queue_inv_def)

text \<open>An entry enters service: it leaves the ready list and is counted.\<close>

lemma pool_inv_serve:
  assumes p: "pool_inv q" "i \<in> set (q_allocatedList q)" and e: "wf e" "qe_inService e"
    and n: "\<not> qe_inService (entry_at q i)"
  shows "pool_inv ((set_entry i e q)\<lparr>q_readyList := remove1 i (q_readyList q),
    q_numInService := q_numInService q + 1\<rparr>)"
proof -
  have inv: "queue_inv q" using p(1) by (simp add: pool_inv_def)
  have i: "i < length (q_entries q)" "i \<notin> set (q_freeList q)"
    using p(2) queue_inv_lists [OF inv, of i] by auto
  obtain a b where ab: "q_allocatedList q = a @ i # b" "i \<notin> set a" "i \<notin> set b"
    using split_list [OF p(2)] inv by (auto simp: queue_inv_def)
  let ?q = "set_entry i e q"
  have "filter (\<lambda>j. qe_inService (entry_at ?q j)) a = filter (\<lambda>j. qe_inService (entry_at q j)) a"
    "filter (\<lambda>j. qe_inService (entry_at ?q j)) b = filter (\<lambda>j. qe_inService (entry_at q j)) b"
    using i ab(2,3) by (auto intro!: filter_cong)
  then have "int (length (filter (\<lambda>j. qe_inService (entry_at ?q j)) (q_allocatedList q))) = q_numInService q + 1"
    using inv ab(1) n e(2) i by (simp add: queue_inv_def)
  then show ?thesis
    using p e i inv by (auto simp: pool_inv_def queue_inv_def set_remove1_eq)
qed

text \<open>An entry in service becomes ready again.\<close>

lemma pool_inv_pend:
  assumes p: "pool_inv q" "i \<in> set (q_allocatedList q)" and e: "wf e" "\<not> qe_inService e"
    and s: "qe_inService (entry_at q i)"
    and l: "distinct l" "set l = insert i (set (q_readyList q))"
  shows "pool_inv ((set_entry i e q)\<lparr>q_readyList := l, q_numInService := q_numInService q - 1\<rparr>)"
proof -
  have inv: "queue_inv q" using p(1) by (simp add: pool_inv_def)
  have i: "i < length (q_entries q)" "i \<notin> set (q_freeList q)"
    using p(2) queue_inv_lists [OF inv, of i] by auto
  obtain a b where ab: "q_allocatedList q = a @ i # b" "i \<notin> set a" "i \<notin> set b"
    using split_list [OF p(2)] inv by (auto simp: queue_inv_def)
  let ?q = "set_entry i e q"
  have "filter (\<lambda>j. qe_inService (entry_at ?q j)) a = filter (\<lambda>j. qe_inService (entry_at q j)) a"
    "filter (\<lambda>j. qe_inService (entry_at ?q j)) b = filter (\<lambda>j. qe_inService (entry_at q j)) b"
    using i ab(2,3) by (auto intro!: filter_cong)
  then have "int (length (filter (\<lambda>j. qe_inService (entry_at ?q j)) (q_allocatedList q))) = q_numInService q - 1"
    using inv ab(1) s e(2) i by (simp add: queue_inv_def)
  then show ?thesis
    using p e i inv l by (auto simp: pool_inv_def queue_inv_def)
qed

end

end
