(* ===== verification/Mshr.thy ===== *)
theory Mshr
  imports Cache_Queue
begin

text \<open>
  \<open>mshr/include/mshr.h\<close> and \<open>mshr/mshr.cpp\<close>: miss status holding registers. Targets hold their
  packet by value. The MSHR that \<open>findNextSenderState<MSHR>\<close> returns belongs to a cache above;
  the record \<open>upstream\<close> is the view of those caches: find the MSHR of a packet, set its
  \<open>downstreamPending\<close> flag, clear it. \<open>no_upstream\<close> is a cache with a processor above it and
  \<open>mshr_upstream\<close> one with another cache's MSHRs above it, which closes the recursion of
  \<open>clearDownstreamPending\<close> over the levels of a hierarchy. Printing and the snoop handler (which
  is commented out) are not modelled.
\<close>

section \<open>Targets\<close>

record 'u upstream =
  up_find :: "Packet \<Rightarrow> 'u \<Rightarrow> nat option result"
  up_mark :: "nat \<Rightarrow> 'u \<Rightarrow> 'u result"
  up_clear :: "nat \<Rightarrow> 'u \<Rightarrow> 'u result"

datatype Source = FromCPU | FromSnoop | FromPrefetcher

record Target = QTarget +
  mt_source :: Source
  mt_markedPending :: bool
  mt_allocOnFill :: bool

definition Target_new :: "Tick \<Rightarrow> Packet \<Rightarrow> Tick \<Rightarrow> Counter \<Rightarrow> Source \<Rightarrow> bool \<Rightarrow> bool \<Rightarrow> Target" where
  "Target_new now pkt readyTime order source markedPending alloc_on_fill =
     QTarget.extend (QTarget_new now pkt readyTime order)
       \<lparr>mt_source = source, mt_markedPending = markedPending, mt_allocOnFill = alloc_on_fill\<rparr>"

record TargetList =
  tl_targets :: "Target list"
  tl_needsWritable :: bool
  tl_hasUpgrade :: bool
  tl_allocOnFill :: bool
  tl_hasFromCache :: bool
  tl_blkAddr :: Addr
  tl_blkSize :: Addr
  tl_canMergeWrites :: bool
  tl_writesBitmap :: "bool list"

definition TargetList_new :: "Addr \<times> Addr \<times> bool \<Rightarrow> TargetList" where
  "TargetList_new junk =
     \<lparr>tl_targets = [], tl_needsWritable = False, tl_hasUpgrade = False, tl_allocOnFill = False,
      tl_hasFromCache = False, tl_blkAddr = fst junk, tl_blkSize = fst (snd junk),
      tl_canMergeWrites = snd (snd junk), tl_writesBitmap = []\<rparr>"

definition TargetList_resetFlags :: "TargetList \<Rightarrow> TargetList" where
  "TargetList_resetFlags tgs =
     tgs\<lparr>tl_canMergeWrites := True,
        tl_writesBitmap := replicate (length (tl_writesBitmap tgs)) False,
        tl_needsWritable := False, tl_hasUpgrade := False, tl_allocOnFill := False,
        tl_hasFromCache := False\<rparr>"

definition vec_resize :: "nat \<Rightarrow> bool list \<Rightarrow> bool list" where
  "vec_resize n xs = take n xs @ replicate (n - length xs) False"

definition TargetList_init :: "Addr \<Rightarrow> Addr \<Rightarrow> TargetList \<Rightarrow> TargetList" where
  "TargetList_init blk_addr blk_size tgs =
     TargetList_resetFlags
       (tgs\<lparr>tl_blkAddr := blk_addr, tl_blkSize := blk_size,
           tl_writesBitmap := vec_resize (unat blk_size) (tl_writesBitmap tgs)\<rparr>)"

definition TargetList_isReset :: "TargetList \<Rightarrow> bool" where
  "TargetList_isReset tgs \<longleftrightarrow> \<not> tl_needsWritable tgs \<and> \<not> tl_hasUpgrade tgs \<and> \<not> tl_allocOnFill tgs \<and>
     \<not> tl_hasFromCache tgs \<and> tl_canMergeWrites tgs"

definition TargetList_isWholeLineWrite :: "TargetList \<Rightarrow> bool" where
  "TargetList_isWholeLineWrite tgs \<longleftrightarrow> (\<forall>b \<in> set (tl_writesBitmap tgs). b)"

definition no_merge_flags :: u64 where [flag_defs]:
  "no_merge_flags = UNCACHEABLE OR STRICT_ORDER OR PRIVILEGED OR LLSC OR MEM_SWAP OR
     MEM_SWAP_COND OR SECURE OR LOCKED_RMW"

definition fill_range :: "nat \<Rightarrow> nat \<Rightarrow> bool list \<Rightarrow> bool list" where
  "fill_range off n bm = take off bm @ replicate n True @ drop (off + n) bm"

definition updateWriteFlags :: "Packet \<Rightarrow> TargetList \<Rightarrow> TargetList result" where
  "updateWriteFlags pkt tgs =
     (if TargetList_isWholeLineWrite tgs then Inr tgs
      else if tl_canMergeWrites tgs then
        if \<not> Packet_isWrite pkt then Inr (tgs\<lparr>tl_canMergeWrites := False\<rparr>)
        else
          bindR (Request_getFlags (p_req pkt)) (\<lambda>req_flags.
            let compat_write = \<not> isSet req_flags no_merge_flags;
                masked_write = Packet_isMaskedWrite pkt;
                first_write = (tl_targets tgs = [])
            in bindR (if \<not> masked_write \<and> (first_write \<or> compat_write) then
                        bindR (Packet_getOffset (ucast (tl_blkSize tgs)) pkt) (\<lambda>offset.
                        bindR (Packet_getSize pkt) (\<lambda>sz.
                          defined ''std::fill(begin, begin + pkt->getSize(), true)''
                            (unat offset + unat sz \<le> length (tl_writesBitmap tgs))
                            (Inr (tgs\<lparr>tl_writesBitmap :=
                               fill_range (unat offset) (unat sz) (tl_writesBitmap tgs)\<rparr>))))
                      else Inr tgs) (\<lambda>tgs.
               Inr (tgs\<lparr>tl_canMergeWrites := tl_canMergeWrites tgs \<and> compat_write\<rparr>)))
      else Inr tgs)"

definition updateFlags :: "Packet \<Rightarrow> Source \<Rightarrow> bool \<Rightarrow> TargetList \<Rightarrow> TargetList result" where
  "updateFlags pkt source alloc_on_fill tgs =
     (if source \<noteq> FromSnoop then
        bindR (Packet_needsWritable pkt) (\<lambda>nw.
          let tgs = (if nw then tgs\<lparr>tl_needsWritable := True\<rparr> else tgs);
              tgs = (if Packet_isUpgrade pkt \<or> p_cmd pkt = StoreCondReq
                    then tgs\<lparr>tl_hasUpgrade := True\<rparr> else tgs);
              tgs = tgs\<lparr>tl_allocOnFill := tl_allocOnFill tgs \<or> alloc_on_fill\<rparr>
          in if source \<noteq> FromPrefetcher then
               updateWriteFlags pkt (tgs\<lparr>tl_hasFromCache := tl_hasFromCache tgs \<or> Packet_fromCache pkt\<rparr>)
             else Inr tgs)
      else Inr tgs)"

fun populateFlags_loop :: "Target list \<Rightarrow> TargetList \<Rightarrow> TargetList result" where
  "populateFlags_loop [] tgs = Inr tgs"
| "populateFlags_loop (t # ts) tgs =
     bindR (updateFlags (tg_pkt t) (mt_source t) (mt_allocOnFill t) tgs) (populateFlags_loop ts)"

definition populateFlags :: "TargetList \<Rightarrow> TargetList result" where
  "populateFlags tgs = populateFlags_loop (tl_targets tgs) (TargetList_resetFlags tgs)"

definition TargetList_add :: "'u upstream \<Rightarrow> Tick \<Rightarrow> Packet \<Rightarrow> Tick \<Rightarrow> Counter \<Rightarrow> Source \<Rightarrow> bool \<Rightarrow> bool \<Rightarrow>
    TargetList \<Rightarrow> 'u \<Rightarrow> (TargetList \<times> 'u) result" where
  "TargetList_add up now pkt readyTime order source markPending alloc_on_fill tgs u =
     bindR (updateFlags pkt source alloc_on_fill tgs) (\<lambda>tgs.
     bindR (if markPending then
              bindR (up_find up pkt u) (\<lambda>mshr.
                (case mshr of
                   Some m \<Rightarrow> bindR (up_mark up m u) (\<lambda>u. Inr (True, u))
                 | None \<Rightarrow> Inr (False, u)))
            else Inr (False, u)) (\<lambda>(markPending, u).
       Inr (tgs\<lparr>tl_targets := tl_targets tgs @
              [Target_new now pkt readyTime order source markPending alloc_on_fill]\<rparr>, u)))"

definition replaceUpgrade :: "(nat \<Rightarrow> u8) \<Rightarrow> heap \<Rightarrow> Packet \<Rightarrow> (heap \<times> Packet) result" where
  "replaceUpgrade junk h pkt =
     (let has_data = Packet_hasData pkt \<or> Packet_hasRespData pkt;
          pkt = (if p_cmd pkt = UpgradeReq then pkt\<lparr>p_cmd := ReadExReq\<rparr>
                 else if p_cmd pkt = SCUpgradeReq then pkt\<lparr>p_cmd := SCUpgradeFailReq\<rparr>
                 else if p_cmd pkt = StoreCondReq then pkt\<lparr>p_cmd := StoreCondFailReq\<rparr>
                 else pkt)
      in if \<not> has_data then
           check ''!pkt->hasData()'' (\<not> Packet_hasData pkt)
             (if Packet_hasRespData pkt then Packet_allocate junk h pkt else Inr (h, pkt))
         else Inr (h, pkt))"

fun replaceUpgrades_loop :: "(nat \<Rightarrow> u8) \<Rightarrow> heap \<Rightarrow> Target list \<Rightarrow> (heap \<times> Target list) result" where
  "replaceUpgrades_loop junk h [] = Inr (h, [])"
| "replaceUpgrades_loop junk h (t # ts) =
     bindR (replaceUpgrade junk h (tg_pkt t)) (\<lambda>(h, pkt).
     bindR (replaceUpgrades_loop junk h ts) (\<lambda>(h, ts). Inr (h, t\<lparr>tg_pkt := pkt\<rparr> # ts)))"

definition replaceUpgrades :: "(nat \<Rightarrow> u8) \<Rightarrow> heap \<Rightarrow> TargetList \<Rightarrow> (heap \<times> TargetList) result" where
  "replaceUpgrades junk h tgs =
     (if \<not> tl_hasUpgrade tgs then Inr (h, tgs)
      else bindR (replaceUpgrades_loop junk h (tl_targets tgs)) (\<lambda>(h, ts).
             Inr (h, tgs\<lparr>tl_targets := ts, tl_hasUpgrade := False\<rparr>)))"

fun clearPending_loop :: "'u upstream \<Rightarrow> Target list \<Rightarrow> 'u \<Rightarrow> (Target list \<times> 'u) result" where
  "clearPending_loop up [] u = Inr ([], u)"
| "clearPending_loop up (t # ts) u =
     bindR (if mt_markedPending t then
              bindR (up_find up (tg_pkt t) u) (\<lambda>mshr.
              bindR (case mshr of Some m \<Rightarrow> up_clear up m u | None \<Rightarrow> Inr u) (\<lambda>u.
                Inr (t\<lparr>mt_markedPending := False\<rparr>, u)))
            else Inr (t, u)) (\<lambda>(t, u).
     bindR (clearPending_loop up ts u) (\<lambda>(ts, u). Inr (t # ts, u)))"

definition TargetList_clearDownstreamPending ::
    "'u upstream \<Rightarrow> TargetList \<Rightarrow> 'u \<Rightarrow> (TargetList \<times> 'u) result" where
  "TargetList_clearDownstreamPending up tgs u =
     bindR (clearPending_loop up (tl_targets tgs) u) (\<lambda>(ts, u). Inr (tgs\<lparr>tl_targets := ts\<rparr>, u))"

definition TargetList_trySatisfyFunctional :: "Packet \<Rightarrow> TargetList \<Rightarrow> bool" where
  "TargetList_trySatisfyFunctional pkt tgs =
     list_ex (\<lambda>t. Packet_trySatisfyFunctional (tg_pkt t) pkt) (tl_targets tgs)"

section \<open>Registers\<close>

record MSHR = QueueEntry +
  m_downstreamPending :: bool
  m_pendingModified :: bool
  m_postInvalidate :: bool
  m_postDowngrade :: bool
  m_wasWholeLineWrite :: bool
  m_isForward :: bool
  m_targets :: TargetList
  m_deferredTargets :: TargetList

definition MSHR_new :: "Addr \<times> Addr \<times> bool \<Rightarrow> MSHR" where
  "MSHR_new junk =
     QueueEntry.extend QueueEntry_new
       \<lparr>m_downstreamPending = False, m_pendingModified = False, m_postInvalidate = False,
        m_postDowngrade = False, m_wasWholeLineWrite = False, m_isForward = False,
        m_targets = TargetList_new junk, m_deferredTargets = TargetList_new junk\<rparr>"

definition MSHR_needsWritable :: "MSHR \<Rightarrow> bool" where
  "MSHR_needsWritable m = tl_needsWritable (m_targets m)"

definition MSHR_isCleaning :: "MSHR \<Rightarrow> bool result" where
  "MSHR_isCleaning m =
     (case tl_targets (m_targets m) of
        [] \<Rightarrow> Inl (Undef ''targets.front()'')
      | t # _ \<Rightarrow> Inr (Packet_isClean (tg_pkt t)))"

definition MSHR_isPendingModified :: "MSHR \<Rightarrow> bool result" where
  "MSHR_isPendingModified m = check ''inService'' (qe_inService m) (Inr (m_pendingModified m))"

definition MSHR_hasPostInvalidate :: "MSHR \<Rightarrow> bool result" where
  "MSHR_hasPostInvalidate m = check ''inService'' (qe_inService m) (Inr (m_postInvalidate m))"

definition MSHR_hasPostDowngrade :: "MSHR \<Rightarrow> bool result" where
  "MSHR_hasPostDowngrade m = check ''inService'' (qe_inService m) (Inr (m_postDowngrade m))"

definition MSHR_allocOnFill :: "MSHR \<Rightarrow> bool" where
  "MSHR_allocOnFill m = tl_allocOnFill (m_targets m)"

definition MSHR_hasFromCache :: "MSHR \<Rightarrow> bool" where
  "MSHR_hasFromCache m = tl_hasFromCache (m_targets m)"

definition MSHR_isWholeLineWrite :: "MSHR \<Rightarrow> bool" where
  "MSHR_isWholeLineWrite m = TargetList_isWholeLineWrite (m_targets m)"

definition MSHR_getNumTargets :: "MSHR \<Rightarrow> nat" where
  "MSHR_getNumTargets m = length (tl_targets (m_targets m)) + length (tl_targets (m_deferredTargets m))"

definition MSHR_hasTargets :: "MSHR \<Rightarrow> bool" where
  "MSHR_hasTargets m \<longleftrightarrow> tl_targets (m_targets m) \<noteq> []"

definition MSHR_getTarget :: "MSHR \<Rightarrow> Target result" where
  "MSHR_getTarget m = check ''hasTargets()'' (MSHR_hasTargets m) (Inr (hd (tl_targets (m_targets m))))"

definition MSHR_popTarget :: "MSHR \<Rightarrow> MSHR result" where
  "MSHR_popTarget m =
     defined ''targets.pop_front()'' (MSHR_hasTargets m)
       (Inr (m\<lparr>m_targets := (m_targets m)\<lparr>tl_targets := tl (tl_targets (m_targets m))\<rparr>\<rparr>))"

definition MSHR_allocate :: "'u upstream \<Rightarrow> Tick \<Rightarrow> Addr \<Rightarrow> u32 \<Rightarrow> Packet \<Rightarrow> Tick \<Rightarrow> Counter \<Rightarrow> bool \<Rightarrow>
    MSHR \<Rightarrow> 'u \<Rightarrow> (MSHR \<times> 'u) result" where
  "MSHR_allocate up now blk_addr blk_size target when_ready order alloc_on_fill m u =
     bindR (Packet_isSecure target) (\<lambda>sec.
       let m = m\<lparr>qe_blkAddr := blk_addr, qe_blkSize := blk_size, qe_isSecure := sec,
                 qe_readyTime := when_ready, qe_order := order, m_isForward := False,
                 m_wasWholeLineWrite := False,
                 qe_isUncacheable := Request_isUncacheable (p_req target),
                 qe_inService := False, m_downstreamPending := False,
                 m_targets := TargetList_init blk_addr (ucast blk_size) (m_targets m),
                 m_deferredTargets := TargetList_init blk_addr (ucast blk_size) (m_deferredTargets m)\<rparr>;
           source = (if p_cmd target = HardPFReq then FromPrefetcher else FromCPU)
       in bindR (TargetList_add up now target when_ready order source True alloc_on_fill (m_targets m) u)
            (\<lambda>(tgs, u).
               bindR (Packet_matchBlockAddr_pkt (tg_pkt (hd (tl_targets tgs))) blk_size target) (\<lambda>b.
                 check ''target->matchBlockAddr(targets.front().pkt, blkSize)'' b
                   (Inr (m\<lparr>m_targets := tgs\<rparr>, u)))))"

definition MSHR_clearDownstreamPending :: "'u upstream \<Rightarrow> MSHR \<Rightarrow> 'u \<Rightarrow> (MSHR \<times> 'u) result" where
  "MSHR_clearDownstreamPending up m u =
     check ''downstreamPending'' (m_downstreamPending m)
       (bindR (TargetList_clearDownstreamPending up (m_targets m) u) (\<lambda>(tgs, u).
          Inr (m\<lparr>m_downstreamPending := False, m_targets := tgs\<rparr>, u)))"

definition MSHR_markInService :: "'u upstream \<Rightarrow> bool \<Rightarrow> MSHR \<Rightarrow> 'u \<Rightarrow> (MSHR \<times> 'u) result" where
  "MSHR_markInService up pending_modified_resp m u =
     check ''!inService'' (\<not> qe_inService m)
       (let m = m\<lparr>qe_inService := True,
                  m_pendingModified := tl_needsWritable (m_targets m) \<or> pending_modified_resp,
                  m_postInvalidate := False, m_postDowngrade := False\<rparr>
        in bindR (if \<not> m_downstreamPending m then
                    bindR (TargetList_clearDownstreamPending up (m_targets m) u) (\<lambda>(tgs, u).
                      Inr (m\<lparr>m_targets := tgs\<rparr>, u))
                  else Inr (m, u)) (\<lambda>(m, u).
           Inr (m\<lparr>m_wasWholeLineWrite := MSHR_isWholeLineWrite m\<rparr>, u)))"

definition MSHR_deallocate :: "MSHR \<Rightarrow> MSHR result" where
  "MSHR_deallocate m =
     check ''targets.empty()'' (tl_targets (m_targets m) = [])
       (let m = m\<lparr>m_targets := TargetList_resetFlags (m_targets m)\<rparr>
        in check ''deferredTargets.isReset()'' (TargetList_isReset (m_deferredTargets m))
             (Inr (m\<lparr>qe_inService := False\<rparr>)))"

definition MSHR_allocateTarget :: "'u upstream \<Rightarrow> Tick \<Rightarrow> (nat \<Rightarrow> u8) \<Rightarrow> heap \<Rightarrow> Packet \<Rightarrow> Tick \<Rightarrow> Counter \<Rightarrow>
    bool \<Rightarrow> MSHR \<Rightarrow> 'u \<Rightarrow> (heap \<times> MSHR \<times> 'u) result" where
  "MSHR_allocateTarget up now junk h pkt whenReady order alloc_on_fill m u =
     check ''pkt->cmd != MemCmd::HardPFReq'' (p_cmd pkt \<noteq> HardPFReq)
     (defined ''targets.front()'' (MSHR_hasTargets m)
       (let tgt_pkt = tg_pkt (hd (tl_targets (m_targets m)))
        in bindR (if Request_isCacheMaintenance (p_req pkt) \<or>
                     Request_isCacheMaintenance (p_req tgt_pkt) \<or>
                     tl_targets (m_deferredTargets m) \<noteq> [] then Inr True
                  else if qe_inService m then
                    bindR (MSHR_hasPostInvalidate m) (\<lambda>pi.
                      if pi then Inr True
                      else bindR (Packet_needsWritable pkt) (\<lambda>nw.
                        if nw then
                          bindR (MSHR_isPendingModified m) (\<lambda>pm.
                          bindR (MSHR_hasPostDowngrade m) (\<lambda>pd.
                            Inr (\<not> pm \<or> pd \<or> m_isForward m)))
                        else Inr False))
                  else Inr False) (\<lambda>deferred.
           if deferred then
             bindR (if qe_inService m then
                      bindR (MSHR_hasPostInvalidate m) (\<lambda>pi.
                        if pi then replaceUpgrade junk h pkt else Inr (h, pkt))
                    else Inr (h, pkt)) (\<lambda>(h, pkt).
             bindR (TargetList_add up now pkt whenReady order FromCPU True alloc_on_fill
                      (m_deferredTargets m) u) (\<lambda>(tgs, u).
               Inr (h, m\<lparr>m_deferredTargets := tgs\<rparr>, u)))
           else
             bindR (TargetList_add up now pkt whenReady order FromCPU (\<not> qe_inService m) alloc_on_fill
                      (m_targets m) u) (\<lambda>(tgs, u).
               Inr (h, m\<lparr>m_targets := tgs\<rparr>, u)))))"

fun extract_snoops :: "Target list \<Rightarrow> (Target list \<times> Target list) result" where
  "extract_snoops [] = Inr ([], [])"
| "extract_snoops (t # ts) =
     (if mt_source t = FromCPU then
        bindR (extract_snoops ts) (\<lambda>(ready, rest). Inr (ready, t # rest))
      else check ''it->source == Target::FromSnoop'' (mt_source t = FromSnoop)
             (bindR (extract_snoops ts) (\<lambda>(ready, rest). Inr (t # ready, rest))))"

fun extract_all :: "Target list \<Rightarrow> Target list \<times> Target list" where
  "extract_all [] = ([], [])"
| "extract_all (t # ts) =
     (if p_cmd (tg_pkt t) = LockedRMWReadReq then ([t], t # ts)
      else case extract_all ts of (ready, rest) \<Rightarrow> (t # ready, rest))"

definition extractServiceableTargets ::
    "Addr \<times> Addr \<times> bool \<Rightarrow> Packet \<Rightarrow> MSHR \<Rightarrow> (TargetList \<times> MSHR) result" where
  "extractServiceableTargets junk pkt m =
     (let ready_targets = TargetList_init (qe_blkAddr m) (ucast (qe_blkSize m)) (TargetList_new junk)
      in bindR (if p_cmd pkt = ReadRespWithInvalidate then
                  (case tl_targets (m_targets m) of
                     [] \<Rightarrow> Inl (Undef ''targets.begin()'')
                   | t # ts \<Rightarrow>
                       check ''it->source == FromCPU || it->source == FromPrefetcher''
                         (mt_source t = FromCPU \<or> mt_source t = FromPrefetcher)
                         (if p_cmd (tg_pkt t) \<noteq> LockedRMWReadReq then
                            bindR (extract_snoops ts) (\<lambda>(ready, rest). Inr (t # ready, rest))
                          else Inr ([t], t # ts)))
                else Inr (extract_all (tl_targets (m_targets m)))) (\<lambda>(ready, rest).
         bindR (populateFlags (ready_targets\<lparr>tl_targets := ready\<rparr>)) (\<lambda>ready_targets.
         bindR (populateFlags ((m_targets m)\<lparr>tl_targets := rest\<rparr>)) (\<lambda>targets.
           Inr (ready_targets, m\<lparr>m_targets := targets\<rparr>)))))"

definition promoteDeferredTargets :: "Tick \<Rightarrow> MSHR \<Rightarrow> (bool \<times> MSHR) result" where
  "promoteDeferredTargets now m =
     (let targets = tl_targets (m_targets m);
          deferredTargets = tl_targets (m_deferredTargets m)
      in if targets = [] \<and> deferredTargets = [] then Inr (False, m)
         else
           let before = takeWhile (\<lambda>t. \<not> Request_isCacheMaintenance (p_req (tg_pkt t))) deferredTargets;
               (targets, deferredTargets) =
                 (if before = [] then
                    (if targets = [] then (targets @ take 1 deferredTargets, drop 1 deferredTargets)
                     else (targets, deferredTargets))
                  else (targets @ before, drop (length before) deferredTargets))
           in bindR (populateFlags ((m_deferredTargets m)\<lparr>tl_targets := deferredTargets\<rparr>)) (\<lambda>dl.
              bindR (populateFlags ((m_targets m)\<lparr>tl_targets := targets\<rparr>)) (\<lambda>tgs.
              defined ''targets.front()'' (targets \<noteq> [])
                (Inr (True, m\<lparr>m_targets := tgs, m_deferredTargets := dl, qe_order := tg_order (hd targets),
                              qe_readyTime := max now (tg_readyTime (hd targets))\<rparr>)))))"

fun spanR :: "('a \<Rightarrow> bool result) \<Rightarrow> 'a list \<Rightarrow> ('a list \<times> 'a list) result" where
  "spanR P [] = Inr ([], [])"
| "spanR P (x # xs) =
     bindR (P x) (\<lambda>b.
       if b then bindR (spanR P xs) (\<lambda>(ys, zs). Inr (x # ys, zs)) else Inr ([], x # xs))"

definition promoteIf :: "'u upstream \<Rightarrow> (Target \<Rightarrow> bool result) \<Rightarrow> MSHR \<Rightarrow> 'u \<Rightarrow> (MSHR \<times> 'u) result" where
  "promoteIf up pred m u =
     check ''!downstreamPending'' (\<not> m_downstreamPending m)
       (bindR (spanR pred (tl_targets (m_deferredTargets m))) (\<lambda>(promoted, rest).
        bindR (clearPending_loop up promoted u) (\<lambda>(promoted, u).
        bindR (populateFlags ((m_deferredTargets m)\<lparr>tl_targets := rest\<rparr>)) (\<lambda>dl.
          Inr (m\<lparr>m_targets := (m_targets m)\<lparr>tl_targets := tl_targets (m_targets m) @ promoted\<rparr>,
                 m_deferredTargets := dl\<rparr>, u)))))"

definition promoteReadable :: "'u upstream \<Rightarrow> MSHR \<Rightarrow> 'u \<Rightarrow> (MSHR \<times> 'u) result" where
  "promoteReadable up m u =
     (if tl_targets (m_deferredTargets m) \<noteq> [] then
        bindR (MSHR_hasPostInvalidate m) (\<lambda>pi.
          if \<not> pi then
            promoteIf up (\<lambda>t. check ''t.source == Target::FromCPU'' (mt_source t = FromCPU)
              (if Request_isCacheInvalidate (p_req (tg_pkt t)) then Inr False
               else bindR (Packet_needsWritable (tg_pkt t)) (\<lambda>nw. Inr (\<not> nw)))) m u
          else Inr (m, u))
      else Inr (m, u))"

definition promoteWritable :: "'u upstream \<Rightarrow> MSHR \<Rightarrow> 'u \<Rightarrow> (MSHR \<times> 'u) result" where
  "promoteWritable up m u =
     (case tl_targets (m_deferredTargets m) of
        [] \<Rightarrow> Inr (m, u)
      | t # _ \<Rightarrow>
          bindR (if tl_needsWritable (m_deferredTargets m) then
                   bindR (MSHR_hasPostInvalidate m) (\<lambda>pi.
                     if pi then Inr False
                     else bindR (MSHR_hasPostDowngrade m) (\<lambda>pd.
                       Inr (\<not> pd \<and> \<not> Request_isCacheInvalidate (p_req (tg_pkt t)))))
                 else Inr False) (\<lambda>promote.
            if promote then
              check ''!targets.needsWritable'' (\<not> tl_needsWritable (m_targets m))
                (promoteIf up (\<lambda>t. check ''t.source == Target::FromCPU'' (mt_source t = FromCPU)
                    (Inr (\<not> Request_isCacheInvalidate (p_req (tg_pkt t)))))
                  (m\<lparr>m_targets := (m_targets m)\<lparr>tl_needsWritable := True\<rparr>\<rparr>) u)
            else Inr (m, u)))"

definition MSHR_trySatisfyFunctional :: "MSHR \<Rightarrow> Packet \<Rightarrow> bool" where
  "MSHR_trySatisfyFunctional m pkt =
     (if Packet_isPrint pkt then False
      else TargetList_trySatisfyFunctional pkt (m_targets m) \<or>
           TargetList_trySatisfyFunctional pkt (m_deferredTargets m))"

definition MSHR_delay :: "Tick \<Rightarrow> Tick \<Rightarrow> MSHR \<Rightarrow> MSHR result" where
  "MSHR_delay now delay_ticks m =
     check ''readyTime <= curTick()'' (qe_readyTime m \<le> now)
       (Inr (m\<lparr>qe_readyTime := now + delay_ticks\<rparr>))"

definition MSHR_matchBlockAddr :: "MSHR \<Rightarrow> Addr \<Rightarrow> bool \<Rightarrow> bool result" where
  "MSHR_matchBlockAddr m addr is_secure =
     check ''hasTargets()'' (MSHR_hasTargets m) (Inr (qe_blkAddr m = addr \<and> qe_isSecure m = is_secure))"

definition MSHR_matchBlockAddr_pkt :: "MSHR \<Rightarrow> Packet \<Rightarrow> bool result" where
  "MSHR_matchBlockAddr_pkt m pkt =
     check ''hasTargets()'' (MSHR_hasTargets m)
       (Packet_matchBlockAddr (qe_blkAddr m) (qe_isSecure m) (qe_blkSize m) pkt)"

definition MSHR_conflictAddr :: "(Addr \<Rightarrow> bool \<Rightarrow> bool result) \<Rightarrow> MSHR \<Rightarrow> bool result" where
  "MSHR_conflictAddr entry_matchBlockAddr m =
     check ''hasTargets()'' (MSHR_hasTargets m) (entry_matchBlockAddr (qe_blkAddr m) (qe_isSecure m))"

definition updateLockedRMWReadTarget ::
    "(nat \<Rightarrow> nat) \<Rightarrow> u32 \<times> u32 \<Rightarrow> u64 \<Rightarrow> bool \<Rightarrow> Packet \<Rightarrow> MSHR \<Rightarrow> MSHR result" where
  "updateLockedRMWReadTarget clone junk reqptr is_front pkt m =
     check ''!targets.empty() && targets.front().pkt == pkt'' (MSHR_hasTargets m \<and> is_front)
       (bindR (Packet_new junk reqptr (Request_copy clone (p_req pkt)) LockedRMWReadReq) (\<lambda>p.
          Inr (m\<lparr>m_targets := (m_targets m)\<lparr>tl_targets :=
             (tl_targets (m_targets m))[0 := (hd (tl_targets (m_targets m)))\<lparr>tg_pkt := p\<rparr>]\<rparr>\<rparr>)))"

definition hasLockedRMWReadTarget :: "MSHR \<Rightarrow> bool" where
  "hasLockedRMWReadTarget m \<longleftrightarrow>
     tl_targets (m_targets m) \<noteq> [] \<and> p_cmd (tg_pkt (hd (tl_targets (m_targets m)))) = LockedRMWReadReq"

section \<open>The caches above\<close>

definition no_upstream :: "unit upstream" where
  "no_upstream =
     \<lparr>up_find = (\<lambda>pkt u. Inr None), up_mark = (\<lambda>i u. Inr u), up_clear = (\<lambda>i u. Inr u)\<rparr>"

type_synonym 'v mshr_level = "links \<times> (nat \<Rightarrow> MSHR option) \<times> 'v"

definition mshr_upstream :: "'v upstream \<Rightarrow> 'v mshr_level upstream" where
  "mshr_upstream up =
     \<lparr>up_find = (\<lambda>pkt (links, ms, v).
        case findNextSenderState (\<lambda>s. ms s \<noteq> None) links (p_senderState pkt) of
          None \<Rightarrow> Inl (Undef ''endless sender-state chain'')
        | Some r \<Rightarrow> Inr r),
      up_mark = (\<lambda>i (links, ms, v).
        case ms i of
          None \<Rightarrow> Inl (Undef ''mshr'')
        | Some m \<Rightarrow> check ''!mshr->downstreamPending'' (\<not> m_downstreamPending m)
            (Inr (links, ms(i \<mapsto> m\<lparr>m_downstreamPending := True\<rparr>), v))),
      up_clear = (\<lambda>i (links, ms, v).
        case ms i of
          None \<Rightarrow> Inl (Undef ''mshr'')
        | Some m \<Rightarrow> bindR (MSHR_clearDownstreamPending up m v) (\<lambda>(m, v). Inr (links, ms(i \<mapsto> m), v)))\<rparr>"

section \<open>Target lists\<close>

text \<open>
  What the cache gives an MSHR: request packets with a valid address and size that lie within one
  block.
\<close>

definition pkt_ok :: "u32 \<Rightarrow> Packet \<Rightarrow> bool" where
  "pkt_ok bs p \<longleftrightarrow> Packet_isRequest p \<and> isSet (p_flags p) PKT_VALID_ADDR \<and>
     isSet (p_flags p) PKT_VALID_SIZE \<and> 0 < unat (p_size p) \<and> (Request_hasPaddr (p_req p) \<or> Request_hasVaddr (p_req p)) \<and>
     unat (p_addr p AND ucast (bs - 1)) + unat (p_size p) \<le> unat bs"

definition sized :: "u32 \<Rightarrow> TargetList \<Rightarrow> bool" where
  "sized bs tgs \<longleftrightarrow> 0 < unat bs \<and> tl_blkSize tgs = ucast bs \<and> length (tl_writesBitmap tgs) = unat bs"

text \<open>Only writes set bits of the bitmap, and every write needs ownership or comes from a cache.\<close>

definition bits_cover :: "TargetList \<Rightarrow> bool" where
  "bits_cover tgs \<longleftrightarrow> (True \<in> set (tl_writesBitmap tgs) \<longrightarrow> tl_needsWritable tgs \<or> tl_hasFromCache tgs)"

definition marked :: "TargetList \<Rightarrow> bool" where
  "marked tgs \<longleftrightarrow> \<not> tl_canMergeWrites tgs \<or> tl_needsWritable tgs \<or> tl_hasFromCache tgs"

definition writable_cover :: "TargetList \<Rightarrow> bool" where
  "writable_cover tgs \<longleftrightarrow> (\<forall>t \<in> set (tl_targets tgs). mt_source t \<noteq> FromSnoop \<longrightarrow>
     MemCmd_needsWritable (p_cmd (tg_pkt t)) \<longrightarrow> tl_needsWritable tgs)"

lemma MemCmd_write_owner:
  "MemCmd_isWrite c \<Longrightarrow> MemCmd_isRequest c \<Longrightarrow> MemCmd_needsWritable c \<or> MemCmd_fromCache c"
  by (cases c) (simp_all add: MemCmd_query_defs MemCmd_table)

lemma marked_not_reset: "marked tgs \<Longrightarrow> \<not> TargetList_isReset tgs"
  by (auto simp: marked_def TargetList_isReset_def)

lemma fill_range_length:
  "off + n \<le> length bm \<Longrightarrow> length (fill_range off n bm) = length bm"
  by (simp add: fill_range_def)

lemma ucast_ucast_u32 [simp]: "(ucast (ucast (w :: u32) :: u64) :: u32) = w"
  by (intro bit_word_eqI) (auto simp: bit_simps)

lemma updateWriteFlags_ok:
  assumes p: "pkt_ok bs pkt" and s: "sized bs tgs" and b: "bits_cover tgs"
    and w: "Packet_isWrite pkt \<Longrightarrow> tl_needsWritable tgs \<or> tl_hasFromCache tgs"
  shows "\<exists>tgs'. updateWriteFlags pkt tgs = Inr tgs' \<and> sized bs tgs' \<and> bits_cover tgs' \<and> marked tgs' \<and>
    tl_targets tgs' = tl_targets tgs \<and> tl_needsWritable tgs' = tl_needsWritable tgs \<and>
    tl_hasFromCache tgs' = tl_hasFromCache tgs \<and> tl_allocOnFill tgs' = tl_allocOnFill tgs"
proof (cases "TargetList_isWholeLineWrite tgs")
  case True
  then have "True \<in> set (tl_writesBitmap tgs)"
    using s by (cases "tl_writesBitmap tgs") (auto simp: TargetList_isWholeLineWrite_def sized_def)
  with True s b show ?thesis by (simp add: updateWriteFlags_def bits_cover_def marked_def)
next
  case False
  note d = updateWriteFlags_def bits_cover_def marked_def sized_def
  show ?thesis
  proof (cases "tl_canMergeWrites tgs \<and> Packet_isWrite pkt")
    case True
    have "length (fill_range (unat (p_addr pkt AND ucast (bs - 1))) (unat (p_size pkt))
      (tl_writesBitmap tgs)) = unat bs"
      using p s by (simp add: fill_range_length pkt_ok_def sized_def)
    with True False p s w [OF conjunct2 [OF True]] show ?thesis
      by (simp add: d Let_def pkt_ok_def Packet_getOffset_def Packet_getAddr_def Packet_getSize_def
          Request_getFlags_def)
  next
    case f: False
    with False s b show ?thesis by (auto simp: d)
  qed
qed

lemma updateFlags_ok:
  assumes p: "pkt_ok bs pkt" and s: "sized bs tgs" and b: "bits_cover tgs"
  shows "\<exists>tgs'. updateFlags pkt src alloc tgs = Inr tgs' \<and> sized bs tgs' \<and> bits_cover tgs' \<and>
    tl_targets tgs' = tl_targets tgs \<and> (marked tgs \<or> src = FromCPU \<longrightarrow> marked tgs') \<and>
    tl_needsWritable tgs' = (tl_needsWritable tgs \<or> src \<noteq> FromSnoop \<and> MemCmd_needsWritable (p_cmd pkt)) \<and>
    tl_allocOnFill tgs' = (tl_allocOnFill tgs \<or> src \<noteq> FromSnoop \<and> alloc)"
proof -
  define t where "t = tgs\<lparr>
    tl_needsWritable := tl_needsWritable tgs \<or> MemCmd_needsWritable (p_cmd pkt),
    tl_hasUpgrade := tl_hasUpgrade tgs \<or> Packet_isUpgrade pkt \<or> p_cmd pkt = StoreCondReq,
    tl_allocOnFill := tl_allocOnFill tgs \<or> alloc\<rparr>"
  define t' where "t' = t\<lparr>tl_hasFromCache := tl_hasFromCache tgs \<or> Packet_fromCache pkt\<rparr>"
  have u: "updateFlags pkt src alloc tgs =
    (if src = FromSnoop then Inr tgs else if src = FromPrefetcher then Inr t else updateWriteFlags pkt t')"
    using p by (simp add: updateFlags_def Let_def Packet_needsWritable_def pkt_ok_def t'_def t_def)
  show ?thesis
  proof (cases src)
    case FromCPU
    have "sized bs t'" "bits_cover t'" using s b by (auto simp: sized_def bits_cover_def t'_def t_def)
    moreover have "tl_needsWritable t' \<or> tl_hasFromCache t'" if "Packet_isWrite pkt"
      using that p MemCmd_write_owner [of "p_cmd pkt"]
      by (auto simp: t'_def t_def pkt_ok_def Packet_isWrite_def Packet_isRequest_def Packet_fromCache_def)
    ultimately have "\<exists>tgs'. updateWriteFlags pkt t' = Inr tgs' \<and> sized bs tgs' \<and> bits_cover tgs' \<and>
      marked tgs' \<and> tl_targets tgs' = tl_targets t' \<and> tl_needsWritable tgs' = tl_needsWritable t' \<and>
      tl_hasFromCache tgs' = tl_hasFromCache t' \<and> tl_allocOnFill tgs' = tl_allocOnFill t'"
      by (intro updateWriteFlags_ok [OF p])
    then show ?thesis using FromCPU u by (auto simp: t'_def t_def)
  qed (use s b u in \<open>auto simp: sized_def bits_cover_def marked_def t_def\<close>)
qed

lemma resetFlags_simps [simp]:
  "tl_targets (TargetList_resetFlags tgs) = tl_targets tgs"
  "sized bs (TargetList_resetFlags tgs) \<longleftrightarrow> sized bs tgs"
  "bits_cover (TargetList_resetFlags tgs)"
  "TargetList_isReset (TargetList_resetFlags tgs)"
  "\<not> tl_needsWritable (TargetList_resetFlags tgs)"
  "\<not> tl_allocOnFill (TargetList_resetFlags tgs)"
  by (auto simp: TargetList_resetFlags_def sized_def bits_cover_def TargetList_isReset_def)

lemma populateFlags_loop_ok:
  "\<lbrakk>\<forall>t \<in> set ts. pkt_ok bs (tg_pkt t); sized bs tgs; bits_cover tgs\<rbrakk> \<Longrightarrow>
   \<exists>tgs'. populateFlags_loop ts tgs = Inr tgs' \<and> sized bs tgs' \<and> bits_cover tgs' \<and>
     tl_targets tgs' = tl_targets tgs \<and>
     (marked tgs \<or> (\<exists>t \<in> set ts. mt_source t = FromCPU) \<longrightarrow> marked tgs') \<and>
     tl_needsWritable tgs' = (tl_needsWritable tgs \<or>
       (\<exists>t \<in> set ts. mt_source t \<noteq> FromSnoop \<and> MemCmd_needsWritable (p_cmd (tg_pkt t)))) \<and>
     tl_allocOnFill tgs' = (tl_allocOnFill tgs \<or>
       (\<exists>t \<in> set ts. mt_source t \<noteq> FromSnoop \<and> mt_allocOnFill t))"
proof (induction ts arbitrary: tgs)
  case (Cons t ts)
  have "pkt_ok bs (tg_pkt t)" "\<forall>t \<in> set ts. pkt_ok bs (tg_pkt t)" using Cons.prems(1) by simp_all
  obtain t1 where t1: "updateFlags (tg_pkt t) (mt_source t) (mt_allocOnFill t) tgs = Inr t1" "sized bs t1"
    "bits_cover t1" "tl_targets t1 = tl_targets tgs" "marked tgs \<or> mt_source t = FromCPU \<longrightarrow> marked t1"
    "tl_needsWritable t1 = (tl_needsWritable tgs \<or> mt_source t \<noteq> FromSnoop \<and> MemCmd_needsWritable (p_cmd (tg_pkt t)))"
    "tl_allocOnFill t1 = (tl_allocOnFill tgs \<or> mt_source t \<noteq> FromSnoop \<and> mt_allocOnFill t)"
    using updateFlags_ok [OF \<open>pkt_ok bs (tg_pkt t)\<close> Cons.prems(2,3)] by blast
  obtain t2 where t2: "populateFlags_loop ts t1 = Inr t2" "sized bs t2" "bits_cover t2"
    "tl_targets t2 = tl_targets t1"
    "marked t1 \<or> (\<exists>t \<in> set ts. mt_source t = FromCPU) \<longrightarrow> marked t2"
    "tl_needsWritable t2 = (tl_needsWritable t1 \<or>
       (\<exists>t \<in> set ts. mt_source t \<noteq> FromSnoop \<and> MemCmd_needsWritable (p_cmd (tg_pkt t))))"
    "tl_allocOnFill t2 = (tl_allocOnFill t1 \<or> (\<exists>t \<in> set ts. mt_source t \<noteq> FromSnoop \<and> mt_allocOnFill t))"
    using Cons.IH [OF \<open>\<forall>t \<in> set ts. pkt_ok bs (tg_pkt t)\<close> t1(2,3)] by blast
  have "populateFlags_loop (t # ts) tgs = Inr t2" using t1(1) t2(1) by simp
  moreover have "marked tgs \<or> (\<exists>t \<in> set (t # ts). mt_source t = FromCPU) \<longrightarrow> marked t2"
    using t1(5) t2(5) by auto
  ultimately show ?case
    using t1(4,6,7) t2(2-4,6,7) by (intro exI [of _ t2]) simp
qed simp

lemma populateFlags_ok:
  assumes "\<forall>t \<in> set (tl_targets tgs). pkt_ok bs (tg_pkt t)" "tl_targets tgs \<noteq> [] \<Longrightarrow> sized bs tgs"
  shows "\<exists>tgs'. populateFlags tgs = Inr tgs' \<and> (sized bs tgs \<longrightarrow> sized bs tgs') \<and> bits_cover tgs' \<and>
    tl_targets tgs' = tl_targets tgs \<and>
    ((\<exists>t \<in> set (tl_targets tgs). mt_source t = FromCPU) \<longrightarrow> marked tgs') \<and>
    (tl_needsWritable tgs' \<longleftrightarrow>
       (\<exists>t \<in> set (tl_targets tgs). mt_source t \<noteq> FromSnoop \<and> MemCmd_needsWritable (p_cmd (tg_pkt t)))) \<and>
    (tl_allocOnFill tgs' \<longleftrightarrow>
       (\<exists>t \<in> set (tl_targets tgs). mt_source t \<noteq> FromSnoop \<and> mt_allocOnFill t))"
proof (cases "tl_targets tgs = []")
  case False
  then show ?thesis
    using populateFlags_loop_ok [of "tl_targets tgs" bs "TargetList_resetFlags tgs"] assms
    by (auto simp: populateFlags_def)
qed (simp add: populateFlags_def)

section \<open>Invariant\<close>

text \<open>
  \<open>MSHR_wf\<close> holds of every register, free ones included; \<open>MSHR_live\<close> of the allocated ones: the
  bitmaps have the size of the block, and the flags of the deferred list are reset when it is
  empty, which is what \<open>deallocate\<close> asserts.
\<close>

definition all_targets :: "MSHR \<Rightarrow> Target list" where
  "all_targets m = tl_targets (m_targets m) @ tl_targets (m_deferredTargets m)"

definition tlist_ok :: "u32 \<Rightarrow> TargetList \<Rightarrow> bool" where
  "tlist_ok bs tgs \<longleftrightarrow> (\<forall>t \<in> set (tl_targets tgs). pkt_ok bs (tg_pkt t)) \<and> bits_cover tgs \<and> writable_cover tgs"

definition deferred_ok :: "TargetList \<Rightarrow> bool" where
  "deferred_ok tgs \<longleftrightarrow> (\<forall>t \<in> set (tl_targets tgs). mt_source t = FromCPU) \<and> (tl_targets tgs \<noteq> [] \<longrightarrow> marked tgs)"

definition MSHR_live :: "u32 \<Rightarrow> MSHR \<Rightarrow> bool" where
  "MSHR_live bs m \<longleftrightarrow> qe_blkSize m = bs \<and> sized bs (m_targets m) \<and> sized bs (m_deferredTargets m) \<and>
     (tl_targets (m_deferredTargets m) = [] \<longrightarrow> TargetList_isReset (m_deferredTargets m))"

definition MSHR_wf :: "u32 \<Rightarrow> MSHR \<Rightarrow> bool" where
  "MSHR_wf bs m \<longleftrightarrow> tlist_ok bs (m_targets m) \<and> tlist_ok bs (m_deferredTargets m) \<and>
     deferred_ok (m_deferredTargets m) \<and>
     (\<forall>t \<in> set (tl_targets (m_targets m)). mt_source t \<noteq> FromSnoop) \<and>
     (\<forall>t \<in> set (tl (tl_targets (m_targets m))). mt_source t = FromCPU) \<and>
     \<not> m_postInvalidate m \<and> \<not> m_postDowngrade m"

lemmas MSHR_inv_defs = MSHR_wf_def MSHR_live_def tlist_ok_def deferred_ok_def

lemma MSHR_getNumTargets_all: "MSHR_getNumTargets m = length (all_targets m)"
  by (simp add: MSHR_getNumTargets_def all_targets_def)

lemma MSHR_new_wf: "MSHR_wf bs (MSHR_new junk)"
  by (simp add: MSHR_inv_defs MSHR_new_def QueueEntry.defs TargetList_new_def bits_cover_def writable_cover_def)

lemma init_simps [simp]:
  "tl_targets (TargetList_init a b tgs) = tl_targets tgs"
  "TargetList_isReset (TargetList_init a b tgs)"
  "bits_cover (TargetList_init a b tgs)"
  "\<not> tl_needsWritable (TargetList_init a b tgs)"
  by (simp_all add: TargetList_init_def)

lemma init_sized: "0 < unat bs \<Longrightarrow> sized bs (TargetList_init a (ucast bs) tgs)"
  by (simp add: TargetList_init_def sized_def vec_resize_def TargetList_resetFlags_def unat_ucast_u32)

lemma tlist_ok_empty: "tl_targets tgs = [] \<Longrightarrow> tlist_ok bs tgs \<longleftrightarrow> bits_cover tgs"
  by (simp add: tlist_ok_def writable_cover_def)

lemma populateFlags_tlist:
  assumes "\<forall>t \<in> set (tl_targets tgs). pkt_ok bs (tg_pkt t)" "sized bs tgs"
  shows "\<exists>tgs'. populateFlags tgs = Inr tgs' \<and> sized bs tgs' \<and> tlist_ok bs tgs' \<and>
    tl_targets tgs' = tl_targets tgs \<and> (tl_targets tgs = [] \<longrightarrow> TargetList_isReset tgs') \<and>
    ((\<forall>t \<in> set (tl_targets tgs). mt_source t = FromCPU) \<longrightarrow> deferred_ok tgs')"
proof -
  have r: "populateFlags tgs = Inr (TargetList_resetFlags tgs)" if "tl_targets tgs = []"
    using that by (simp add: populateFlags_def)
  obtain t' where t': "populateFlags tgs = Inr t'" "sized bs t'" "bits_cover t'"
    "tl_targets t' = tl_targets tgs"
    "(\<exists>t \<in> set (tl_targets tgs). mt_source t = FromCPU) \<longrightarrow> marked t'"
    "tl_needsWritable t' \<longleftrightarrow>
       (\<exists>t \<in> set (tl_targets tgs). mt_source t \<noteq> FromSnoop \<and> MemCmd_needsWritable (p_cmd (tg_pkt t)))"
    using populateFlags_ok [OF assms] assms(2) by blast
  have "tlist_ok bs t'" using t' assms(1) by (auto simp: tlist_ok_def writable_cover_def)
  moreover have "deferred_ok t'" if "\<forall>t \<in> set (tl_targets tgs). mt_source t = FromCPU"
    using that t'(4,5) by (cases "tl_targets tgs") (auto simp: deferred_ok_def)
  moreover have "TargetList_isReset t'" if "tl_targets tgs = []" using r [OF that] t'(1) by auto
  ultimately show ?thesis using t' by blast
qed

section \<open>Adding targets\<close>

text \<open>The MSHR of the cache above, if there is one, can be marked.\<close>

definition up_ready :: "'u upstream \<Rightarrow> Packet \<Rightarrow> 'u \<Rightarrow> bool" where
  "up_ready up pkt u \<longleftrightarrow> (\<exists>r. up_find up pkt u = Inr r \<and> (\<forall>m. r = Some m \<longrightarrow> (\<exists>u'. up_mark up m u = Inr u')))"

lemma up_ready_none [simp]: "up_ready no_upstream pkt u"
  by (simp add: up_ready_def no_upstream_def)

lemma TargetList_add_ok:
  assumes p: "pkt_ok bs pkt" and s: "sized bs tgs" and t: "tlist_ok bs tgs" and u: "up_ready up pkt u"
  shows "\<exists>tgs' u' mark. TargetList_add up now pkt rt ord src mp alloc tgs u = Inr (tgs', u') \<and>
    sized bs tgs' \<and> tlist_ok bs tgs' \<and> (marked tgs \<or> src = FromCPU \<longrightarrow> marked tgs') \<and>
    tl_targets tgs' = tl_targets tgs @ [Target_new now pkt rt ord src mark alloc] \<and>
    tl_needsWritable tgs' = (tl_needsWritable tgs \<or> src \<noteq> FromSnoop \<and> MemCmd_needsWritable (p_cmd pkt)) \<and>
    tl_allocOnFill tgs' = (tl_allocOnFill tgs \<or> src \<noteq> FromSnoop \<and> alloc)"
proof -
  have b: "bits_cover tgs" using t by (simp add: tlist_ok_def)
  obtain t1 where t1: "updateFlags pkt src alloc tgs = Inr t1" "sized bs t1" "bits_cover t1"
    "tl_targets t1 = tl_targets tgs" "marked tgs \<or> src = FromCPU \<longrightarrow> marked t1"
    "tl_needsWritable t1 = (tl_needsWritable tgs \<or> src \<noteq> FromSnoop \<and> MemCmd_needsWritable (p_cmd pkt))"
    "tl_allocOnFill t1 = (tl_allocOnFill tgs \<or> src \<noteq> FromSnoop \<and> alloc)"
    using updateFlags_ok [OF p s b, of src alloc] by blast
  define r where "r = (if mp then bindR (up_find up pkt u) (\<lambda>mshr. case mshr of
        Some m \<Rightarrow> bindR (up_mark up m u) (\<lambda>u. Inr (True, u)) | None \<Rightarrow> Inr (False, u))
      else Inr (False, u))"
  obtain q where q: "up_find up pkt u = Inr q" "\<forall>m. q = Some m \<longrightarrow> (\<exists>u'. up_mark up m u = Inr u')"
    using u unfolding up_ready_def by blast
  then have "\<exists>mark u'. r = Inr (mark, u')" by (cases mp; cases q) (auto simp: r_def)
  then obtain mark u' where "r = Inr (mark, u')" by blast
  then have mk: "TargetList_add up now pkt rt ord src mp alloc tgs u =
    Inr (t1\<lparr>tl_targets := tl_targets t1 @ [Target_new now pkt rt ord src mark alloc]\<rparr>, u')"
    using t1(1) by (simp add: TargetList_add_def r_def)
  let ?t = "t1\<lparr>tl_targets := tl_targets t1 @ [Target_new now pkt rt ord src mark alloc]\<rparr>"
  have "tlist_ok bs ?t"
    using t p t1(3,4,6)
    by (auto simp: tlist_ok_def writable_cover_def bits_cover_def Target_new_def QTarget_new_def QTarget.defs)
  moreover have "sized bs ?t" "marked ?t = marked t1" using t1(2) by (simp_all add: sized_def marked_def)
  ultimately show ?thesis
    using mk t1(4-7) by (intro exI [of _ ?t] exI [of _ u'] exI [of _ mark]) simp
qed

lemma Target_new_simps [simp]:
  "tg_pkt (Target_new now pkt rt ord src mark alloc) = pkt"
  "mt_source (Target_new now pkt rt ord src mark alloc) = src"
  "tg_order (Target_new now pkt rt ord src mark alloc) = ord"
  "tg_readyTime (Target_new now pkt rt ord src mark alloc) = rt"
  by (simp_all add: Target_new_def QTarget_new_def QTarget.defs)

lemma pkt_ok_match: "pkt_ok bs pkt \<Longrightarrow> Packet_matchBlockAddr_pkt pkt bs pkt = Inr True"
  by (simp add: pkt_ok_def Packet_matchBlockAddr_pkt_def Packet_matchBlockAddr_def
      Packet_getBlockAddr_def Packet_getAddr_def Packet_isSecure_def)

lemma MSHR_allocate_ok:
  assumes wf: "MSHR_wf bs m" and idle: "MSHR_getNumTargets m = 0" and p: "pkt_ok bs pkt"
    and u: "up_ready up pkt u"
  shows "\<exists>m' u' t. MSHR_allocate up now blk_addr bs pkt wr ord aof m u = Inr (m', u') \<and> MSHR_wf bs m' \<and>
    MSHR_live bs m' \<and> \<not> qe_inService m' \<and> tl_targets (m_targets m') = [t] \<and> all_targets m' = [t] \<and>
    tg_pkt t = pkt \<and> tg_order t = ord \<and>
    qe_blkAddr m' = blk_addr \<and> qe_blkSize m' = bs \<and> qe_isSecure m' = p_isSecure pkt \<and>
    qe_readyTime m' = wr \<and> qe_order m' = ord \<and> qe_isUncacheable m' = Request_isUncacheable (p_req pkt) \<and>
    \<not> m_wasWholeLineWrite m' \<and> tl_allocOnFill (m_targets m') = aof \<and>
    mt_source t = (if p_cmd pkt = HardPFReq then FromPrefetcher else FromCPU)"
proof -
  have e: "tl_targets (m_targets m) = []" "tl_targets (m_deferredTargets m) = []"
    using idle by (simp_all add: MSHR_getNumTargets_def)
  have bs: "0 < unat bs" using p by (simp add: pkt_ok_def)
  let ?src = "if p_cmd pkt = HardPFReq then FromPrefetcher else FromCPU"
  let ?i = "TargetList_init blk_addr (ucast bs) (m_targets m)"
  let ?d = "TargetList_init blk_addr (ucast bs) (m_deferredTargets m)"
  have sec: "Packet_isSecure pkt = Inr (p_isSecure pkt)" using p by (simp add: Packet_isSecure_def pkt_ok_def)
  have "tlist_ok bs ?i" using e by (simp add: tlist_ok_empty)
  then obtain tgs u' mark where a: "TargetList_add up now pkt wr ord ?src True aof ?i u = Inr (tgs, u')"
    "sized bs tgs" "tlist_ok bs tgs" "tl_targets tgs = tl_targets ?i @ [Target_new now pkt wr ord ?src mark aof]"
    "tl_allocOnFill tgs = (tl_allocOnFill ?i \<or> ?src \<noteq> FromSnoop \<and> aof)"
    using TargetList_add_ok [OF p init_sized [OF bs] _ u, where now = now and rt = wr and ord = ord and src = ?src and
        mp = True and alloc = aof] by blast
  then have tg: "tl_targets tgs = [Target_new now pkt wr ord ?src mark aof]" "tl_allocOnFill tgs = aof"
    using e(1) by (simp_all add: TargetList_init_def TargetList_resetFlags_def)
  let ?m = "m\<lparr>qe_blkAddr := blk_addr, qe_blkSize := bs, qe_isSecure := p_isSecure pkt,
     qe_readyTime := wr, qe_order := ord, m_isForward := False, m_wasWholeLineWrite := False,
     qe_isUncacheable := Request_isUncacheable (p_req pkt), qe_inService := False,
     m_downstreamPending := False, m_targets := tgs, m_deferredTargets := ?d\<rparr>"
  have r: "MSHR_allocate up now blk_addr bs pkt wr ord aof m u = Inr (?m, u')"
    using a(1) tg sec pkt_ok_match [OF p] by (simp add: MSHR_allocate_def Let_def)
  moreover have "MSHR_wf bs ?m" "MSHR_live bs ?m"
    using wf a(2,3) tg e bs
    by (simp_all add: MSHR_wf_def MSHR_live_def deferred_ok_def tlist_ok_empty init_sized)
  ultimately show ?thesis
    using tg e(2)
    by (intro exI [of _ ?m] exI [of _ u'] exI [of _ "Target_new now pkt wr ord ?src mark aof"])
      (simp add: all_targets_def)
qed

text \<open>A later target joins the end of the sequence of targets.\<close>

lemma MSHR_allocateTarget_ok:
  assumes wf: "MSHR_wf bs m" "MSHR_live bs m" and h: "MSHR_hasTargets m" and p: "pkt_ok bs pkt"
    and c: "p_cmd pkt \<noteq> HardPFReq" and u: "up_ready up pkt u"
  shows "\<exists>m' u' mark. MSHR_allocateTarget up now junk hp pkt wr ord aof m u = Inr (hp, m', u') \<and>
    MSHR_wf bs m' \<and> MSHR_live bs m' \<and> qe_inService m' = qe_inService m \<and>
    all_targets m' = all_targets m @ [Target_new now pkt wr ord FromCPU mark aof] \<and>
    (tl_targets (m_deferredTargets m) \<noteq> [] \<longrightarrow> m_targets m' = m_targets m) \<and> MSHR_hasTargets m' \<and>
    qe_blkAddr m' = qe_blkAddr m \<and> qe_isSecure m' = qe_isSecure m \<and> qe_readyTime m' = qe_readyTime m \<and>
    m_wasWholeLineWrite m' = m_wasWholeLineWrite m \<and>
    (tl_allocOnFill (m_targets m) \<longrightarrow> tl_allocOnFill (m_targets m')) \<and>
    (\<not> qe_inService m \<and> tl_targets (m_deferredTargets m) = [] \<and>
     (\<forall>p \<in> set (pkt # map tg_pkt (all_targets m)). \<not> Request_isCacheMaintenance (p_req p)) \<longrightarrow>
     tl_targets (m_deferredTargets m') = [])"
proof -
  let ?T = "m_targets m" and ?D = "m_deferredTargets m"
  define def where "def \<longleftrightarrow> Request_isCacheMaintenance (p_req pkt) \<or>
    Request_isCacheMaintenance (p_req (tg_pkt (hd (tl_targets ?T)))) \<or> tl_targets ?D \<noteq> [] \<or>
    (qe_inService m \<and> MemCmd_needsWritable (p_cmd pkt) \<and> (\<not> m_pendingModified m \<or> m_isForward m))"
  have n: "\<not> m_postInvalidate m" "\<not> m_postDowngrade m" using wf(1) by (simp_all add: MSHR_wf_def)
  have nw: "Packet_needsWritable pkt = Inr (MemCmd_needsWritable (p_cmd pkt))"
    using p by (simp add: Packet_needsWritable_def pkt_ok_def)
  have r: "MSHR_allocateTarget up now junk hp pkt wr ord aof m u =
    (if def then bindR (TargetList_add up now pkt wr ord FromCPU True aof ?D u)
                   (\<lambda>(tgs, u). Inr (hp, m\<lparr>m_deferredTargets := tgs\<rparr>, u))
     else bindR (TargetList_add up now pkt wr ord FromCPU (\<not> qe_inService m) aof ?T u)
                   (\<lambda>(tgs, u). Inr (hp, m\<lparr>m_targets := tgs\<rparr>, u)))"
    using c h n nw by (auto simp: MSHR_allocateTarget_def def_def Let_def MSHR_hasPostInvalidate_def
        MSHR_isPendingModified_def MSHR_hasPostDowngrade_def)
  have ok: "sized bs ?T" "sized bs ?D" "tlist_ok bs ?T" "tlist_ok bs ?D"
    using wf by (simp_all add: MSHR_wf_def MSHR_live_def)
  show ?thesis
  proof (cases "def")
    case True
    obtain tgs u' mark where a: "TargetList_add up now pkt wr ord FromCPU True aof ?D u = Inr (tgs, u')"
      "sized bs tgs" "tlist_ok bs tgs" "marked tgs"
      "tl_targets tgs = tl_targets ?D @ [Target_new now pkt wr ord FromCPU mark aof]"
      using TargetList_add_ok [OF p ok(2,4) u] by blast
    have "\<not> (\<not> qe_inService m \<and> tl_targets ?D = [] \<and>
      (\<forall>p \<in> set (pkt # map tg_pkt (all_targets m)). \<not> Request_isCacheMaintenance (p_req p)))"
      using True h by (auto simp: def_def all_targets_def MSHR_hasTargets_def)
    with a show ?thesis
      using r True wf h by (auto simp: MSHR_wf_def MSHR_live_def deferred_ok_def all_targets_def MSHR_hasTargets_def)
  next
    case False
    obtain tgs u' mark where a: "TargetList_add up now pkt wr ord FromCPU (\<not> qe_inService m) aof ?T u = Inr (tgs, u')"
      "sized bs tgs" "tlist_ok bs tgs"
      "tl_targets tgs = tl_targets ?T @ [Target_new now pkt wr ord FromCPU mark aof]"
      "tl_allocOnFill ?T \<longrightarrow> tl_allocOnFill tgs"
      using TargetList_add_ok [OF p ok(1,3) u] by blast
    then show ?thesis
      using r False wf h by (auto simp: MSHR_wf_def MSHR_live_def all_targets_def def_def MSHR_hasTargets_def)
  qed
qed

section \<open>Releasing and promoting targets\<close>

lemma MSHR_deallocate_release:
  assumes "MSHR_wf bs m" "MSHR_deallocate m = Inr m'"
  shows "all_targets m = [] \<and> MSHR_wf bs m' \<and> MSHR_getNumTargets m' = 0 \<and> \<not> qe_inService m'"
proof -
  have d: "tl_targets (m_targets m) = []" "TargetList_isReset (m_deferredTargets m)"
    and m': "m' = m\<lparr>m_targets := TargetList_resetFlags (m_targets m), qe_inService := False\<rparr>"
    using assms(2) by (auto simp: MSHR_deallocate_def Let_def)
  have "tl_targets (m_deferredTargets m) = []"
    using assms(1) d(2) marked_not_reset [of "m_deferredTargets m"] by (auto simp: MSHR_wf_def deferred_ok_def)
  with assms(1) d m' show ?thesis
    by (simp add: all_targets_def MSHR_getNumTargets_def MSHR_wf_def tlist_ok_empty)
qed

lemma MSHR_deallocate_total:
  "MSHR_live bs m \<Longrightarrow> all_targets m = [] \<Longrightarrow> \<exists>m'. MSHR_deallocate m = Inr m'"
  by (simp add: MSHR_deallocate_def MSHR_live_def all_targets_def Let_def)

lemma writable_cover_subset:
  "writable_cover tgs \<Longrightarrow> set ts \<subseteq> set (tl_targets tgs) \<Longrightarrow> writable_cover (tgs\<lparr>tl_targets := ts\<rparr>)"
  by (auto simp: writable_cover_def)

lemma MSHR_popTarget_ok:
  assumes "MSHR_wf bs m" "MSHR_live bs m" "MSHR_hasTargets m"
  shows "\<exists>m'. MSHR_popTarget m = Inr m' \<and> MSHR_wf bs m' \<and> MSHR_live bs m' \<and>
    qe_inService m' = qe_inService m \<and> all_targets m' = tl (all_targets m)"
proof -
  obtain t ts where ts: "tl_targets (m_targets m) = t # ts"
    using assms(3) by (auto simp: MSHR_hasTargets_def neq_Nil_conv)
  let ?T = "(m_targets m)\<lparr>tl_targets := ts\<rparr>"
  have "tlist_ok bs ?T"
    using assms(1) ts writable_cover_subset [of "m_targets m" ts]
    by (auto simp: MSHR_wf_def tlist_ok_def bits_cover_def)
  moreover have "\<forall>x \<in> set (tl ts). mt_source x = FromCPU"
    using assms(1) ts by (cases ts) (auto simp: MSHR_wf_def)
  ultimately show ?thesis
    using assms ts by (simp add: MSHR_popTarget_def MSHR_wf_def MSHR_live_def all_targets_def sized_def)
qed

lemma extract_all_result:
  "extract_all ts =
     (takeWhile (\<lambda>t. p_cmd (tg_pkt t) \<noteq> LockedRMWReadReq) ts @
        take 1 (dropWhile (\<lambda>t. p_cmd (tg_pkt t) \<noteq> LockedRMWReadReq) ts),
      dropWhile (\<lambda>t. p_cmd (tg_pkt t) \<noteq> LockedRMWReadReq) ts)"
  by (induction ts) auto

lemma extract_snoops_cpu:
  "\<forall>t \<in> set ts. mt_source t = FromCPU \<Longrightarrow> extract_snoops ts = Inr ([], ts)"
  by (induction ts) auto

lemma set_tl_subset: "set (tl xs) \<subseteq> set xs"
  by (cases xs) auto

lemma set_tl_dropWhile: "set (tl (dropWhile P xs)) \<subseteq> set (tl xs)"
proof (cases xs)
  case (Cons x ys)
  have "set (tl (dropWhile P ys)) \<subseteq> set ys"
    using set_tl_subset [of "dropWhile P ys"] set_dropWhileD [of _ P ys] by blast
  then show ?thesis using Cons by auto
qed simp

text \<open>
  The targets served by a response: all up to and including the first locked read, which also
  stays behind; only the first one for a response that invalidates the block.
\<close>

definition served_targets :: "Packet \<Rightarrow> Target list \<Rightarrow> Target list \<times> Target list" where
  "served_targets pkt ts =
     (if p_cmd pkt = ReadRespWithInvalidate \<and> p_cmd (tg_pkt (hd ts)) \<noteq> LockedRMWReadReq then ([hd ts], tl ts)
      else if p_cmd pkt = ReadRespWithInvalidate then ([hd ts], ts)
      else (let keep = dropWhile (\<lambda>t. p_cmd (tg_pkt t) \<noteq> LockedRMWReadReq) ts
            in (takeWhile (\<lambda>t. p_cmd (tg_pkt t) \<noteq> LockedRMWReadReq) ts @ take 1 keep, keep)))"

lemma served_targets_subset:
  assumes "ts \<noteq> []" "served_targets pkt ts = (ready, rest)"
  shows "set ready \<subseteq> set ts" "set rest \<subseteq> set ts" "set (tl rest) \<subseteq> set (tl ts)"
proof -
  let ?P = "\<lambda>t. p_cmd (tg_pkt t) \<noteq> LockedRMWReadReq"
  have w: "set (takeWhile ?P ts) \<subseteq> set ts" "set (dropWhile ?P ts) \<subseteq> set ts"
    "set (take 1 (dropWhile ?P ts)) \<subseteq> set ts"
    using set_takeWhileD [of _ ?P ts] set_dropWhileD [of _ ?P ts] set_take_subset [of 1 "dropWhile ?P ts"] by blast+
  have "set ready \<subseteq> set ts \<and> set rest \<subseteq> set ts \<and> set (tl rest) \<subseteq> set (tl ts)"
  proof (cases "p_cmd pkt = ReadRespWithInvalidate")
    case True
    then show ?thesis
      using assms set_tl_subset [of ts] set_tl_subset [of "tl ts"] by (auto simp: served_targets_def split: if_splits)
  next
    case False
    then have "ready = takeWhile ?P ts @ take 1 (dropWhile ?P ts)" "rest = dropWhile ?P ts"
      using assms(2) by (auto simp: served_targets_def Let_def)
    then show ?thesis using w set_tl_dropWhile [of ?P ts] by simp
  qed
  then show "set ready \<subseteq> set ts" "set rest \<subseteq> set ts" "set (tl rest) \<subseteq> set (tl ts)" by auto
qed

lemma extract_ok:
  assumes wf: "MSHR_wf bs m" "MSHR_live bs m" and h: "MSHR_hasTargets m"
    and s: "served_targets pkt (tl_targets (m_targets m)) = (ready, rest)"
  shows "\<exists>rt m'. extractServiceableTargets junk pkt m = Inr (rt, m') \<and> MSHR_wf bs m' \<and> MSHR_live bs m' \<and>
    tl_targets rt = ready \<and> tlist_ok bs rt \<and> tl_targets (m_targets m') = rest \<and>
    m_deferredTargets m' = m_deferredTargets m \<and> qe_inService m' = qe_inService m"
proof -
  have b: "qe_blkSize m = bs" using wf(2) by (simp add: MSHR_live_def)
  let ?T = "m_targets m" and ?R = "TargetList_init (qe_blkAddr m) (ucast (qe_blkSize m)) (TargetList_new junk)"
  obtain t ts where ts: "tl_targets ?T = t # ts"
    using h by (auto simp: MSHR_hasTargets_def neq_Nil_conv)
  have src: "mt_source t \<noteq> FromSnoop" "\<forall>t \<in> set ts. mt_source t = FromCPU"
    and pk: "\<forall>t \<in> set (tl_targets ?T). pkt_ok bs (tg_pkt t)" and sz: "sized bs ?T"
    using wf ts by (auto simp: MSHR_wf_def MSHR_live_def tlist_ok_def)
  have sub: "set ready \<subseteq> set (tl_targets ?T)" "set rest \<subseteq> set (tl_targets ?T)" "set (tl rest) \<subseteq> set ts"
    using served_targets_subset [OF _ s] ts by simp_all
  have e: "extractServiceableTargets junk pkt m =
    bindR (populateFlags (?R\<lparr>tl_targets := ready\<rparr>)) (\<lambda>ready_targets.
    bindR (populateFlags (?T\<lparr>tl_targets := rest\<rparr>)) (\<lambda>targets. Inr (ready_targets, m\<lparr>m_targets := targets\<rparr>)))"
  proof -
    have "mt_source t = FromCPU \<or> mt_source t = FromPrefetcher" using src(1) by (cases "mt_source t") auto
    then show ?thesis
      using s ts extract_snoops_cpu [OF src(2)] unfolding extractServiceableTargets_def Let_def
      by (auto simp: served_targets_def extract_all_result Let_def split: if_splits simp del: extract_all.simps)
  qed
  have "sized bs (?R\<lparr>tl_targets := ready\<rparr>)" "sized bs (?T\<lparr>tl_targets := rest\<rparr>)"
    using init_sized [of bs "qe_blkAddr m" "TargetList_new junk"] sz b by (simp_all add: sized_def)
  moreover have "\<forall>t \<in> set (tl_targets (?R\<lparr>tl_targets := ready\<rparr>)). pkt_ok bs (tg_pkt t)"
    "\<forall>t \<in> set (tl_targets (?T\<lparr>tl_targets := rest\<rparr>)). pkt_ok bs (tg_pkt t)"
    using sub pk by auto
  ultimately obtain r' t' where
    r': "populateFlags (?R\<lparr>tl_targets := ready\<rparr>) = Inr r'" "tlist_ok bs r'" "tl_targets r' = ready" and
    t': "populateFlags (?T\<lparr>tl_targets := rest\<rparr>) = Inr t'" "tlist_ok bs t'" "tl_targets t' = rest" "sized bs t'"
    using populateFlags_tlist [of "?R\<lparr>tl_targets := ready\<rparr>" bs]
      populateFlags_tlist [of "?T\<lparr>tl_targets := rest\<rparr>" bs] by auto
  have "MSHR_wf bs (m\<lparr>m_targets := t'\<rparr>)" "MSHR_live bs (m\<lparr>m_targets := t'\<rparr>)"
    using wf t' sub src by (auto simp: MSHR_wf_def MSHR_live_def)
  with e r' t' show ?thesis by simp
qed

lemma promoteDeferred_ok:
  assumes wf: "MSHR_wf bs m" "MSHR_live bs m"
  shows "if all_targets m = [] then promoteDeferredTargets now m = Inr (False, m)
    else \<exists>m'. promoteDeferredTargets now m = Inr (True, m') \<and> MSHR_wf bs m' \<and> MSHR_live bs m' \<and>
      MSHR_hasTargets m' \<and> all_targets m' = all_targets m \<and> qe_inService m' = qe_inService m \<and>
      qe_order m' = tg_order (hd (all_targets m))"
proof (cases "all_targets m = []")
  case True
  then show ?thesis by (simp add: promoteDeferredTargets_def all_targets_def)
next
  case False
  let ?ts = "tl_targets (m_targets m)" and ?ds = "tl_targets (m_deferredTargets m)"
  define before where "before = takeWhile (\<lambda>t. \<not> Request_isCacheMaintenance (p_req (tg_pkt t))) ?ds"
  define k where "k = (if before = [] then if ?ts = [] then 1 else 0 else length before)"
  let ?T = "(m_targets m)\<lparr>tl_targets := ?ts @ take k ?ds\<rparr>" and ?D = "(m_deferredTargets m)\<lparr>tl_targets := drop k ?ds\<rparr>"
  have b: "before = take (length before) ?ds" unfolding before_def by (metis takeWhile_eq_take)
  have ne: "?ts @ take k ?ds \<noteq> []" using False b by (auto simp: k_def all_targets_def)
  have r: "promoteDeferredTargets now m =
    bindR (populateFlags ?D) (\<lambda>dl. bindR (populateFlags ?T) (\<lambda>tgs.
      Inr (True, m\<lparr>m_targets := tgs, m_deferredTargets := dl, qe_order := tg_order (hd (?ts @ take k ?ds)),
                   qe_readyTime := max now (tg_readyTime (hd (?ts @ take k ?ds)))\<rparr>)))"
    using False ne b
    by (auto simp: promoteDeferredTargets_def Let_def k_def all_targets_def before_def [symmetric])
  have dsrc: "\<forall>t \<in> set ?ds. mt_source t = FromCPU" using wf(1) by (simp add: MSHR_wf_def deferred_ok_def)
  have ok: "\<forall>t \<in> set (tl_targets ?T). pkt_ok bs (tg_pkt t)" "sized bs ?T"
    "\<forall>t \<in> set (tl_targets ?D). pkt_ok bs (tg_pkt t)" "sized bs ?D"
    "\<forall>t \<in> set (tl_targets ?D). mt_source t = FromCPU"
    using wf dsrc by (auto simp: MSHR_wf_def MSHR_live_def tlist_ok_def sized_def dest!: in_set_takeD in_set_dropD)
  obtain t' where t': "populateFlags ?T = Inr t'" "sized bs t'" "tlist_ok bs t'" "tl_targets t' = ?ts @ take k ?ds"
    using populateFlags_tlist [OF ok(1,2)] by auto
  obtain d' where d': "populateFlags ?D = Inr d'" "sized bs d'" "tlist_ok bs d'" "tl_targets d' = drop k ?ds"
    "drop k ?ds = [] \<longrightarrow> TargetList_isReset d'" "deferred_ok d'"
    using populateFlags_tlist [OF ok(3,4)] ok(5) by auto
  let ?m = "m\<lparr>m_targets := t', m_deferredTargets := d', qe_order := tg_order (hd (?ts @ take k ?ds)),
                   qe_readyTime := max now (tg_readyTime (hd (?ts @ take k ?ds)))\<rparr>"
  have src: "\<forall>t \<in> set (?ts @ take k ?ds). mt_source t \<noteq> FromSnoop"
    using wf(1) dsrc by (auto simp: MSHR_wf_def dest!: in_set_takeD)
  have "\<forall>t \<in> set (tl (?ts @ take k ?ds)). mt_source t = FromCPU"
  proof (cases ?ts)
    case Nil
    then show ?thesis using dsrc set_tl_subset [of "take k ?ds"] set_take_subset [of k ?ds] by auto
  next
    case (Cons t ts)
    then show ?thesis using wf(1) dsrc by (auto simp: MSHR_wf_def dest!: in_set_takeD)
  qed
  then have "MSHR_wf bs ?m" "MSHR_live bs ?m"
    using wf src t' d' by (simp_all add: MSHR_wf_def MSHR_live_def)
  moreover have "hd (?ts @ take k ?ds) = hd (all_targets m)"
    using ne by (cases ?ts; cases ?ds; cases k) (simp_all add: all_targets_def)
  ultimately show ?thesis
    using False r t' d' ne by (simp add: MSHR_hasTargets_def all_targets_def)
qed

text \<open>
  \<open>clearDownstreamPending\<close> changes only the marks of targets, so lists are compared without them.
\<close>

definition unmarked :: "Target \<Rightarrow> Target" where
  "unmarked t = t\<lparr>mt_markedPending := False\<rparr>"

lemma unmarked_simps [simp]:
  "tg_pkt (unmarked t) = tg_pkt t" "mt_source (unmarked t) = mt_source t"
  by (simp_all add: unmarked_def)

lemma clearPending_loop_unmarked:
  "clearPending_loop up ts u = Inr (ts', u') \<Longrightarrow> map unmarked ts' = map unmarked ts"
  by (induction ts arbitrary: u ts' u')
    (auto simp: unmarked_def split: if_splits option.splits prod.splits)

lemma unmarked_ball:
  assumes "map unmarked ts' = map unmarked ts"
  shows "(\<forall>t \<in> set ts'. Q (tg_pkt t) (mt_source t)) \<longleftrightarrow> (\<forall>t \<in> set ts. Q (tg_pkt t) (mt_source t))"
proof -
  have "(\<forall>t \<in> set xs. Q (tg_pkt t) (mt_source t)) \<longleftrightarrow> (\<forall>t \<in> set (map unmarked xs). Q (tg_pkt t) (mt_source t))" for xs
    by simp
  with assms show ?thesis by metis
qed

lemma MSHR_wf_unmark:
  assumes wf: "MSHR_wf bs m" and e: "map unmarked ts = map unmarked (tl_targets (m_targets m))"
  shows "MSHR_wf bs (m\<lparr>m_targets := (m_targets m)\<lparr>tl_targets := ts\<rparr>\<rparr>)"
proof -
  have e': "map unmarked (tl ts) = map unmarked (tl (tl_targets (m_targets m)))" using e by (metis map_tl)
  have "tlist_ok bs ((m_targets m)\<lparr>tl_targets := ts\<rparr>)"
    using wf unmarked_ball [OF e, of "\<lambda>p s. pkt_ok bs p"]
      unmarked_ball [OF e, of "\<lambda>p s. s \<noteq> FromSnoop \<longrightarrow> MemCmd_needsWritable (p_cmd p) \<longrightarrow> tl_needsWritable (m_targets m)"]
    by (simp add: MSHR_wf_def tlist_ok_def bits_cover_def writable_cover_def)
  then show ?thesis
    using wf unmarked_ball [OF e, of "\<lambda>p s. s \<noteq> FromSnoop"] unmarked_ball [OF e', of "\<lambda>p s. s = FromCPU"]
    by (simp add: MSHR_wf_def)
qed

lemma MSHR_markInService_ok:
  assumes wf: "MSHR_wf bs m" "MSHR_live bs m" and r: "MSHR_markInService up pm m u = Inr (m', u')"
  shows "MSHR_wf bs m' \<and> MSHR_live bs m' \<and> \<not> qe_inService m \<and> qe_inService m' \<and>
    map unmarked (all_targets m') = map unmarked (all_targets m) \<and>
    m_pendingModified m' = (MSHR_needsWritable m \<or> pm) \<and> (MSHR_hasTargets m' = MSHR_hasTargets m)"
proof -
  obtain ts where ts: "map unmarked ts = map unmarked (tl_targets (m_targets m))"
    and m': "m' = m\<lparr>qe_inService := True, m_pendingModified := tl_needsWritable (m_targets m) \<or> pm,
      m_postInvalidate := False, m_postDowngrade := False,
      m_targets := (m_targets m)\<lparr>tl_targets := ts\<rparr>, m_wasWholeLineWrite := MSHR_isWholeLineWrite m\<rparr>"
    and ns: "\<not> qe_inService m"
  proof (cases "m_downstreamPending m")
    case True
    then show ?thesis using that [of "tl_targets (m_targets m)"] r
      by (simp add: MSHR_markInService_def Let_def MSHR_isWholeLineWrite_def)
  next
    case False
    then obtain ts where ts: "clearPending_loop up (tl_targets (m_targets m)) u = Inr (ts, u')"
      "m' = m\<lparr>qe_inService := True, m_pendingModified := tl_needsWritable (m_targets m) \<or> pm,
      m_postInvalidate := False, m_postDowngrade := False,
      m_targets := (m_targets m)\<lparr>tl_targets := ts\<rparr>, m_wasWholeLineWrite := MSHR_isWholeLineWrite m\<rparr>"
      "\<not> qe_inService m"
      using r by (auto simp: MSHR_markInService_def TargetList_clearDownstreamPending_def Let_def
          MSHR_isWholeLineWrite_def TargetList_isWholeLineWrite_def)
    show ?thesis by (rule that [OF clearPending_loop_unmarked [OF ts(1)] ts(2,3)])
  qed
  have "MSHR_wf bs m'" "MSHR_live bs m'"
    using MSHR_wf_unmark [OF wf(1) ts] wf(2) m' by (simp_all add: MSHR_wf_def MSHR_live_def sized_def)
  moreover have "ts = [] \<longleftrightarrow> tl_targets (m_targets m) = []" using ts by (metis map_is_Nil_conv)
  ultimately show ?thesis
    using m' ts ns by (simp add: all_targets_def MSHR_needsWritable_def MSHR_hasTargets_def)
qed

lemma no_upstream_clear [simp]: "clearPending_loop no_upstream ts u = Inr (map unmarked ts, u)"
proof (induction ts arbitrary: u)
  case (Cons t ts)
  have "mt_markedPending t \<or> unmarked t = t" by (cases t) (auto simp: unmarked_def)
  then show ?case using Cons by (auto simp: no_upstream_def unmarked_def)
qed simp

lemma MSHR_markInService_total:
  "\<not> qe_inService m \<Longrightarrow> \<exists>m' u'. MSHR_markInService no_upstream pm m u = Inr (m', u')"
  by (simp add: MSHR_markInService_def Let_def TargetList_clearDownstreamPending_def)

lemma spanR_append: "spanR P xs = Inr (ys, zs) \<Longrightarrow> xs = ys @ zs \<and> (\<forall>y \<in> set ys. P y = Inr True)"
  by (induction xs arbitrary: ys zs) (auto split: if_splits prod.splits)

lemma promoteIf_ok:
  assumes wf: "MSHR_wf bs m" "MSHR_live bs m" and r: "promoteIf up P m u = Inr (m', u')"
    and w: "\<And>t. P t = Inr True \<Longrightarrow> MemCmd_needsWritable (p_cmd (tg_pkt t)) \<Longrightarrow> tl_needsWritable (m_targets m)"
  shows "MSHR_wf bs m' \<and> MSHR_live bs m' \<and> qe_inService m' = qe_inService m \<and>
    map unmarked (all_targets m') = map unmarked (all_targets m)"
proof -
  let ?D = "m_deferredTargets m" and ?T = "m_targets m"
  obtain pr rest pr' dl where sp: "spanR P (tl_targets ?D) = Inr (pr, rest)"
    and cl: "clearPending_loop up pr u = Inr (pr', u')"
    and dl: "populateFlags (?D\<lparr>tl_targets := rest\<rparr>) = Inr dl"
    and m': "m' = m\<lparr>m_targets := ?T\<lparr>tl_targets := tl_targets ?T @ pr'\<rparr>, m_deferredTargets := dl\<rparr>"
    using r by (auto simp: promoteIf_def)
  note sa = spanR_append [OF sp] and cu = clearPending_loop_unmarked [OF cl]
  have d: "\<forall>t \<in> set rest. pkt_ok bs (tg_pkt t)" "\<forall>t \<in> set rest. mt_source t = FromCPU"
    "\<forall>t \<in> set pr. pkt_ok bs (tg_pkt t)" "\<forall>t \<in> set pr. mt_source t = FromCPU"
    using wf(1) sa by (auto simp: MSHR_wf_def tlist_ok_def deferred_ok_def)
  have p: "\<forall>t \<in> set pr'. pkt_ok bs (tg_pkt t)" "\<forall>t \<in> set pr'. mt_source t = FromCPU"
    "\<forall>t \<in> set pr'. MemCmd_needsWritable (p_cmd (tg_pkt t)) \<longrightarrow> tl_needsWritable ?T"
    using d(3,4) sa w unmarked_ball [OF cu, of "\<lambda>p s. pkt_ok bs p"] unmarked_ball [OF cu, of "\<lambda>p s. s = FromCPU"]
      unmarked_ball [OF cu, of "\<lambda>p s. MemCmd_needsWritable (p_cmd p) \<longrightarrow> tl_needsWritable ?T"] by blast+
  have "sized bs (?D\<lparr>tl_targets := rest\<rparr>)" using wf(2) by (simp add: MSHR_live_def sized_def)
  then have dk: "sized bs dl" "tlist_ok bs dl" "tl_targets dl = rest" "rest = [] \<longrightarrow> TargetList_isReset dl"
    "deferred_ok dl"
    using populateFlags_tlist [of "?D\<lparr>tl_targets := rest\<rparr>" bs] d dl by auto
  have "tlist_ok bs (?T\<lparr>tl_targets := tl_targets ?T @ pr'\<rparr>)"
    using wf(1) p by (auto simp: MSHR_wf_def tlist_ok_def bits_cover_def writable_cover_def)
  moreover have "\<forall>t \<in> set (tl (tl_targets ?T @ pr')). mt_source t = FromCPU"
    using wf(1) p(2) set_tl_subset [of pr'] by (cases "tl_targets ?T") (auto simp: MSHR_wf_def)
  ultimately have "MSHR_wf bs m'" "MSHR_live bs m'"
    using wf m' dk p(2) by (auto simp: MSHR_wf_def MSHR_live_def sized_def)
  with m' dk(3) sa cu show ?thesis by (simp add: all_targets_def)
qed

lemma promoteReadable_ok:
  assumes wf: "MSHR_wf bs m" "MSHR_live bs m" and r: "promoteReadable up m u = Inr (m', u')"
  shows "MSHR_wf bs m' \<and> MSHR_live bs m' \<and> qe_inService m' = qe_inService m \<and>
    map unmarked (all_targets m') = map unmarked (all_targets m)"
proof (cases "m' = m")
  case False
  define P :: "Target \<Rightarrow> bool result" where "P = (\<lambda>t. check ''t.source == Target::FromCPU'' (mt_source t = FromCPU)
    (if Request_isCacheInvalidate (p_req (tg_pkt t)) then Inr False
     else bindR (Packet_needsWritable (tg_pkt t)) (\<lambda>nw. Inr (\<not> nw))))"
  have "promoteIf up P m u = Inr (m', u')"
    using r False by (auto simp: promoteReadable_def P_def split: if_splits)
  then show ?thesis
    by (rule promoteIf_ok [OF wf]) (auto simp: P_def Packet_needsWritable_def split: if_splits)
qed (use wf in simp)

lemma promoteWritable_ok:
  assumes wf: "MSHR_wf bs m" "MSHR_live bs m" and r: "promoteWritable up m u = Inr (m', u')"
  shows "MSHR_wf bs m' \<and> MSHR_live bs m' \<and> qe_inService m' = qe_inService m \<and>
    map unmarked (all_targets m') = map unmarked (all_targets m)"
proof (cases "m' = m")
  case False
  define n where "n = m\<lparr>m_targets := (m_targets m)\<lparr>tl_needsWritable := True\<rparr>\<rparr>"
  define P :: "Target \<Rightarrow> bool result" where "P = (\<lambda>t. check ''t.source == Target::FromCPU'' (mt_source t = FromCPU)
                    (Inr (\<not> Request_isCacheInvalidate (p_req (tg_pkt t)))))"
  have "promoteIf up P n u = Inr (m', u')"
    using r False by (auto simp: promoteWritable_def P_def n_def split: list.splits if_splits)
  moreover have "MSHR_wf bs n" "MSHR_live bs n" "tl_needsWritable (m_targets n)"
    "all_targets n = all_targets m" "qe_inService n = qe_inService m"
    using wf by (simp_all add: n_def MSHR_wf_def MSHR_live_def tlist_ok_def bits_cover_def writable_cover_def
        sized_def all_targets_def)
  ultimately show ?thesis using promoteIf_ok [of bs n up P u m' u'] by simp
qed (use wf in simp)

section \<open>The interface to queues\<close>

interpretation mshr_entry: queue_entry "MSHR_wf bs" "\<lambda>m. MSHR_getNumTargets m = 0" MSHR_deallocate for bs
  by unfold_locales (use MSHR_deallocate_release in blast)

section \<open>Properties\<close>

text \<open>Concrete packets within one 64-byte block, for the examples.\<close>

lemma Request_new_plain_fields:
  "Request_hasPaddr (Request_new a sz 0 rid)" "r_paddr (Request_new a sz 0 rid) = a"
  "r_size (Request_new a sz 0 rid) = sz" "r_flags (Request_new a sz 0 rid) = 0"
  by (simp_all add: Request_new_def Request_default_def Request_hasPaddr_def setf_def)
    (simp_all add: flag_defs isSet_def)

lemma sample_pkt_ok:
  "MemCmd_isRequest c \<Longrightarrow> pkt_ok 64 (sample_packet c (Request_new 0x48 8 0 1))"
  by (simp add: pkt_ok_def Packet_isRequest_def Request_new_plain_fields sample_packet_def isSet_def)
    (simp add: flag_defs)

lemma sample_mshr:
  assumes "MemCmd_isRequest c"
  shows "\<exists>m u t. MSHR_allocate no_upstream 0 0x40 64 (sample_packet c (Request_new 0x48 8 0 1)) 5 1 True
      (MSHR_new (0, 0, False)) () = Inr (m, u) \<and> MSHR_wf 64 m \<and> MSHR_live 64 m \<and>
    tl_targets (m_targets m) = [t] \<and> all_targets m = [t] \<and> qe_blkSize m = 64 \<and>
    tg_pkt t = sample_packet c (Request_new 0x48 8 0 1) \<and> \<not> qe_inService m"
  using MSHR_allocate_ok [OF MSHR_new_wf [of 64 "(0, 0, False)"] _ sample_pkt_ok [OF assms], of no_upstream]
  by (simp add: MSHR_getNumTargets_def MSHR_new_def QueueEntry.defs TargetList_new_def) blast

text \<open>
  C17: the targets of a register are a queue: a target that joins an allocated register is
  appended behind all active and deferred ones, whichever of the two lists it enters, and nothing
  else changes: no assertion fails, no target is dropped, duplicated or reordered, and the lists
  keep their invariant.
\<close>

theorem allocateTarget_appends:
  assumes "MSHR_wf bs m" "MSHR_live bs m" "MSHR_hasTargets m" "pkt_ok bs pkt" "p_cmd pkt \<noteq> HardPFReq"
    and "up_ready up pkt u"
  shows "\<exists>m' u'. MSHR_allocateTarget up now junk hp pkt wr ord aof m u = Inr (hp, m', u') \<and>
    map tg_pkt (all_targets m') = map tg_pkt (all_targets m) @ [pkt] \<and>
    map tg_order (all_targets m') = map tg_order (all_targets m) @ [ord] \<and>
    MSHR_getNumTargets m' = MSHR_getNumTargets m + 1 \<and> MSHR_wf bs m' \<and> MSHR_live bs m' \<and>
    (tl_targets (m_deferredTargets m) \<noteq> [] \<longrightarrow> m_targets m' = m_targets m)"
  using MSHR_allocateTarget_ok [OF assms, of now junk hp wr ord aof]
  by (auto simp: MSHR_getNumTargets_all)

theorem allocateTarget_appends_witness:
  "\<exists>m m' u'. MSHR_allocateTarget no_upstream 3 (\<lambda>_. 0) [] (sample_packet WriteReq (Request_new 0x48 8 0 1))
       7 2 True m () = Inr ([], m', u') \<and> MSHR_getNumTargets m' = 2"
proof -
  obtain m t where m: "MSHR_wf 64 m" "MSHR_live 64 m" "tl_targets (m_targets m) = [t]" "all_targets m = [t]"
    using sample_mshr [of ReadReq] by auto
  have "MSHR_hasTargets m" "MSHR_getNumTargets m = 1"
    using m(3,4) by (simp_all add: MSHR_hasTargets_def MSHR_getNumTargets_all)
  then obtain m' u' where "MSHR_allocateTarget no_upstream 3 (\<lambda>_. 0) []
      (sample_packet WriteReq (Request_new 0x48 8 0 1)) 7 2 True m () = Inr ([], m', u')"
    "MSHR_getNumTargets m' = 1 + 1"
    using allocateTarget_appends [OF m(1,2) _ sample_pkt_ok [of WriteReq], of no_upstream "()" 3 "\<lambda>_. 0" "[]" 7 2 True]
    by auto
  then show ?thesis by (metis one_add_one)
qed

text \<open>
  C16: answering a register: for a response that does not invalidate and a register without a
  locked read, \<open>extractServiceableTargets\<close> hands out exactly the active targets in order.
  When there were deferred targets, \<open>promoteDeferredTargets\<close> then returns true with the first of
  them active, all of them kept in order and fewer targets left than before; otherwise it returns
  false and \<open>deallocate\<close> succeeds. So every target is answered after finitely many responses.
\<close>

theorem mshr_response_cycle:
  assumes "MSHR_wf bs m" "MSHR_live bs m" "MSHR_hasTargets m"
    and "p_cmd pkt \<noteq> ReadRespWithInvalidate"
    and "\<forall>t \<in> set (tl_targets (m_targets m)). p_cmd (tg_pkt t) \<noteq> LockedRMWReadReq"
  shows "\<exists>rt m1. extractServiceableTargets junk pkt m = Inr (rt, m1) \<and>
    tl_targets rt = tl_targets (m_targets m) \<and> all_targets m1 = tl_targets (m_deferredTargets m) \<and>
    (if tl_targets (m_deferredTargets m) = []
     then promoteDeferredTargets now m1 = Inr (False, m1) \<and> (\<exists>m2. MSHR_deallocate m1 = Inr m2)
     else \<exists>m2. promoteDeferredTargets now m1 = Inr (True, m2) \<and> MSHR_hasTargets m2 \<and>
       all_targets m2 = tl_targets (m_deferredTargets m) \<and> MSHR_wf bs m2 \<and> MSHR_live bs m2 \<and>
       MSHR_getNumTargets m2 < MSHR_getNumTargets m)"
proof -
  let ?ts = "tl_targets (m_targets m)"
  have "dropWhile (\<lambda>t. p_cmd (tg_pkt t) \<noteq> LockedRMWReadReq) ?ts = []" using assms(5) by simp
  moreover have "takeWhile (\<lambda>t. p_cmd (tg_pkt t) \<noteq> LockedRMWReadReq) ?ts = ?ts" using assms(5) by simp
  ultimately have "served_targets pkt ?ts = (?ts, [])"
    using assms(4) by (simp only: served_targets_def Let_def) simp
  from extract_ok [OF assms(1-3) this, of junk] obtain rt m1 where
    e: "extractServiceableTargets junk pkt m = Inr (rt, m1)" "MSHR_wf bs m1" "MSHR_live bs m1"
    "tl_targets rt = ?ts" "tl_targets (m_targets m1) = []" "m_deferredTargets m1 = m_deferredTargets m"
    by blast
  have a: "all_targets m1 = tl_targets (m_deferredTargets m)" using e(5,6) by (simp add: all_targets_def)
  have "length (tl_targets (m_deferredTargets m)) < MSHR_getNumTargets m"
    using assms(3) by (simp add: MSHR_getNumTargets_def MSHR_hasTargets_def)
  then show ?thesis
    using e(1,4) a promoteDeferred_ok [OF e(2,3), of now] MSHR_deallocate_total [OF e(3)]
    by (cases "tl_targets (m_deferredTargets m) = []") (auto simp: MSHR_getNumTargets_all)
qed

theorem mshr_response_cycle_witness:
  "\<exists>m rt m1 m2. extractServiceableTargets (0, 0, True) (sample_packet ReadResp (Request_new 0x48 8 0 1)) m =
      Inr (rt, m1) \<and> length (tl_targets rt) = 1 \<and> promoteDeferredTargets 9 m1 = Inr (False, m1) \<and>
    MSHR_deallocate m1 = Inr m2"
proof -
  obtain m t where m: "MSHR_wf 64 m" "MSHR_live 64 m" "tl_targets (m_targets m) = [t]" "all_targets m = [t]"
    "p_cmd (tg_pkt t) = ReadReq"
    using sample_mshr [of ReadReq] by auto
  then have "tl_targets (m_deferredTargets m) = []" "MSHR_hasTargets m"
    by (simp_all add: all_targets_def MSHR_hasTargets_def)
  then show ?thesis
    using mshr_response_cycle [OF m(1,2), of "sample_packet ReadResp (Request_new 0x48 8 0 1)" "(0, 0, True)" 9] m(3,5)
    by (intro exI [of _ m]) auto
qed

text \<open>
  C19: a register is never freed with a target on it. The assertion of \<open>deallocate\<close> on the deferred
  list reads only flags, yet it fails whenever a deferred target is left, because a target from
  the processor always leaves a flag set; and it passes on an allocated register without targets.
\<close>

theorem mshr_deallocate_safe:
  assumes "MSHR_wf bs m" "MSHR_live bs m"
  shows "(\<exists>m'. MSHR_deallocate m = Inr m') \<longleftrightarrow> MSHR_getNumTargets m = 0"
  using MSHR_deallocate_release [OF assms(1)] MSHR_deallocate_total [OF assms(2)]
  by (auto simp: MSHR_getNumTargets_all)

theorem mshr_deallocate_safe_witness:
  "\<exists>m. MSHR_wf 64 m \<and> MSHR_live 64 m \<and> \<not> (\<exists>m'. MSHR_deallocate m = Inr m')"
proof -
  obtain m t where m: "MSHR_wf 64 m" "MSHR_live 64 m" "all_targets m = [t]"
    using sample_mshr [of ReadReq] by auto
  then show ?thesis using mshr_deallocate_safe [OF m(1,2)] by (auto simp: MSHR_getNumTargets_all)
qed

end
