(* ===== verification/Mshr_Queue.thy ===== *)
theory Mshr_Queue
  imports Mshr
begin

text \<open>
  \<open>mshr/include/mshr_queue.h\<close> and \<open>mshr/mshr_queue.cpp\<close>: the queue of miss status holding
  registers. The const member \<open>demandReserve\<close> is an argument of \<open>canPrefetch\<close>, its only user. The
  step relation \<open>mq_step\<close> has one rule for each operation that a cache calls on the queue or on one
  of its allocated registers, and its invariant is proved by rule induction.
\<close>

section \<open>Definitions\<close>

definition MSHRQueue_new :: "Addr \<times> Addr \<times> bool \<Rightarrow> int \<Rightarrow> int \<Rightarrow> MSHR Queue" where
  "MSHRQueue_new junk num_entries reserve = Queue_new (MSHR_new junk) num_entries reserve"

definition MSHRQueue_allocate :: "'u upstream \<Rightarrow> Tick \<Rightarrow> Addr \<Rightarrow> u32 \<Rightarrow> Packet \<Rightarrow> Tick \<Rightarrow> Counter \<Rightarrow> bool \<Rightarrow>
    MSHR Queue \<Rightarrow> 'u \<Rightarrow> (nat \<times> MSHR Queue \<times> 'u) result" where
  "MSHRQueue_allocate up now blk_addr blk_size pkt when_ready order alloc_on_fill q u =
     allocate_entry (\<lambda>m. MSHR_getNumTargets m = 0)
       (\<lambda>m. MSHR_allocate up now blk_addr blk_size pkt when_ready order alloc_on_fill m u) q"

definition MSHRQueue_deallocate :: "nat \<Rightarrow> MSHR Queue \<Rightarrow> MSHR Queue result" where
  "MSHRQueue_deallocate i q = Queue_deallocate MSHR_deallocate i q"

definition moveToFront :: "nat \<Rightarrow> MSHR Queue \<Rightarrow> MSHR Queue result" where
  "moveToFront i q =
     (if \<not> qe_inService (entry_at q i) then
        defined ''mshr->readyIter'' (i \<in> set (q_readyList q))
          (Inr (q\<lparr>q_readyList := i # remove1 i (q_readyList q)\<rparr>))
      else Inr q)"

text \<open>
  \<open>delay\<close> searches from the entry itself for the first entry that is not later and splices the
  entry before it.
\<close>

definition MSHRQueue_delay :: "Tick \<Rightarrow> nat \<Rightarrow> Tick \<Rightarrow> MSHR Queue \<Rightarrow> MSHR Queue result" where
  "MSHRQueue_delay now i delay_ticks q =
     bindR (MSHR_delay now delay_ticks (entry_at q i)) (\<lambda>m.
       let q = set_entry i m q;
           rt = (\<lambda>j. qe_readyTime (entry_at q j));
           before = takeWhile (\<lambda>j. j \<noteq> i) (q_readyList q);
           from = dropWhile (\<lambda>j. j \<noteq> i) (q_readyList q);
           skipped = takeWhile (\<lambda>j. \<not> rt i \<ge> rt j) from;
           it = dropWhile (\<lambda>j. \<not> rt i \<ge> rt j) from
       in defined ''mshr->readyIter'' (i \<in> set (q_readyList q))
            (Inr (q\<lparr>q_readyList := before @ (if skipped = [] then it else tl skipped @ i # it)\<rparr>)))"

definition MSHRQueue_markInService :: "'u upstream \<Rightarrow> nat \<Rightarrow> bool \<Rightarrow> MSHR Queue \<Rightarrow> 'u \<Rightarrow>
    (MSHR Queue \<times> 'u) result" where
  "MSHRQueue_markInService up i pending_modified_resp q u =
     bindR (MSHR_markInService up pending_modified_resp (entry_at q i) u) (\<lambda>(m, u).
       let q = set_entry i m q
       in defined ''readyList.erase'' (i \<in> set (q_readyList q))
            (Inr (q\<lparr>q_readyList := remove1 i (q_readyList q), q_numInService := q_numInService q + 1\<rparr>, u)))"

definition markPending :: "nat \<Rightarrow> MSHR Queue \<Rightarrow> MSHR Queue result" where
  "markPending i q =
     check ''mshr->inService'' (qe_inService (entry_at q i))
       (addToReadyList i
         ((set_entry i ((entry_at q i)\<lparr>qe_inService := False\<rparr>) q)\<lparr>q_numInService := q_numInService q - 1\<rparr>))"

definition forceDeallocateTarget :: "Tick \<Rightarrow> nat \<Rightarrow> MSHR Queue \<Rightarrow> (bool \<times> MSHR Queue) result" where
  "forceDeallocateTarget now i q =
     (let was_full = Queue_isFull q
      in check ''mshr->hasTargets()'' (MSHR_hasTargets (entry_at q i))
           (bindR (MSHR_popTarget (entry_at q i)) (\<lambda>m.
            bindR (if \<not> MSHR_hasTargets m then promoteDeferredTargets now m else Inr (True, m)) (\<lambda>(keep, m).
            bindR (if keep then Inr (set_entry i m q) else MSHRQueue_deallocate i (set_entry i m q)) (\<lambda>q.
              Inr (was_full \<and> \<not> Queue_isFull q, q))))))"

definition havePending :: "MSHR Queue \<Rightarrow> bool" where
  "havePending q \<longleftrightarrow> q_readyList q \<noteq> []"

definition canPrefetch :: "int \<Rightarrow> MSHR Queue \<Rightarrow> bool" where
  "canPrefetch demandReserve q \<longleftrightarrow> q_allocated q < q_numEntries q - (q_numReserve q + 1 + demandReserve)"

section \<open>Operations keep the invariant\<close>

definition mq_inv :: "u32 \<Rightarrow> MSHR Queue \<Rightarrow> bool" where
  "mq_inv bs q \<longleftrightarrow> mshr_entry.pool_inv bs q \<and> (\<forall>i \<in> set (q_allocatedList q). MSHR_live bs (entry_at q i))"

lemma MSHR_new_idle: "MSHR_getNumTargets (MSHR_new junk) = 0"
  by (simp add: MSHR_getNumTargets_def MSHR_new_def QueueEntry.defs TargetList_new_def)

lemma Queue_new_simps:
  "q_allocatedList (Queue_new e n r) = []" "q_freeList (Queue_new e n r) = [0..<nat (n + r)]"
  "q_entries (Queue_new e n r) = replicate (nat (n + r)) e" "q_allocated (Queue_new e n r) = 0"
  "q_numEntries (Queue_new e n r) = n + r" "q_numReserve (Queue_new e n r) = r"
  "q_readyList (Queue_new e n r) = []"
  by (simp_all add: Queue_new_def Let_def)

lemma mq_inv_new: "0 \<le> n + r \<Longrightarrow> mq_inv bs (MSHRQueue_new junk n r)"
  using queue_inv_new [of n r "MSHR_new junk"]
  by (simp add: mq_inv_def mshr_entry.pool_inv_def MSHRQueue_new_def Queue_new_simps MSHR_new_wf MSHR_new_idle)

lemma mq_inv_entry:
  assumes "mq_inv bs q" "i \<in> set (q_allocatedList q)"
  shows "MSHR_wf bs (entry_at q i)" "MSHR_live bs (entry_at q i)" "i < length (q_entries q)"
  using assms queue_inv_lists(1) [of q i] by (simp_all add: mq_inv_def mshr_entry.pool_inv_def)

lemma mq_inv_set_entry:
  assumes "mq_inv bs q" "i \<in> set (q_allocatedList q)" "MSHR_wf bs m" "MSHR_live bs m"
    and "qe_inService m = qe_inService (entry_at q i)"
  shows "mq_inv bs (set_entry i m q)"
  using assms mshr_entry.pool_inv_set_entry [of bs q i m] mq_inv_entry(3) [OF assms(1,2)]
  by (simp add: mq_inv_def)

lemma mq_ready:
  assumes "mq_inv bs q"
  shows "i \<in> set (q_readyList q) \<longleftrightarrow> i \<in> set (q_allocatedList q) \<and> \<not> qe_inService (entry_at q i)"
    and "distinct (q_readyList q)"
  using assms queue_inv_lists(4) [of q i] by (auto simp: mq_inv_def mshr_entry.pool_inv_def queue_inv_def)

lemma MSHRQueue_allocate_ok:
  assumes inv: "mq_inv bs q" and room: "q_allocated q < q_numEntries q" and p: "pkt_ok bs pkt"
    and u: "up_ready up pkt u"
  shows "\<exists>i q' u' t. MSHRQueue_allocate up now a bs pkt wr ord aof q u = Inr (i, q', u') \<and> mq_inv bs q' \<and>
    q_allocatedList q' = q_allocatedList q @ [i] \<and> i \<notin> set (q_allocatedList q) \<and>
    i \<in> set (q_readyList q') \<and> all_targets (entry_at q' i) = [t] \<and> tg_pkt t = pkt \<and>
    tl_targets (m_targets (entry_at q' i)) = [t] \<and>
    qe_blkAddr (entry_at q' i) = a \<and> qe_isSecure (entry_at q' i) = p_isSecure pkt \<and>
    qe_isUncacheable (entry_at q' i) = Request_isUncacheable (p_req pkt) \<and>
    q_allocated q' = q_allocated q + 1 \<and> q_numReserve q' = q_numReserve q \<and>
    q_numEntries q' = q_numEntries q \<and>
    (\<forall>j. j \<noteq> i \<longrightarrow> entry_at q' j = entry_at q j) \<and> (ready_sorted q \<longrightarrow> ready_sorted q') \<and>
    qe_readyTime (entry_at q' i) = wr \<and> \<not> m_wasWholeLineWrite (entry_at q' i) \<and>
    tl_allocOnFill (m_targets (entry_at q' i)) = aof \<and> \<not> qe_inService (entry_at q' i) \<and>
    mt_source t = (if p_cmd pkt = HardPFReq then FromPrefetcher else FromCPU)"
proof -
  let ?occ = "\<lambda>m. MSHR_allocate up now a bs pkt wr ord aof m u"
  have "mshr_entry.pool_inv bs q" using inv by (simp add: mq_inv_def)
  moreover have "\<exists>e' u'. ?occ m = Inr (e', u') \<and> MSHR_wf bs e' \<and> \<not> qe_inService e'"
    if "MSHR_wf bs m" "MSHR_getNumTargets m = 0" for m
    using MSHR_allocate_ok [OF that p u, of now a wr ord aof] by blast
  ultimately obtain i q' u' where r: "MSHRQueue_allocate up now a bs pkt wr ord aof q u = Inr (i, q', u')"
    "mshr_entry.pool_inv bs q'" "MSHR_getNumTargets (entry_at q i) = 0"
    "?occ (entry_at q i) = Inr (entry_at q' i, u')"
    "q_allocatedList q' = q_allocatedList q @ [i]" "i \<notin> set (q_allocatedList q)"
    "i \<in> set (q_readyList q')" "q_allocated q' = q_allocated q + 1"
    "q_numReserve q' = q_numReserve q" "q_numEntries q' = q_numEntries q"
    "\<forall>j. j \<noteq> i \<longrightarrow> entry_at q' j = entry_at q j" "ready_sorted q \<longrightarrow> ready_sorted q'"
    using mshr_entry.allocate_pool [OF _ room, of bs ?occ] unfolding MSHRQueue_allocate_def by blast
  have "i < length (q_entries q')"
    using r(2,5) queue_inv_lists(1) [of q' i] by (simp add: mshr_entry.pool_inv_def)
  then have wfi: "MSHR_wf bs (entry_at q i)"
    using inv r(2,10) by (simp add: mq_inv_def mshr_entry.pool_inv_def queue_inv_def)
  obtain t where t: "MSHR_live bs (entry_at q' i)" "all_targets (entry_at q' i) = [t]" "tg_pkt t = pkt"
    "qe_blkAddr (entry_at q' i) = a" "qe_isSecure (entry_at q' i) = p_isSecure pkt"
    "tl_targets (m_targets (entry_at q' i)) = [t]"
    "qe_isUncacheable (entry_at q' i) = Request_isUncacheable (p_req pkt)"
    "qe_readyTime (entry_at q' i) = wr" "\<not> m_wasWholeLineWrite (entry_at q' i)"
    "tl_allocOnFill (m_targets (entry_at q' i)) = aof" "\<not> qe_inService (entry_at q' i)"
    "mt_source t = (if p_cmd pkt = HardPFReq then FromPrefetcher else FromCPU)"
    using MSHR_allocate_ok [OF wfi r(3) p u, of now a wr ord aof] r(4) by auto
  have "mq_inv bs q'" using inv r(2,5,6,11) t(1) by (auto simp: mq_inv_def)
  with r t show ?thesis by blast
qed

lemma MSHRQueue_deallocate_ok:
  assumes inv: "mq_inv bs q" and i: "i \<in> set (q_allocatedList q)" and e: "all_targets (entry_at q i) = []"
  shows "\<exists>q'. MSHRQueue_deallocate i q = Inr q' \<and> mq_inv bs q' \<and>
    set (q_allocatedList q') = set (q_allocatedList q) - {i} \<and> i \<in> set (q_freeList q') \<and>
    q_allocated q' = q_allocated q - 1 \<and> q_numReserve q' = q_numReserve q \<and>
    q_numEntries q' = q_numEntries q \<and> (\<forall>j. j \<noteq> i \<longrightarrow> entry_at q' j = entry_at q j) \<and>
    (ready_sorted q \<longrightarrow> ready_sorted q')"
proof -
  obtain m where m: "MSHR_deallocate (entry_at q i) = Inr m"
    using MSHR_deallocate_total [OF mq_inv_entry(2) [OF inv i] e] by blast
  obtain q' where q': "MSHRQueue_deallocate i q = Inr q'" "mshr_entry.pool_inv bs q'"
    "set (q_allocatedList q') = set (q_allocatedList q) - {i}" "i \<in> set (q_freeList q')"
    "q_allocated q' = q_allocated q - 1" "q_numReserve q' = q_numReserve q" "q_numEntries q' = q_numEntries q"
    "\<forall>j. j \<noteq> i \<longrightarrow> entry_at q' j = entry_at q j" "ready_sorted q \<longrightarrow> ready_sorted q'"
    using mshr_entry.deallocate_pool [OF _ i m, of bs] inv unfolding MSHRQueue_deallocate_def mq_inv_def by blast
  have "mq_inv bs q'" using inv q'(2,3,8) by (auto simp: mq_inv_def)
  with q' show ?thesis by blast
qed

lemma MSHRQueue_deallocate_release:
  assumes "mq_inv bs q" "MSHRQueue_deallocate i q = Inr q'"
  shows "i \<in> set (q_allocatedList q) \<and> all_targets (entry_at q i) = []"
proof -
  have i: "i \<in> set (q_allocatedList q)"
    using assms(2) by (auto simp: MSHRQueue_deallocate_def Queue_deallocate_def)
  have "\<exists>m. MSHR_deallocate (entry_at q i) = Inr m"
    using assms(2) by (auto simp: MSHRQueue_deallocate_def Queue_deallocate_def Let_def split: if_splits)
  then show ?thesis
    using i MSHR_deallocate_release [OF mq_inv_entry(1) [OF assms(1) i]] by blast
qed

lemma moveToFront_ok:
  assumes inv: "mq_inv bs q" and i: "i \<in> set (q_allocatedList q)"
  shows "\<exists>q'. moveToFront i q = Inr q' \<and> mq_inv bs q' \<and>
    (\<not> qe_inService (entry_at q i) \<longrightarrow> q_readyList q' = i # remove1 i (q_readyList q))"
proof (cases "qe_inService (entry_at q i)")
  case False
  let ?l = "i # remove1 i (q_readyList q)"
  have r: "i \<in> set (q_readyList q)" using mq_ready(1) [OF inv] i False by blast
  then have l: "distinct ?l" "set ?l = set (q_readyList q)"
    using mq_ready(2) [OF inv] by (auto simp: set_remove1_eq)
  then have "mshr_entry.pool_inv bs (q\<lparr>q_readyList := ?l\<rparr>)"
    using inv mshr_entry.pool_inv_reorder [of bs q ?l] by (simp only: mq_inv_def)
  then show ?thesis using False r inv by (simp add: moveToFront_def mq_inv_def)
qed (use inv in \<open>simp add: moveToFront_def\<close>)

text \<open>The search of \<open>delay\<close> stops at the delayed entry itself, so the order of the list stays.\<close>

lemma MSHRQueue_delay_ok:
  assumes inv: "mq_inv bs q" and r: "MSHRQueue_delay now i d q = Inr q'"
  shows "mq_inv bs q' \<and> q_readyList q' = q_readyList q \<and> i \<in> set (q_readyList q) \<and>
    q' = set_entry i ((entry_at q i)\<lparr>qe_readyTime := now + d\<rparr>) q"
proof -
  let ?m = "(entry_at q i)\<lparr>qe_readyTime := now + d\<rparr>"
  let ?q = "set_entry i ?m q" and ?l = "q_readyList q"
  have i: "i \<in> set ?l" using r by (auto simp: MSHRQueue_delay_def Let_def)
  then have ia: "i \<in> set (q_allocatedList q)" using mq_ready(1) [OF inv] by blast
  obtain rest where rest: "dropWhile (\<lambda>j. j \<noteq> i) ?l = i # rest"
    using i hd_dropWhile [of "\<lambda>j. j \<noteq> i" ?l] dropWhile_eq_Nil_conv [of "\<lambda>j. j \<noteq> i" ?l]
    by (cases "dropWhile (\<lambda>j. j \<noteq> i) ?l") auto
  have "q' = ?q\<lparr>q_readyList := takeWhile (\<lambda>j. j \<noteq> i) ?l @ i # rest\<rparr>"
    using r rest by (auto simp: MSHRQueue_delay_def MSHR_delay_def Let_def)
  moreover have "takeWhile (\<lambda>j. j \<noteq> i) ?l @ i # rest = ?l"
    using rest takeWhile_dropWhile_id [of "\<lambda>j. j \<noteq> i" ?l] by simp
  ultimately have q': "q' = ?q" by (simp add: set_entry_def)
  moreover have "MSHR_wf bs ?m" "MSHR_live bs ?m"
    using mq_inv_entry(1,2) [OF inv ia] by (simp_all add: MSHR_wf_def MSHR_live_def)
  ultimately show ?thesis using mq_inv_set_entry [OF inv ia, of ?m] i by simp
qed

lemma MSHRQueue_markInService_ok:
  assumes inv: "mq_inv bs q" and i: "i \<in> set (q_allocatedList q)"
    and r: "MSHRQueue_markInService up i pm q u = Inr (q', u')"
  shows "mq_inv bs q' \<and> q_readyList q' = remove1 i (q_readyList q) \<and> qe_inService (entry_at q' i) \<and>
    q_numInService q' = q_numInService q + 1 \<and> q_allocatedList q' = q_allocatedList q"
proof -
  note e = mq_inv_entry [OF inv i]
  obtain m where m: "MSHR_markInService up pm (entry_at q i) u = Inr (m, u')"
    and q': "q' = (set_entry i m q)\<lparr>q_readyList := remove1 i (q_readyList q), q_numInService := q_numInService q + 1\<rparr>"
    using r by (auto simp: MSHRQueue_markInService_def Let_def)
  note k = MSHR_markInService_ok [OF e(1,2) m]
  have "mshr_entry.pool_inv bs q'"
    unfolding q' using inv k i by (intro mshr_entry.pool_inv_serve) (auto simp: mq_inv_def)
  then show ?thesis using q' inv e(3) k by (auto simp: mq_inv_def)
qed

lemma markPending_ok:
  assumes inv: "mq_inv bs q" and i: "i \<in> set (q_allocatedList q)" and s: "qe_inService (entry_at q i)"
  shows "\<exists>q'. markPending i q = Inr q' \<and> mq_inv bs q' \<and> set (q_readyList q') = insert i (set (q_readyList q)) \<and>
    q_numInService q' = q_numInService q - 1 \<and> q_allocatedList q' = q_allocatedList q \<and>
    \<not> qe_inService (entry_at q' i) \<and> (ready_sorted q \<longrightarrow> ready_sorted q')"
proof -
  note e = mq_inv_entry [OF inv i]
  let ?m = "(entry_at q i)\<lparr>qe_inService := False\<rparr>"
  let ?q = "set_entry i ?m q"
  define rt where "rt = (\<lambda>j. qe_readyTime (entry_at ?q j))"
  define l where "l = ready_insert rt i (q_readyList q)"
  define q' where "q' = ?q\<lparr>q_readyList := l, q_numInService := q_numInService q - 1\<rparr>"
  have r: "markPending i q = Inr q'"
    using s by (simp add: markPending_def addToReadyList_Inr q'_def l_def rt_def)
  have nr: "i \<notin> set (q_readyList q)" using mq_ready(1) [OF inv] s by blast
  have wf: "MSHR_wf bs ?m" "MSHR_live bs ?m" using e by (simp_all add: MSHR_wf_def MSHR_live_def)
  have "mshr_entry.pool_inv bs q'"
    unfolding q'_def using inv wf i s nr mq_ready(2) [OF inv]
    by (intro mshr_entry.pool_inv_pend) (auto simp: mq_inv_def l_def)
  then have mi: "mq_inv bs q'" using inv wf e(3) by (auto simp: mq_inv_def q'_def)
  have "rt = (\<lambda>j. qe_readyTime (entry_at q j))" using e(3) by (auto simp: rt_def)
  then have so: "ready_sorted q'" if "ready_sorted q"
    using that sorted_ready_insert [of rt "q_readyList q" i]
    by (simp add: ready_sorted_def q'_def l_def) (simp add: rt_def)
  show ?thesis using r mi so e(3) by (simp add: q'_def l_def)
qed

lemma forceDeallocateTarget_ok:
  assumes inv: "mq_inv bs q" and i: "i \<in> set (q_allocatedList q)" and h: "MSHR_hasTargets (entry_at q i)"
  shows "\<exists>b q'. forceDeallocateTarget now i q = Inr (b, q') \<and> mq_inv bs q' \<and>
    (if tl (all_targets (entry_at q i)) = []
     then i \<notin> set (q_allocatedList q') \<and> q_allocated q' = q_allocated q - 1
     else q_allocatedList q' = q_allocatedList q \<and> MSHR_hasTargets (entry_at q' i) \<and>
          all_targets (entry_at q' i) = tl (all_targets (entry_at q i)))"
proof -
  note e = mq_inv_entry [OF inv i]
  obtain m where m: "MSHR_popTarget (entry_at q i) = Inr m" "MSHR_wf bs m" "MSHR_live bs m"
    "qe_inService m = qe_inService (entry_at q i)" "all_targets m = tl (all_targets (entry_at q i))"
    using MSHR_popTarget_ok [OF e(1,2) h] by blast
  define k where "k = (if \<not> MSHR_hasTargets m then promoteDeferredTargets now m else Inr (True, m))"
  have k: "if all_targets m = [] then k = Inr (False, m)
    else \<exists>m'. k = Inr (True, m') \<and> MSHR_wf bs m' \<and> MSHR_live bs m' \<and> MSHR_hasTargets m' \<and>
      all_targets m' = all_targets m \<and> qe_inService m' = qe_inService m"
    using promoteDeferred_ok [OF m(2,3), of now] m(2,3)
    by (cases "MSHR_hasTargets m") (auto simp: k_def MSHR_hasTargets_def all_targets_def)
  have f: "forceDeallocateTarget now i q = bindR k (\<lambda>(keep, m).
     bindR (if keep then Inr (set_entry i m q) else MSHRQueue_deallocate i (set_entry i m q)) (\<lambda>q'.
       Inr (Queue_isFull q \<and> \<not> Queue_isFull q', q')))"
    using h m(1) by (simp add: forceDeallocateTarget_def Let_def k_def)
  show ?thesis
  proof (cases "all_targets m = []")
    case True
    have "mq_inv bs (set_entry i m q)" using mq_inv_set_entry [OF inv i m(2-4)] .
    with True k f m(5) i e(3) show ?thesis
      using MSHRQueue_deallocate_ok [of bs "set_entry i m q" i] by auto
  next
    case False
    then obtain m' where m': "k = Inr (True, m')" "MSHR_wf bs m'" "MSHR_live bs m'" "MSHR_hasTargets m'"
      "all_targets m' = all_targets m" "qe_inService m' = qe_inService m" using k by auto
    then have "mq_inv bs (set_entry i m' q)" using mq_inv_set_entry [OF inv i m'(2,3)] m(4) by simp
    with m' f m(5) False e(3) show ?thesis by simp
  qed
qed

section \<open>Runs\<close>

text \<open>
  One step of a cache with its miss queue: an operation of the queue, or an operation of one of
  its allocated registers, that returns. Packets lie within one block, and the register of a cache
  above can be marked when a target is added.
\<close>

inductive mq_step :: "'u upstream \<Rightarrow> u32 \<Rightarrow> MSHR Queue \<times> 'u \<Rightarrow> MSHR Queue \<times> 'u \<Rightarrow> bool" for up bs where
  step_allocate: "\<lbrakk>pkt_ok bs pkt; up_ready up pkt u;
    MSHRQueue_allocate up now a bs pkt wr ord aof q u = Inr (i, q', u')\<rbrakk> \<Longrightarrow> mq_step up bs (q, u) (q', u')"
| step_target: "\<lbrakk>i \<in> set (q_allocatedList q); pkt_ok bs pkt; up_ready up pkt u;
    MSHR_allocateTarget up now junk hp pkt wr ord aof (entry_at q i) u = Inr (hp', m, u')\<rbrakk> \<Longrightarrow>
    mq_step up bs (q, u) (set_entry i m q, u')"
| step_extract: "\<lbrakk>i \<in> set (q_allocatedList q); MSHR_hasTargets (entry_at q i);
    extractServiceableTargets tjunk pkt (entry_at q i) = Inr (rt, m)\<rbrakk> \<Longrightarrow>
    mq_step up bs (q, u) (set_entry i m q, u)"
| step_promote: "\<lbrakk>i \<in> set (q_allocatedList q); promoteDeferredTargets now (entry_at q i) = Inr (b, m)\<rbrakk> \<Longrightarrow>
    mq_step up bs (q, u) (set_entry i m q, u)"
| step_readable: "\<lbrakk>i \<in> set (q_allocatedList q); promoteReadable up (entry_at q i) u = Inr (m, u')\<rbrakk> \<Longrightarrow>
    mq_step up bs (q, u) (set_entry i m q, u')"
| step_writable: "\<lbrakk>i \<in> set (q_allocatedList q); promoteWritable up (entry_at q i) u = Inr (m, u')\<rbrakk> \<Longrightarrow>
    mq_step up bs (q, u) (set_entry i m q, u')"
| step_serve: "\<lbrakk>i \<in> set (q_allocatedList q); MSHRQueue_markInService up i pm q u = Inr (q', u')\<rbrakk> \<Longrightarrow>
    mq_step up bs (q, u) (q', u')"
| step_pend: "\<lbrakk>i \<in> set (q_allocatedList q); markPending i q = Inr q'\<rbrakk> \<Longrightarrow> mq_step up bs (q, u) (q', u)"
| step_front: "\<lbrakk>i \<in> set (q_allocatedList q); moveToFront i q = Inr q'\<rbrakk> \<Longrightarrow> mq_step up bs (q, u) (q', u)"
| step_delay: "MSHRQueue_delay now i d q = Inr q' \<Longrightarrow> mq_step up bs (q, u) (q', u)"
| step_force: "\<lbrakk>i \<in> set (q_allocatedList q); forceDeallocateTarget now i q = Inr (b, q')\<rbrakk> \<Longrightarrow>
    mq_step up bs (q, u) (q', u)"
| step_deallocate: "MSHRQueue_deallocate i q = Inr q' \<Longrightarrow> mq_step up bs (q, u) (q', u)"

inductive mq_reach :: "'u upstream \<Rightarrow> u32 \<Rightarrow> int \<Rightarrow> int \<Rightarrow> MSHR Queue \<times> 'u \<Rightarrow> bool" for up bs n r where
  reach_new: "mq_reach up bs n r (MSHRQueue_new junk n r, u)"
| reach_step: "\<lbrakk>mq_reach up bs n r s; mq_step up bs s s'\<rbrakk> \<Longrightarrow> mq_reach up bs n r s'"

lemma allocate_entry_room:
  assumes "queue_inv q" "allocate_entry idle occ q = Inr (i, q', u')"
  shows "q_allocated q < q_numEntries q"
proof -
  obtain f free where f: "q_freeList q = f # free"
    using assms(2) by (auto simp: allocate_entry_def split: list.splits)
  have "distinct (q_allocatedList q @ q_freeList q)"
    "set (q_allocatedList q @ q_freeList q) = {..<length (q_entries q)}"
    using assms(1) unfolding queue_inv_def by blast+
  then have "length (q_allocatedList q @ q_freeList q) = length (q_entries q)"
    by (metis distinct_card card_lessThan)
  with assms(1) f show ?thesis by (simp add: queue_inv_def)
qed

lemma mq_step_inv: "mq_step up bs s s' \<Longrightarrow> mq_inv bs (fst s) \<Longrightarrow> mq_inv bs (fst s')"
proof (induction rule: mq_step.induct)
  case (step_allocate pkt u now a wr ord aof q i q' u')
  then have "q_allocated q < q_numEntries q"
    using allocate_entry_room [of q] by (auto simp: MSHRQueue_allocate_def mq_inv_def mshr_entry.pool_inv_def)
  then show ?case
    using MSHRQueue_allocate_ok [of bs q pkt up u now a wr ord aof] step_allocate by auto
next
  case (step_target i q pkt u now junk hp wr ord aof hp' m u')
  have h: "MSHR_hasTargets (entry_at q i)" "p_cmd pkt \<noteq> HardPFReq"
    using step_target(4) by (auto simp: MSHR_allocateTarget_def)
  have inv: "mq_inv bs q" using step_target by simp
  note e = mq_inv_entry [OF inv step_target(1)]
  show ?case
    using MSHR_allocateTarget_ok [OF e(1,2) h(1) step_target(2) h(2) step_target(3), of now junk hp wr ord aof]
      step_target(4) mq_inv_set_entry [OF inv step_target(1), of m] by auto
next
  case (step_extract i q tjunk pkt rt m u)
  have inv: "mq_inv bs q" using step_extract by simp
  note e = mq_inv_entry [OF inv step_extract(1)]
  show ?case
    using extract_ok [OF e(1,2) step_extract(2) prod.collapse [symmetric], of tjunk pkt] step_extract(3)
      mq_inv_set_entry [OF inv step_extract(1), of m] by auto
next
  case (step_promote i q now b m u)
  have inv: "mq_inv bs q" using step_promote by simp
  note e = mq_inv_entry [OF inv step_promote(1)]
  show ?case
    using promoteDeferred_ok [OF e(1,2), of now] e step_promote(2)
      mq_inv_set_entry [OF inv step_promote(1), of m] by (auto split: if_splits)
next
  case (step_readable i q u m u')
  have inv: "mq_inv bs q" using step_readable by simp
  note e = mq_inv_entry [OF inv step_readable(1)]
  show ?case
    using promoteReadable_ok [OF e(1,2) step_readable(2)] mq_inv_set_entry [OF inv step_readable(1), of m] by simp
next
  case (step_writable i q u m u')
  have inv: "mq_inv bs q" using step_writable by simp
  note e = mq_inv_entry [OF inv step_writable(1)]
  show ?case
    using promoteWritable_ok [OF e(1,2) step_writable(2)] mq_inv_set_entry [OF inv step_writable(1), of m] by simp
next
  case (step_serve i q pm u q' u')
  then show ?case using MSHRQueue_markInService_ok [of bs q i up pm u q' u'] by simp
next
  case (step_pend i q q' u)
  then have "qe_inService (entry_at q i)" by (simp add: markPending_def)
  then show ?case using markPending_ok [of bs q i] step_pend by auto
next
  case (step_front i q q' u)
  then show ?case using moveToFront_ok [of bs q i] by auto
next
  case (step_delay now i d q q' u)
  then have "mq_inv bs q'" using MSHRQueue_delay_ok [of bs q now i d q'] by fastforce
  then show ?case by simp
next
  case (step_force i q now b q' u)
  then have "MSHR_hasTargets (entry_at q i)" by (simp add: forceDeallocateTarget_def Let_def)
  then show ?case using forceDeallocateTarget_ok [of bs q i now] step_force by auto
next
  case (step_deallocate i q q' u)
  then show ?case
    using MSHRQueue_deallocate_release [of bs q i q'] MSHRQueue_deallocate_ok [of bs q i] by auto
qed

lemma mq_reach_inv: "mq_reach up bs n r s \<Longrightarrow> 0 \<le> n + r \<Longrightarrow> mq_inv bs (fst s)"
  by (induction rule: mq_reach.induct) (auto simp: mq_inv_new intro: mq_step_inv)

lemma findMatch_loop_append:
  assumes "findMatch_loop P ign es is = Inr None" "\<forall>j \<in> set is. es' ! j = es ! j"
  shows "findMatch_loop P ign es' (is @ js) = findMatch_loop P ign es' js"
  using assms by (induction "is") (auto split: if_splits)

section \<open>Properties\<close>

text \<open>
  C15: in every run of the miss queue from its construction, whatever the order of operations, each
  register is either free and without targets or allocated, the ready list holds exactly the
  allocated registers that are not in service, without duplicates, the two counters count, and so
  \<open>havePending\<close> is exact: it is true when more registers are allocated than in service.
\<close>

theorem mshr_queue_invariant:
  assumes "mq_reach up bs n r (q, u)" "0 \<le> n + r"
  shows "mq_inv bs q \<and>
    set (q_readyList q) = {i \<in> set (q_allocatedList q). \<not> qe_inService (entry_at q i)} \<and>
    (\<forall>i \<in> set (q_freeList q). i \<notin> set (q_allocatedList q) \<and> MSHR_getNumTargets (entry_at q i) = 0) \<and>
    0 \<le> numInService q \<and> numInService q \<le> q_allocated q \<and> q_allocated q \<le> q_numEntries q \<and>
    (havePending q \<longleftrightarrow> numInService q < q_allocated q)"
proof -
  have inv: "mq_inv bs q" using mq_reach_inv [OF assms] by simp
  then have qi: "queue_inv q" by (simp add: mq_inv_def mshr_entry.pool_inv_def)
  let ?P = "\<lambda>i. qe_inService (entry_at q i)"
  have ns: "q_numInService q = int (length (filter ?P (q_allocatedList q)))"
    "q_allocated q = int (length (q_allocatedList q))" "q_numEntries q = int (length (q_entries q))"
    and rl: "set (q_readyList q) = {i \<in> set (q_allocatedList q). \<not> ?P i}"
    and da: "distinct (q_allocatedList q)" using qi by (simp_all add: queue_inv_def)
  have "set (q_allocatedList q @ q_freeList q) = {..<length (q_entries q)}"
    "distinct (q_allocatedList q @ q_freeList q)" using qi unfolding queue_inv_def by blast+
  then have sub: "set (q_allocatedList q) \<subseteq> {..<length (q_entries q)}"
    and df: "\<forall>i \<in> set (q_freeList q). i \<notin> set (q_allocatedList q)" by auto
  have "length (q_allocatedList q) \<le> length (q_entries q)"
    using card_mono [OF finite_lessThan sub] distinct_card [OF da] by simp
  moreover have "length (filter ?P (q_allocatedList q)) + length (filter (\<lambda>i. \<not> ?P i) (q_allocatedList q)) =
    length (q_allocatedList q)" by (rule sum_length_filter_compl)
  moreover have "set (q_readyList q) = set (filter (\<lambda>i. \<not> ?P i) (q_allocatedList q))" using rl by auto
  then have "q_readyList q = [] \<longleftrightarrow> filter (\<lambda>i. \<not> ?P i) (q_allocatedList q) = []" by (metis set_empty)
  moreover have "\<forall>i \<in> set (q_freeList q). i \<notin> set (q_allocatedList q) \<and> MSHR_getNumTargets (entry_at q i) = 0"
    using inv df by (simp add: mq_inv_def mshr_entry.pool_inv_def)
  moreover have "filter (\<lambda>i. \<not> ?P i) (q_allocatedList q) = [] \<longleftrightarrow> length (filter (\<lambda>i. \<not> ?P i) (q_allocatedList q)) = 0"
    by (rule length_0_conv [symmetric])
  ultimately have "0 \<le> numInService q \<and> numInService q \<le> q_allocated q \<and> q_allocated q \<le> q_numEntries q"
    "havePending q \<longleftrightarrow> numInService q < q_allocated q"
    "\<forall>i \<in> set (q_freeList q). i \<notin> set (q_allocatedList q) \<and> MSHR_getNumTargets (entry_at q i) = 0"
    unfolding numInService_def havePending_def ns by linarith+
  with inv rl show ?thesis by blast
qed

theorem mshr_queue_invariant_witness:
  "\<exists>i q u. MSHRQueue_allocate no_upstream 0 0x40 64 (sample_packet ReadReq (Request_new 0x48 8 0 1)) 5 1 True
     (MSHRQueue_new (0, 0, False) 4 1) () = Inr (i, q, u) \<and> q_allocated q = 1 \<and>
     (havePending q \<longleftrightarrow> numInService q < q_allocated q)"
proof -
  let ?p = "sample_packet ReadReq (Request_new 0x48 8 0 1)" and ?q = "MSHRQueue_new (0, 0, False) 4 1"
  have inv: "mq_inv 64 ?q" by (simp add: mq_inv_new)
  have "q_allocated ?q = 0" "q_numEntries ?q = 5" by (simp_all add: MSHRQueue_new_def Queue_new_simps)
  then obtain i q u where a: "MSHRQueue_allocate no_upstream 0 0x40 64 ?p 5 1 True ?q () = Inr (i, q, u)"
    "q_allocated q = 1"
    using MSHRQueue_allocate_ok [OF inv _ sample_pkt_ok [of ReadReq] up_ready_none, where now = 0 and a = "0x40" and wr = 5 and ord = 1 and aof = True] by auto
  have "mq_reach no_upstream 64 4 1 (q, u)"
    using reach_new step_allocate [OF sample_pkt_ok up_ready_none a(1)] by (rule reach_step) simp
  from mshr_queue_invariant [OF this] a show ?thesis by auto
qed

text \<open>
  C18: while the queue is not full, \<open>allocate\<close> never aborts; and when no cacheable register held the
  block, \<open>findMatch\<close> afterwards returns the new one. The registers already allocated are untouched
  and a sorted ready list stays sorted.
\<close>

theorem mshr_allocate_then_match:
  assumes "mq_reach up bs n r (q, u)" "0 \<le> n + r" "0 \<le> q_numReserve q" "\<not> Queue_isFull q"
    and "pkt_ok bs pkt" "up_ready up pkt u" "\<not> Request_isUncacheable (p_req pkt)"
    and "findMatch MSHR_matchBlockAddr a (p_isSecure pkt) True q = Inr None"
  shows "\<exists>i q' u'. MSHRQueue_allocate up now a bs pkt wr ord aof q u = Inr (i, q', u') \<and>
    findMatch MSHR_matchBlockAddr a (p_isSecure pkt) True q' = Inr (Some i) \<and>
    map tg_pkt (all_targets (entry_at q' i)) = [pkt] \<and> i \<notin> set (q_allocatedList q) \<and>
    (\<forall>j. j \<noteq> i \<longrightarrow> entry_at q' j = entry_at q j) \<and> (ready_sorted q \<longrightarrow> ready_sorted q')"
proof -
  have inv: "mq_inv bs q" using mq_reach_inv [OF assms(1,2)] by simp
  have "q_allocated q < q_numEntries q" using assms(3,4) by (simp add: Queue_isFull_def)
  from MSHRQueue_allocate_ok [OF inv this assms(5,6), of now a wr ord aof]
  obtain i q' u' t where r: "MSHRQueue_allocate up now a bs pkt wr ord aof q u = Inr (i, q', u')"
    "q_allocatedList q' = q_allocatedList q @ [i]" "i \<notin> set (q_allocatedList q)"
    "all_targets (entry_at q' i) = [t]" "tg_pkt t = pkt" "tl_targets (m_targets (entry_at q' i)) = [t]"
    "qe_blkAddr (entry_at q' i) = a" "qe_isSecure (entry_at q' i) = p_isSecure pkt"
    "\<forall>j. j \<noteq> i \<longrightarrow> entry_at q' j = entry_at q j" "ready_sorted q \<longrightarrow> ready_sorted q'"
    "qe_isUncacheable (entry_at q' i) = Request_isUncacheable (p_req pkt)"
    by blast
  have "findMatch MSHR_matchBlockAddr a (p_isSecure pkt) True q' =
    findMatch_loop (\<lambda>e. MSHR_matchBlockAddr e a (p_isSecure pkt)) True (q_entries q') [i]"
    using assms(8) r(3,9) unfolding findMatch_def r(2) by (intro findMatch_loop_append) auto
  moreover have "MSHR_matchBlockAddr (entry_at q' i) a (p_isSecure pkt) = Inr True"
    using r(6-8) by (simp add: MSHR_matchBlockAddr_def MSHR_hasTargets_def)
  ultimately have "findMatch MSHR_matchBlockAddr a (p_isSecure pkt) True q' = Inr (Some i)"
    using assms(7) r(11) by (simp add: QueueEntry_isUncacheable_def)
  with r(1,3-5,9,10) show ?thesis by (intro exI [of _ i] exI [of _ q'] exI [of _ u']) simp
qed

theorem mshr_allocate_then_match_witness:
  "\<exists>i q' u'. MSHRQueue_allocate no_upstream 0 0x40 64 (sample_packet ReadReq (Request_new 0x48 8 0 1)) 5 1 True
     (MSHRQueue_new (0, 0, False) 4 1) () = Inr (i, q', u') \<and>
     findMatch MSHR_matchBlockAddr 0x40 False True q' = Inr (Some i)"
proof -
  let ?p = "sample_packet ReadReq (Request_new 0x48 8 0 1)" and ?q = "MSHRQueue_new (0, 0, False) 4 1"
  have q: "mq_reach no_upstream 64 4 1 (?q, ())" by (rule reach_new)
  have f: "\<not> Queue_isFull ?q" "0 \<le> q_numReserve ?q"
    "findMatch MSHR_matchBlockAddr 0x40 (p_isSecure ?p) True ?q = Inr None"
    by (simp_all add: MSHRQueue_new_def Queue_new_simps Queue_isFull_def findMatch_def)
  have p: "p_isSecure ?p = False" "\<not> Request_isUncacheable (p_req ?p)"
    by (simp_all add: sample_packet_def Request_isUncacheable_def Request_new_plain_fields isSet_def)
  show ?thesis
    using mshr_allocate_then_match [OF q _ f(2,1) sample_pkt_ok [of ReadReq] up_ready_none p(2) f(3),
        where now = 0 and wr = 5 and ord = 1 and aof = True] p(1) by auto
qed

text \<open>
  C38: \<open>delay\<close> does not move the register: its search starts at the register itself, which always
  satisfies the condition, so the ready list keeps its order. A delayed register at the front hides
  every register behind it, ready or not, until the delay is over.
\<close>

theorem delay_blocks_ready:
  assumes "q_readyList q = i # rest" "i < length (q_entries q)" "qe_readyTime (entry_at q i) \<le> now"
    and "now < now + d"
  shows "\<exists>q'. MSHRQueue_delay now i d q = Inr q' \<and> q_readyList q' = q_readyList q \<and> getNext now q' = None \<and>
    (\<forall>j \<in> set rest. j \<noteq> i \<longrightarrow> entry_at q' j = entry_at q j)"
proof -
  let ?q = "set_entry i ((entry_at q i)\<lparr>qe_readyTime := now + d\<rparr>) q"
  have "MSHRQueue_delay now i d q = Inr (?q\<lparr>q_readyList := i # rest\<rparr>)"
    using assms by (simp add: MSHRQueue_delay_def MSHR_delay_def Let_def)
  then show ?thesis using assms by (simp add: getNext_def set_entry_def)
qed

theorem delay_blocks_ready_witness:
  "\<exists>q'. MSHRQueue_delay 3 0 10 ((MSHRQueue_new (0, 0, False) 2 0)\<lparr>q_readyList := [0, 1]\<rparr>) = Inr q' \<and>
     getNext 3 q' = None \<and> qe_readyTime (entry_at q' 1) \<le> 3"
proof -
  let ?q = "(MSHRQueue_new (0, 0, False) 2 0)\<lparr>q_readyList := [0, 1]\<rparr>"
  have e: "qe_readyTime (entry_at ?q 0) = 0" "qe_readyTime (entry_at ?q 1) = 0" "0 < length (q_entries ?q)"
    by (simp_all add: MSHRQueue_new_def Queue_new_simps MSHR_new_def QueueEntry.defs QueueEntry_new_def numeral_2_eq_2)
  obtain q' where "MSHRQueue_delay 3 0 10 ?q = Inr q'" "getNext 3 q' = None" "entry_at q' 1 = entry_at ?q 1"
    using delay_blocks_ready [OF _ e(3), of "[1]" 3 10] e(1) by auto
  with e(2) show ?thesis by (intro exI [of _ q']) simp
qed

end
