(* ===== verification/Write_Queue.thy ===== *)
theory Write_Queue
  imports Mshr_Queue
begin

text \<open>
  \<open>write/include/write_queue_entry.h\<close>, \<open>write/write_queue_entry.cpp\<close>, \<open>write/include/write_queue.h\<close>
  and \<open>write/write_queue.cpp\<close>: the queue of writebacks and uncacheable writes. Printing is left out.
\<close>

section \<open>Definitions\<close>

record WriteQueueEntry = QueueEntry +
  w_targets :: "QTarget list"

definition WriteQueueEntry_new :: WriteQueueEntry where
  "WriteQueueEntry_new = QueueEntry.extend QueueEntry_new \<lparr>w_targets = []\<rparr>"

definition wq_TargetList_add :: "Tick \<Rightarrow> Packet \<Rightarrow> Tick \<Rightarrow> Counter \<Rightarrow> QTarget list \<Rightarrow> QTarget list" where
  "wq_TargetList_add now pkt readyTime order targets = targets @ [QTarget_new now pkt readyTime order]"

text \<open>The loop body of \<open>TargetList::trySatisfyFunctional\<close> is commented out.\<close>

definition wq_TargetList_trySatisfyFunctional :: "Packet \<Rightarrow> QTarget list \<Rightarrow> bool" where
  "wq_TargetList_trySatisfyFunctional pkt targets = False"

definition WriteQueueEntry_getNumTargets :: "WriteQueueEntry \<Rightarrow> nat" where
  "WriteQueueEntry_getNumTargets e = length (w_targets e)"

definition WriteQueueEntry_hasTargets :: "WriteQueueEntry \<Rightarrow> bool" where
  "WriteQueueEntry_hasTargets e \<longleftrightarrow> w_targets e \<noteq> []"

definition WriteQueueEntry_getTarget :: "WriteQueueEntry \<Rightarrow> QTarget result" where
  "WriteQueueEntry_getTarget e =
     check ''hasTargets()'' (WriteQueueEntry_hasTargets e) (Inr (hd (w_targets e)))"

definition WriteQueueEntry_popTarget :: "WriteQueueEntry \<Rightarrow> WriteQueueEntry result" where
  "WriteQueueEntry_popTarget e =
     defined ''targets.pop_front()'' (WriteQueueEntry_hasTargets e) (Inr (e\<lparr>w_targets := tl (w_targets e)\<rparr>))"

definition WriteQueueEntry_allocate :: "Tick \<Rightarrow> Addr \<Rightarrow> u32 \<Rightarrow> Packet \<Rightarrow> Tick \<Rightarrow> Counter \<Rightarrow>
    WriteQueueEntry \<Rightarrow> WriteQueueEntry result" where
  "WriteQueueEntry_allocate now blk_addr blk_size target when_ready order e =
     bindR (Packet_isSecure target) (\<lambda>sec.
       let e = e\<lparr>qe_blkAddr := blk_addr, qe_blkSize := blk_size, qe_isSecure := sec,
                 qe_readyTime := when_ready, qe_order := order,
                 qe_isUncacheable := Request_isUncacheable (p_req target), qe_inService := False\<rparr>
       in check ''!_isUncacheable && !targets.empty()'' (\<not> qe_isUncacheable e \<and> w_targets e \<noteq> [])
         (check ''!((target->isWrite() && _isUncacheable) || (target->isEviction() && !_isUncacheable) || target->cmd == MemCmd::WriteClean)''
           (\<not> (Packet_isWrite target \<and> qe_isUncacheable e \<or>
               MemCmd_isEviction (p_cmd target) \<and> \<not> qe_isUncacheable e \<or> p_cmd target = WriteClean))
           (let e = e\<lparr>w_targets := wq_TargetList_add now target when_ready order (w_targets e)\<rparr>
            in bindR (Packet_matchBlockAddr_pkt (tg_pkt (hd (w_targets e))) blk_size target) (\<lambda>b.
                 check ''target->matchBlockAddr(targets.front().pkt, blkSize)'' b (Inr e)))))"

definition WriteQueueEntry_deallocate :: "WriteQueueEntry \<Rightarrow> WriteQueueEntry result" where
  "WriteQueueEntry_deallocate e =
     check ''targets.empty()'' (w_targets e = []) (Inr (e\<lparr>qe_inService := False\<rparr>))"

definition WriteQueueEntry_trySatisfyFunctional :: "WriteQueueEntry \<Rightarrow> Packet \<Rightarrow> bool" where
  "WriteQueueEntry_trySatisfyFunctional e pkt =
     (if Packet_isPrint pkt then True else wq_TargetList_trySatisfyFunctional pkt (w_targets e))"

definition WriteQueueEntry_matchBlockAddr :: "WriteQueueEntry \<Rightarrow> Addr \<Rightarrow> bool \<Rightarrow> bool result" where
  "WriteQueueEntry_matchBlockAddr e addr is_secure =
     check ''hasTargets()'' (WriteQueueEntry_hasTargets e)
       (Inr (qe_blkAddr e = addr \<and> qe_isSecure e = is_secure))"

definition WriteQueueEntry_matchBlockAddr_pkt :: "WriteQueueEntry \<Rightarrow> Packet \<Rightarrow> bool result" where
  "WriteQueueEntry_matchBlockAddr_pkt e pkt =
     check ''hasTargets()'' (WriteQueueEntry_hasTargets e)
       (Packet_matchBlockAddr (qe_blkAddr e) (qe_isSecure e) (qe_blkSize e) pkt)"

definition WriteQueueEntry_conflictAddr :: "(Addr \<Rightarrow> bool \<Rightarrow> bool result) \<Rightarrow> WriteQueueEntry \<Rightarrow> bool result" where
  "WriteQueueEntry_conflictAddr entry_matchBlockAddr e =
     check ''hasTargets()'' (WriteQueueEntry_hasTargets e)
       (entry_matchBlockAddr (qe_blkAddr e) (qe_isSecure e))"

definition WriteQueue_new :: "int \<Rightarrow> int \<Rightarrow> WriteQueueEntry Queue" where
  "WriteQueue_new num_entries reserve = Queue_new WriteQueueEntry_new num_entries reserve"

definition WriteQueue_allocate :: "Tick \<Rightarrow> Addr \<Rightarrow> u32 \<Rightarrow> Packet \<Rightarrow> Tick \<Rightarrow> Counter \<Rightarrow>
    WriteQueueEntry Queue \<Rightarrow> (nat \<times> WriteQueueEntry Queue) result" where
  "WriteQueue_allocate now blk_addr blk_size pkt when_ready order q =
     bindR (allocate_entry (\<lambda>e. WriteQueueEntry_getNumTargets e = 0)
              (\<lambda>e. bindR (WriteQueueEntry_allocate now blk_addr blk_size pkt when_ready order e) (\<lambda>e. Inr (e, ()))) q)
       (\<lambda>(i, q, _). Inr (i, q))"

definition WriteQueue_markInService :: "nat \<Rightarrow> WriteQueueEntry Queue \<Rightarrow> WriteQueueEntry Queue result" where
  "WriteQueue_markInService i q =
     bindR (WriteQueueEntry_popTarget (entry_at q i)) (\<lambda>e.
       Queue_deallocate WriteQueueEntry_deallocate i (set_entry i e q))"

section \<open>The interface to queues\<close>

interpretation wq_entry: queue_entry "\<lambda>e. True" "\<lambda>e. WriteQueueEntry_getNumTargets e = 0" WriteQueueEntry_deallocate
  by unfold_locales (auto simp: WriteQueueEntry_deallocate_def WriteQueueEntry_getNumTargets_def)

lemma WriteQueueEntry_new_idle: "WriteQueueEntry_getNumTargets WriteQueueEntry_new = 0"
  by (simp add: WriteQueueEntry_getNumTargets_def WriteQueueEntry_new_def QueueEntry.defs)

lemma wq_inv_new: "0 \<le> n + r \<Longrightarrow> wq_entry.pool_inv (WriteQueue_new n r)"
  using queue_inv_new [of n r WriteQueueEntry_new]
  by (simp add: wq_entry.pool_inv_def WriteQueue_new_def Queue_new_simps WriteQueueEntry_new_idle)

text \<open>A write in service has one target: sending it empties the entry and frees it.\<close>

lemma WriteQueue_markInService_ok:
  assumes inv: "wq_entry.pool_inv q" and i: "i \<in> set (q_allocatedList q)"
    and t: "w_targets (entry_at q i) = [t]"
  shows "\<exists>q'. WriteQueue_markInService i q = Inr q' \<and> wq_entry.pool_inv q' \<and>
    set (q_allocatedList q') = set (q_allocatedList q) - {i} \<and> i \<in> set (q_freeList q') \<and>
    q_allocated q' = q_allocated q - 1 \<and> (\<forall>j. j \<noteq> i \<longrightarrow> entry_at q' j = entry_at q j)"
proof -
  let ?e = "(entry_at q i)\<lparr>w_targets := []\<rparr>"
  have il: "i < length (q_entries q)"
    using inv i queue_inv_lists(1) [of q i] by (simp add: wq_entry.pool_inv_def)
  have p: "WriteQueueEntry_popTarget (entry_at q i) = Inr ?e"
    using t by (simp add: WriteQueueEntry_popTarget_def WriteQueueEntry_hasTargets_def)
  have s: "wq_entry.pool_inv (set_entry i ?e q)" using wq_entry.pool_inv_set_entry [OF inv i] by simp
  have d: "WriteQueueEntry_deallocate (entry_at (set_entry i ?e q) i) = Inr (?e\<lparr>qe_inService := False\<rparr>)"
    using il by (simp add: WriteQueueEntry_deallocate_def)
  show ?thesis
    using wq_entry.deallocate_pool [OF s _ d] i p il by (auto simp: WriteQueue_markInService_def)
qed

section \<open>Properties\<close>

text \<open>
  C37: no write can ever be buffered. A free entry has no targets, which the queue asserts before it
  uses the entry, while \<open>WriteQueueEntry::allocate\<close> asserts that the entry already has one; so
  \<open>WriteQueue::allocate\<close> aborts for every packet and every state of the queue.
\<close>

theorem write_queue_allocate_aborts:
  "\<exists>a. WriteQueue_allocate now blk_addr blk_size pkt when_ready order q = Inl a"
proof (cases "WriteQueue_allocate now blk_addr blk_size pkt when_ready order q")
  case (Inr r)
  then have False
    by (auto simp: WriteQueue_allocate_def allocate_entry_def WriteQueueEntry_allocate_def
        WriteQueueEntry_getNumTargets_def Let_def split: list.splits)
  then show ?thesis ..
qed simp

text \<open>
  Sending a buffered write frees its entry: \<open>markInService\<close> pops the only target and returns the
  entry to the free list, the invariant of the queue is kept and every other entry is unchanged.
\<close>

theorem write_queue_send_frees:
  assumes "wq_entry.pool_inv q" "i \<in> set (q_allocatedList q)" "w_targets (entry_at q i) = [t]"
  shows "\<exists>q'. WriteQueue_markInService i q = Inr q' \<and> wq_entry.pool_inv q' \<and>
    set (q_allocatedList q') = set (q_allocatedList q) - {i} \<and> i \<in> set (q_freeList q') \<and>
    q_allocated q' = q_allocated q - 1 \<and> (\<forall>j. j \<noteq> i \<longrightarrow> entry_at q' j = entry_at q j)"
  by (rule WriteQueue_markInService_ok [OF assms])

theorem write_queue_send_frees_witness:
  "\<exists>q q'. WriteQueue_markInService 0 q = Inr q' \<and> q_allocated q = 1 \<and> q_allocated q' = 0"
proof -
  let ?t = "QTarget_new 0 (sample_packet WritebackDirty (Request_new 0x40 64 0 1)) 0 1"
  let ?e = "WriteQueueEntry_new\<lparr>w_targets := [?t]\<rparr>"
  let ?q = "\<lparr>q_numEntries = 1, q_numReserve = 0, q_entries = [?e], q_allocatedList = [0], q_readyList = [0],
    q_freeList = [], q_numInService = 0, q_allocated = 1\<rparr>"
  have "wq_entry.pool_inv ?q" "w_targets (entry_at ?q 0) = [?t]"
    by (auto simp: wq_entry.pool_inv_def queue_inv_def WriteQueueEntry_new_def QueueEntry.defs QueueEntry_new_def)
  from write_queue_send_frees [OF this(1) _ this(2)] obtain q' where
    "WriteQueue_markInService 0 ?q = Inr q'" "q_allocated q' = q_allocated ?q - 1" by auto
  moreover have "q_allocated ?q = 1" by simp
  ultimately show ?thesis by (metis diff_self)
qed

end
