(* ===== verification/Write_Allocator.thy ===== *)
theory Write_Allocator
  imports Base_Types
begin

text \<open>
  The class \<open>WriteAllocator\<close> of \<open>cache/include/cache_base.h\<close>, with \<open>updateMode\<close> from
  \<open>cache/cache_base.cpp\<close>: it watches the addresses of write misses and switches from allocating to
  coalescing and on to not allocating when they are sequential. The hash map of delay counters is a
  map; \<open>operator[]\<close> inserts a zero for a missing key.
\<close>

section \<open>Definitions\<close>

datatype WriteMode = ALLOCATE | COALESCE | NO_ALLOCATE

record WriteAllocatorParams =
  wp_block_size :: u32
  wp_coalesce_limit :: u32
  wp_delay_threshold :: u32
  wp_no_allocate_limit :: u32

record WriteAllocator =
  wa_mode :: WriteMode
  wa_nextAddr :: Addr
  wa_byteCount :: u32
  wa_coalesceLimit :: u32
  wa_noAllocateLimit :: u32
  wa_delayThreshold :: u32
  wa_delayCtr :: "Addr \<rightharpoonup> Counter"

definition WriteAllocator_reset :: "WriteAllocator \<Rightarrow> WriteAllocator" where
  "WriteAllocator_reset w = w\<lparr>wa_mode := ALLOCATE, wa_byteCount := 0, wa_nextAddr := 0\<rparr>"

definition WriteAllocator_new :: "WriteAllocatorParams \<Rightarrow> WriteAllocator" where
  "WriteAllocator_new p =
     WriteAllocator_reset
       \<lparr>wa_mode = ALLOCATE, wa_nextAddr = 0, wa_byteCount = 0,
        wa_coalesceLimit = wp_coalesce_limit p * wp_block_size p,
        wa_noAllocateLimit = wp_no_allocate_limit p * wp_block_size p,
        wa_delayThreshold = wp_delay_threshold p, wa_delayCtr = Map.empty\<rparr>"

definition WriteAllocator_coalesce :: "WriteAllocator \<Rightarrow> bool" where
  "WriteAllocator_coalesce w \<longleftrightarrow> wa_mode w \<noteq> ALLOCATE"

definition WriteAllocator_allocate :: "WriteAllocator \<Rightarrow> bool" where
  "WriteAllocator_allocate w \<longleftrightarrow> wa_mode w \<noteq> NO_ALLOCATE"

definition ctr_at :: "('k \<rightharpoonup> Counter) \<Rightarrow> 'k \<Rightarrow> Counter" where
  "ctr_at m k = (case m k of None \<Rightarrow> 0 | Some c \<Rightarrow> c)"

definition WriteAllocator_delay :: "Addr \<Rightarrow> WriteAllocator \<Rightarrow> bool \<times> WriteAllocator" where
  "WriteAllocator_delay blk_addr w =
     (let c = ctr_at (wa_delayCtr w) blk_addr;
          w = w\<lparr>wa_delayCtr := (wa_delayCtr w)(blk_addr \<mapsto> c)\<rparr>
      in if c > 0 then (True, w\<lparr>wa_delayCtr := (wa_delayCtr w)(blk_addr \<mapsto> c - 1)\<rparr>) else (False, w))"

definition WriteAllocator_resetDelay :: "Addr \<Rightarrow> WriteAllocator \<Rightarrow> WriteAllocator" where
  "WriteAllocator_resetDelay blk_addr w = w\<lparr>wa_delayCtr := (wa_delayCtr w)(blk_addr := None)\<rparr>"

definition updateMode :: "Addr \<Rightarrow> u32 \<Rightarrow> Addr \<Rightarrow> WriteAllocator \<Rightarrow> WriteAllocator" where
  "updateMode write_addr write_size blk_addr w =
     (let w = (if wa_nextAddr w = write_addr then
                 let w = w\<lparr>wa_delayCtr := (wa_delayCtr w)(blk_addr \<mapsto> ucast (wa_delayThreshold w))\<rparr>
                 in if wa_mode w \<noteq> NO_ALLOCATE then
                      let w = w\<lparr>wa_byteCount := wa_byteCount w + write_size\<rparr>
                      in if wa_mode w = ALLOCATE \<and> wa_byteCount w > wa_coalesceLimit w
                         then w\<lparr>wa_mode := COALESCE\<rparr>
                         else if wa_mode w = COALESCE \<and> wa_byteCount w > wa_noAllocateLimit w
                         then w\<lparr>wa_mode := NO_ALLOCATE\<rparr>
                         else w
                    else w
               else WriteAllocator_resetDelay blk_addr
                      (w\<lparr>wa_byteCount := write_size, wa_mode := ALLOCATE\<rparr>))
      in w\<lparr>wa_nextAddr := write_addr + ucast write_size\<rparr>)"

text \<open>The calls of \<open>delay\<close> for one block, in sequence, with the results.\<close>

fun delay_calls :: "Addr \<Rightarrow> nat \<Rightarrow> WriteAllocator \<Rightarrow> bool list" where
  "delay_calls a 0 w = []"
| "delay_calls a (Suc n) w = (case WriteAllocator_delay a w of (b, w) \<Rightarrow> b # delay_calls a n w)"

text \<open>A sequence of writes of the given sizes, each starting where the previous one ended.\<close>

fun stream_writes :: "(Addr \<Rightarrow> Addr) \<Rightarrow> u32 list \<Rightarrow> WriteAllocator \<Rightarrow> WriteAllocator" where
  "stream_writes blk [] w = w"
| "stream_writes blk (n # ns) w = stream_writes blk ns (updateMode (wa_nextAddr w) n (blk (wa_nextAddr w)) w)"

section \<open>Lemmas\<close>

lemma delay_calls_result:
  "delay_calls a n w = map (\<lambda>i. i < unat (ctr_at (wa_delayCtr w) a)) [0..<n]"
proof (induction n arbitrary: w)
  case (Suc n)
  let ?c = "ctr_at (wa_delayCtr w) a"
  have split: "map f [0..<Suc n] = f 0 # map (\<lambda>i. f (Suc i)) [0..<n]" for f :: "nat \<Rightarrow> bool"
    by (simp add: upt_conv_Cons map_Suc_upt [symmetric] comp_def del: upt_Suc)
  show ?case
  proof (cases "?c > 0")
    case True
    then have "unat (?c - 1) = unat ?c - 1" by (simp add: unat_minus_one word_gt_0)
    moreover have "unat ?c > 0" using True by (simp add: word_gt_0 unat_gt_0)
    ultimately show ?thesis
      using True unfolding split
      by (simp add: WriteAllocator_delay_def Let_def Suc.IH ctr_at_def less_diff_conv)
  next
    case False
    then have z: "?c = 0" by (simp add: word_gt_0)
    then show ?thesis
      unfolding split by (simp add: WriteAllocator_delay_def Let_def Suc.IH) (simp add: ctr_at_def)
  qed
qed simp

lemma updateMode_simps [simp]:
  "wa_coalesceLimit (updateMode a n b w) = wa_coalesceLimit w"
  "wa_noAllocateLimit (updateMode a n b w) = wa_noAllocateLimit w"
  "wa_delayThreshold (updateMode a n b w) = wa_delayThreshold w"
  "wa_nextAddr (updateMode a n b w) = a + ucast n"
  by (simp_all add: updateMode_def Let_def WriteAllocator_resetDelay_def)

lemma updateMode_next:
  "wa_mode w \<noteq> NO_ALLOCATE \<Longrightarrow>
   wa_byteCount (updateMode (wa_nextAddr w) n b w) = wa_byteCount w + n \<and>
   wa_mode (updateMode (wa_nextAddr w) n b w) =
     (if wa_mode w = ALLOCATE then if wa_byteCount w + n > wa_coalesceLimit w then COALESCE else ALLOCATE
      else if wa_byteCount w + n > wa_noAllocateLimit w then NO_ALLOCATE else COALESCE)"
  by (cases "wa_mode w") (simp_all add: updateMode_def Let_def)

lemma updateMode_sticky:
  "wa_mode w = NO_ALLOCATE \<Longrightarrow> wa_mode (updateMode (wa_nextAddr w) n b w) = NO_ALLOCATE"
  by (simp add: updateMode_def Let_def)

lemma stream_no_allocate:
  "wa_mode w = NO_ALLOCATE \<Longrightarrow> wa_mode (stream_writes blk ns w) = NO_ALLOCATE"
  by (induction ns arbitrary: w) (simp_all add: updateMode_sticky)

text \<open>Within a stream below \<open>2\<^sup>3\<^sup>2\<close> bytes the byte count is the sum of the sizes.\<close>

lemma stream_coalesce:
  assumes "wa_mode w = COALESCE" "unat (wa_byteCount w) + sum_list (map unat ns) < 2 ^ 32"
    and "ns \<noteq> []" "unat (wa_noAllocateLimit w) < unat (wa_byteCount w) + sum_list (map unat ns)"
  shows "wa_mode (stream_writes blk ns w) = NO_ALLOCATE"
  using assms
proof (induction ns arbitrary: w)
  case (Cons n ns)
  let ?w = "updateMode (wa_nextAddr w) n (blk (wa_nextAddr w)) w"
  have bc: "unat (wa_byteCount w + n) = unat (wa_byteCount w) + unat n"
    using Cons.prems(2) by (intro unat_add_lem [THEN iffD1]) simp
  show ?case
  proof (cases "wa_byteCount w + n > wa_noAllocateLimit w")
    case True
    then show ?thesis
      using Cons.prems(1) updateMode_next [of w n "blk (wa_nextAddr w)"] stream_no_allocate [of ?w blk ns] by simp
  next
    case False
    then have m: "wa_mode ?w = COALESCE" "wa_byteCount ?w = wa_byteCount w + n"
      using Cons.prems(1) updateMode_next [of w n "blk (wa_nextAddr w)"] by simp_all
    have "unat (wa_byteCount w) + unat n \<le> unat (wa_noAllocateLimit w)"
      using False by (simp add: not_less word_le_nat_alt bc)
    then have "ns \<noteq> []" using Cons.prems(4) by auto
    then show ?thesis using Cons.IH [of ?w] m bc Cons.prems(2,4) by (simp add: add.assoc)
  qed
qed simp

lemma stream_allocate:
  assumes "wa_mode w = ALLOCATE" "unat (wa_byteCount w) + sum_list (map unat ns) < 2 ^ 32"
    and "unat (wa_byteCount w) + sum_list (map unat ns) \<le> unat (wa_coalesceLimit w)"
  shows "wa_mode (stream_writes blk ns w) = ALLOCATE \<and>
    unat (wa_byteCount (stream_writes blk ns w)) = unat (wa_byteCount w) + sum_list (map unat ns)"
  using assms
proof (induction ns arbitrary: w)
  case (Cons n ns)
  let ?w = "updateMode (wa_nextAddr w) n (blk (wa_nextAddr w)) w"
  have bc: "unat (wa_byteCount w + n) = unat (wa_byteCount w) + unat n"
    using Cons.prems(2) by (intro unat_add_lem [THEN iffD1]) simp
  have "\<not> wa_byteCount w + n > wa_coalesceLimit w"
    using Cons.prems(3) by (simp add: not_less word_le_nat_alt bc)
  then have m: "wa_mode ?w = ALLOCATE" "wa_byteCount ?w = wa_byteCount w + n"
    using Cons.prems(1) updateMode_next [of w n "blk (wa_nextAddr w)"] by simp_all
  show ?case using Cons.IH [of ?w] m bc Cons.prems(2,3) by (simp add: add.assoc)
qed simp

lemma stream_simps [simp]:
  "wa_coalesceLimit (stream_writes blk ns w) = wa_coalesceLimit w"
  "wa_noAllocateLimit (stream_writes blk ns w) = wa_noAllocateLimit w"
  by (induction ns arbitrary: w) simp_all

section \<open>Properties\<close>

text \<open>
  C24: a write is delayed only a bounded number of times: after a sequential write to a block,
  \<open>delay\<close> returns true for exactly \<open>delayThreshold\<close> calls and false ever after; after a write out of
  sequence it returns false at once.
\<close>

theorem write_delay_bounded:
  "delay_calls blk n (updateMode a sz blk w) =
     (if wa_nextAddr w = a then map (\<lambda>i. i < unat (wa_delayThreshold w)) [0..<n] else replicate n False)"
proof (cases "wa_nextAddr w = a")
  case True
  then have "ctr_at (wa_delayCtr (updateMode a sz blk w)) blk = ucast (wa_delayThreshold w)"
    by (simp add: updateMode_def Let_def ctr_at_def)
  then show ?thesis using True by (simp add: delay_calls_result unat_ucast_u32)
next
  case False
  then have "ctr_at (wa_delayCtr (updateMode a sz blk w)) blk = 0"
    by (simp add: updateMode_def Let_def WriteAllocator_resetDelay_def ctr_at_def)
  then show ?thesis using False by (simp add: delay_calls_result map_replicate_const)
qed

text \<open>
  C25: the modes follow the length of the write stream. A write out of sequence returns the
  allocator to allocating whatever its mode. From there, a stream of sequential writes that ends
  at most at the coalescing limit keeps allocating, and a stream that exceeds the no-allocate limit
  after a write that exceeded the coalescing limit ends without allocation.
\<close>

theorem write_stream_modes:
  assumes "wa_nextAddr w \<noteq> a"
    and "unat n + sum_list (map unat ns) + unat m + sum_list (map unat ms) < 2 ^ 32"
  shows "let w1 = updateMode a n (blk a) w; w2 = stream_writes blk ns w1; w3 = stream_writes blk (m # ms) w2 in
    wa_mode w1 = ALLOCATE \<and> WriteAllocator_allocate w1 \<and>
    (unat n + sum_list (map unat ns) \<le> unat (wa_coalesceLimit w) \<longrightarrow> wa_mode w2 = ALLOCATE \<and>
      (unat (wa_coalesceLimit w) < unat n + sum_list (map unat ns) + unat m \<longrightarrow> ms \<noteq> [] \<longrightarrow>
       unat (wa_noAllocateLimit w) < unat n + sum_list (map unat ns) + unat m + sum_list (map unat ms) \<longrightarrow>
         wa_mode w3 = NO_ALLOCATE \<and> \<not> WriteAllocator_allocate w3))"
proof -
  define w1 where "w1 = updateMode a n (blk a) w"
  have w1: "wa_mode w1 = ALLOCATE" "wa_byteCount w1 = n" "wa_coalesceLimit w1 = wa_coalesceLimit w"
    "wa_noAllocateLimit w1 = wa_noAllocateLimit w"
    using assms(1) by (simp_all add: w1_def) (simp_all add: updateMode_def Let_def WriteAllocator_resetDelay_def)
  define w2 where "w2 = stream_writes blk ns w1"
  have "wa_mode w2 = ALLOCATE \<and> (unat (wa_coalesceLimit w) < unat n + sum_list (map unat ns) + unat m \<longrightarrow>
      ms \<noteq> [] \<longrightarrow> unat (wa_noAllocateLimit w) < unat n + sum_list (map unat ns) + unat m + sum_list (map unat ms) \<longrightarrow>
      wa_mode (stream_writes blk (m # ms) w2) = NO_ALLOCATE)"
    if le: "unat n + sum_list (map unat ns) \<le> unat (wa_coalesceLimit w)"
  proof -
    have w2: "wa_mode w2 = ALLOCATE" "unat (wa_byteCount w2) = unat n + sum_list (map unat ns)"
      using stream_allocate [of w1 ns blk] w1 le assms(2) by (simp_all add: w2_def)
    have bc: "unat (wa_byteCount w2 + m) = unat n + sum_list (map unat ns) + unat m"
      using w2(2) assms(2) by (subst unat_add_lem [THEN iffD1]) simp_all
    let ?v = "updateMode (wa_nextAddr w2) m (blk (wa_nextAddr w2)) w2"
    have "wa_mode (stream_writes blk ms ?v) = NO_ALLOCATE"
      if "unat (wa_coalesceLimit w) < unat n + sum_list (map unat ns) + unat m" "ms \<noteq> []"
        "unat (wa_noAllocateLimit w) < unat n + sum_list (map unat ns) + unat m + sum_list (map unat ms)"
    proof (rule stream_coalesce [OF _ _ that(2)])
      have "wa_coalesceLimit w2 = wa_coalesceLimit w" using w1(3) by (simp add: w2_def)
      then have "wa_coalesceLimit w2 < wa_byteCount w2 + m" using that(1) by (simp add: word_less_nat_alt bc)
      then show "wa_mode ?v = COALESCE" using updateMode_next [of w2 m "blk (wa_nextAddr w2)"] w2(1) by simp
      have "wa_byteCount ?v = wa_byteCount w2 + m"
        using updateMode_next [of w2 m "blk (wa_nextAddr w2)"] w2(1) by simp
      then show "unat (wa_byteCount ?v) + sum_list (map unat ms) < 2 ^ 32"
        "unat (wa_noAllocateLimit ?v) < unat (wa_byteCount ?v) + sum_list (map unat ms)"
        using bc assms(2) that(3) w1(4) by (simp_all add: w2_def)
    qed
    with w2(1) show ?thesis by simp
  qed
  with w1(1) show ?thesis
    unfolding Let_def w1_def [symmetric] w2_def [symmetric] by (auto simp: WriteAllocator_allocate_def)
qed

theorem write_stream_modes_witness:
  "let w = WriteAllocator_new \<lparr>wp_block_size = 64, wp_coalesce_limit = 2, wp_delay_threshold = 8, wp_no_allocate_limit = 4\<rparr>;
       w1 = updateMode 0x1000 64 (0x1000 AND 0xffc0) w;
       w3 = stream_writes (\<lambda>a. a AND 0xffc0) [64, 64, 64] (stream_writes (\<lambda>a. a AND 0xffc0) [64] w1)
   in wa_mode w1 = ALLOCATE \<and> wa_mode w3 = NO_ALLOCATE"
  unfolding Let_def
  using write_stream_modes [of "WriteAllocator_new \<lparr>wp_block_size = 64, wp_coalesce_limit = 2,
      wp_delay_threshold = 8, wp_no_allocate_limit = 4\<rparr>" "0x1000" 64 "[64]" 64 "[64, 64]" "\<lambda>a. a AND 0xffc0"]
  by (simp add: WriteAllocator_new_def WriteAllocator_reset_def Let_def)

end
