(* ===== verification/Packet_Queue.thy ===== *)
theory Packet_Queue
  imports Cache_Packet
begin

text \<open>
  \<open>cache/include/cache_packet_queue.h\<close> and \<open>cache/cache_packet_queue.cpp\<close>: the queue of packets
  that wait to be sent through a port, ordered by tick. The event \<open>sendEvent\<close> wakes the process
  \<open>pktQueueProcess\<close>; the model counts its notifications, and how the simulation kernel delivers them
  is left to the theory \<open>Schedule\<close>, which runs \<open>processSendEvent\<close>. \<open>sendTiming\<close>, pure virtual, is an argument.
\<close>

section \<open>Definitions\<close>

record DeferredPacket =
  dp_tick :: Tick
  dp_pkt :: Packet

record PacketQueue =
  pq_transmitList :: "DeferredPacket list"
  pq_disableSanityCheck :: bool
  pq_forceOrder :: bool
  pq_waitingOnRetry :: bool
  pq_notifications :: nat

definition PacketQueue_new :: "bool \<Rightarrow> bool \<Rightarrow> PacketQueue" where
  "PacketQueue_new force_order disable_sanity_check =
     \<lparr>pq_transmitList = [], pq_disableSanityCheck = disable_sanity_check, pq_forceOrder = force_order,
      pq_waitingOnRetry = False, pq_notifications = 0\<rparr>"

definition ReqPacketQueue_new :: PacketQueue where
  "ReqPacketQueue_new = PacketQueue_new False False"

definition RespPacketQueue_new :: PacketQueue where
  "RespPacketQueue_new = PacketQueue_new False False"

definition ReqPacketQueue_sendTiming :: "Packet \<Rightarrow> bool" where
  "ReqPacketQueue_sendTiming pkt = True"

definition RespPacketQueue_sendTiming :: "Packet \<Rightarrow> bool" where
  "RespPacketQueue_sendTiming pkt = True"

definition deferredPacketReady :: "PacketQueue \<Rightarrow> bool" where
  "deferredPacketReady q \<longleftrightarrow> pq_transmitList q \<noteq> []"

definition PacketQueue_size :: "PacketQueue \<Rightarrow> nat" where
  "PacketQueue_size q = length (pq_transmitList q)"

definition deferredPacketReadyTime :: "PacketQueue \<Rightarrow> Tick" where
  "deferredPacketReadyTime q =
     (case pq_transmitList q of [] \<Rightarrow> MaxTick | dp # _ \<Rightarrow> dp_tick dp)"

fun checkConflict_loop :: "Packet \<Rightarrow> u32 \<Rightarrow> DeferredPacket list \<Rightarrow> bool result" where
  "checkConflict_loop pkt blk_size [] = Inr False"
| "checkConflict_loop pkt blk_size (p # ps) =
     bindR (Packet_matchBlockAddr_pkt pkt blk_size (dp_pkt p)) (\<lambda>b.
       if b then Inr True else checkConflict_loop pkt blk_size ps)"

definition checkConflict :: "Packet \<Rightarrow> u32 \<Rightarrow> PacketQueue \<Rightarrow> bool result" where
  "checkConflict pkt blk_size q = checkConflict_loop pkt blk_size (pq_transmitList q)"

text \<open>A pending retry is only logged; the event is notified in either case.\<close>

definition schedSendEvent :: "Tick \<Rightarrow> PacketQueue \<Rightarrow> PacketQueue" where
  "schedSendEvent when q = q\<lparr>pq_notifications := pq_notifications q + 1\<rparr>"

text \<open>
  The search from the end of the list: the list is given reversed, and the result is the reversed
  list with the packet inserted, or none when the search reached the front.
\<close>

fun schedSendTiming_loop :: "bool \<Rightarrow> DeferredPacket \<Rightarrow> DeferredPacket list \<Rightarrow> DeferredPacket list option result" where
  "schedSendTiming_loop forceOrder dp [] = Inr None"
| "schedSendTiming_loop forceOrder dp (it # before) =
     bindR (if forceOrder then Packet_matchAddr_pkt (dp_pkt dp) (dp_pkt it) else Inr False) (\<lambda>m.
       if m \<or> dp_tick it \<le> dp_tick dp then Inr (Some (dp # it # before))
       else bindR (schedSendTiming_loop forceOrder dp before) (\<lambda>r.
              Inr (case r of None \<Rightarrow> None | Some l \<Rightarrow> Some (it # l))))"

definition schedSendTiming :: "Packet \<Rightarrow> Tick \<Rightarrow> PacketQueue \<Rightarrow> PacketQueue result" where
  "schedSendTiming pkt when q =
     check ''Packet queue has grown beyond 128 packets''
       (\<not> (\<not> pq_disableSanityCheck q \<and> length (pq_transmitList q) > 128))
       (let dp = \<lparr>dp_tick = when, dp_pkt = pkt\<rparr>
        in bindR (schedSendTiming_loop (pq_forceOrder q) dp (rev (pq_transmitList q))) (\<lambda>r.
             Inr (case r of
                    Some l \<Rightarrow> q\<lparr>pq_transmitList := rev l\<rparr>
                  | None \<Rightarrow> schedSendEvent when (q\<lparr>pq_transmitList := dp # pq_transmitList q\<rparr>))))"

definition sendDeferredPacket :: "(Packet \<Rightarrow> bool) \<Rightarrow> PacketQueue \<Rightarrow> PacketQueue result" where
  "sendDeferredPacket sendTiming q =
     check ''!waitingOnRetry'' (\<not> pq_waitingOnRetry q)
       (case pq_transmitList q of
          [] \<Rightarrow> Inl (AssertFail ''deferredPacketReady()'')
        | dp # rest \<Rightarrow>
            let q = q\<lparr>pq_transmitList := rest\<rparr>;
                q = q\<lparr>pq_waitingOnRetry := \<not> sendTiming (dp_pkt dp)\<rparr>
            in Inr (if \<not> pq_waitingOnRetry q then schedSendEvent (deferredPacketReadyTime q) q
                    else q\<lparr>pq_transmitList := dp # pq_transmitList q\<rparr>))"

definition processSendEvent :: "(Packet \<Rightarrow> bool) \<Rightarrow> PacketQueue \<Rightarrow> PacketQueue result" where
  "processSendEvent sendTiming q =
     check ''!waitingOnRetry'' (\<not> pq_waitingOnRetry q) (sendDeferredPacket sendTiming q)"

definition PacketQueue_retry :: "(Packet \<Rightarrow> bool) \<Rightarrow> PacketQueue \<Rightarrow> PacketQueue result" where
  "PacketQueue_retry sendTiming q =
     check ''waitingOnRetry'' (pq_waitingOnRetry q)
       (sendDeferredPacket sendTiming (q\<lparr>pq_waitingOnRetry := False\<rparr>))"

section \<open>Lemmas\<close>

lemma le_MaxTick [simp]: "t \<le> MaxTick"
  using unsigned_less [of t, where ?'a = nat] by (simp add: word_le_nat_alt MaxTick_def)

lemma schedSendTiming_loop_plain:
  "schedSendTiming_loop False dp xs =
     Inr (if \<exists>y \<in> set xs. dp_tick y \<le> dp_tick dp
          then Some (takeWhile (\<lambda>y. \<not> dp_tick y \<le> dp_tick dp) xs @ dp # dropWhile (\<lambda>y. \<not> dp_tick y \<le> dp_tick dp) xs)
          else None)"
  by (induction xs) auto

lemma sorted_takeWhile_not_rev:
  assumes "sorted (map f xs)"
  shows "rev (dropWhile (\<lambda>y. \<not> f y \<le> t) (rev xs)) = takeWhile (\<lambda>y. f y \<le> t) xs \<and>
    rev (takeWhile (\<lambda>y. \<not> f y \<le> t) (rev xs)) = dropWhile (\<lambda>y. f y \<le> (t :: 'a::linorder)) xs"
  using assms
proof (induction xs rule: rev_induct)
  case (snoc x xs)
  have s: "sorted (map f xs)" "\<forall>y \<in> set xs. f y \<le> f x" using snoc.prems by (auto simp: sorted_append)
  show ?case
  proof (cases "f x \<le> t")
    case True
    then have all: "\<forall>y \<in> set (xs @ [x]). f y \<le> t" using s(2) by auto
    then have "takeWhile (\<lambda>y. f y \<le> t) (xs @ [x]) = xs @ [x]" "dropWhile (\<lambda>y. f y \<le> t) (xs @ [x]) = []"
      by (simp_all add: takeWhile_eq_all_conv)
    with True show ?thesis by simp
  next
    case False
    then have "takeWhile (\<lambda>y. f y \<le> t) (xs @ [x]) = takeWhile (\<lambda>y. f y \<le> t) xs"
      "dropWhile (\<lambda>y. f y \<le> t) (xs @ [x]) = dropWhile (\<lambda>y. f y \<le> t) xs @ [x]"
      by (induction xs) auto
    with False snoc.IH [OF s(1)] show ?thesis by simp
  qed
qed simp

lemma schedSendTiming_loop_forced:
  assumes "schedSendTiming_loop True dp xs = Inr r"
  shows "\<exists>before after. xs = before @ after \<and> (\<forall>y \<in> set before. Packet_matchAddr_pkt (dp_pkt dp) (dp_pkt y) = Inr False) \<and>
    r = (if after = [] then None else Some (before @ dp # after))"
  using assms
proof (induction xs arbitrary: r)
  case (Cons x xs)
  obtain m where m: "Packet_matchAddr_pkt (dp_pkt dp) (dp_pkt x) = Inr m"
    using Cons.prems by auto
  show ?case
  proof (cases "m \<or> dp_tick x \<le> dp_tick dp")
    case True
    then have "r = Some (dp # x # xs)" using Cons.prems m by simp
    then show ?thesis by (intro exI [of _ "[]"] exI [of _ "x # xs"]) simp
  next
    case False
    then obtain r' where r': "schedSendTiming_loop True dp xs = Inr r'"
      "r = (case r' of None \<Rightarrow> None | Some l \<Rightarrow> Some (x # l))" using Cons.prems m by auto
    obtain b a where ba: "xs = b @ a" "\<forall>y \<in> set b. Packet_matchAddr_pkt (dp_pkt dp) (dp_pkt y) = Inr False"
      "r' = (if a = [] then None else Some (b @ dp # a))" using Cons.IH [OF r'(1)] by blast
    with False m r'(2) show ?thesis by (intro exI [of _ "x # b"] exI [of _ a]) auto
  qed
qed simp

section \<open>Properties\<close>

text \<open>
  C23: without forced ordering, a queue sorted by tick stays sorted: a new packet is placed after
  every packet that is due no later and before every one that is due later, so packets due at the
  same tick leave in the order they came; the send event is notified exactly when the new packet is
  the first of the queue.
\<close>

theorem schedSendTiming_stable:
  assumes "\<not> pq_forceOrder q" "sorted (map dp_tick (pq_transmitList q))"
    and "pq_disableSanityCheck q \<or> PacketQueue_size q \<le> 128"
  shows "\<exists>q'. schedSendTiming pkt when q = Inr q' \<and>
    pq_transmitList q' = takeWhile (\<lambda>y. dp_tick y \<le> when) (pq_transmitList q) @ \<lparr>dp_tick = when, dp_pkt = pkt\<rparr> #
      dropWhile (\<lambda>y. dp_tick y \<le> when) (pq_transmitList q) \<and>
    sorted (map dp_tick (pq_transmitList q')) \<and>
    pq_notifications q' = pq_notifications q + (if \<forall>y \<in> set (pq_transmitList q). when < dp_tick y then 1 else 0) \<and>
    deferredPacketReadyTime q' = min when (deferredPacketReadyTime q)"
proof -
  let ?xs = "pq_transmitList q" and ?n = "\<lparr>dp_tick = when, dp_pkt = pkt\<rparr>"
  let ?l = "takeWhile (\<lambda>y. dp_tick y \<le> when) ?xs @ ?n # dropWhile (\<lambda>y. dp_tick y \<le> when) ?xs"
  let ?k = "if \<forall>y \<in> set ?xs. when < dp_tick y then 1 else 0"
  have r: "schedSendTiming pkt when q = Inr (q\<lparr>pq_transmitList := ?l, pq_notifications := pq_notifications q + ?k\<rparr>)"
  proof (cases "\<exists>y \<in> set ?xs. dp_tick y \<le> when")
    case True
    then have "\<not> (\<forall>y \<in> set ?xs. when < dp_tick y)" by (auto simp: not_less)
    then show ?thesis
      using True assms sorted_takeWhile_not_rev [OF assms(2), of "when"]
      by (simp add: schedSendTiming_def schedSendTiming_loop_plain PacketQueue_size_def Let_def not_less)
  next
    case False
    then have "\<forall>y \<in> set ?xs. when < dp_tick y" "?l = ?n # ?xs" by (cases ?xs, auto simp: not_le)+
    with False show ?thesis
      using assms by (simp add: schedSendTiming_def schedSendTiming_loop_plain PacketQueue_size_def Let_def schedSendEvent_def not_less)
  qed
  have "sorted (map dp_tick ?l)"
  proof -
    have so: "sorted (map dp_tick (takeWhile (\<lambda>y. dp_tick y \<le> when) ?xs))"
      "sorted (map dp_tick (dropWhile (\<lambda>y. dp_tick y \<le> when) ?xs))"
      using assms(2) by (metis sorted_append map_append takeWhile_dropWhile_id)+
    have "\<forall>y \<in> set (takeWhile (\<lambda>y. dp_tick y \<le> when) ?xs). dp_tick y \<le> when"
      using set_takeWhileD by fast
    moreover have "\<forall>y \<in> set (dropWhile (\<lambda>y. dp_tick y \<le> when) ?xs). when \<le> dp_tick y"
    proof (cases "dropWhile (\<lambda>y. dp_tick y \<le> when) ?xs")
      case (Cons z zs)
      then have "\<not> dp_tick z \<le> when" by (metis hd_dropWhile list.discI list.sel(1))
      moreover have "\<forall>y \<in> set zs. dp_tick z \<le> dp_tick y" using so(2) Cons by simp
      ultimately show ?thesis using Cons by auto
    next
      case Nil
      then show ?thesis by (simp only: Nil) simp
    qed
    ultimately show ?thesis using so by (fastforce simp: sorted_append)
  qed
  moreover have "deferredPacketReadyTime (q\<lparr>pq_transmitList := ?l, pq_notifications := pq_notifications q + ?k\<rparr>) =
    min when (deferredPacketReadyTime q)"
    by (cases ?xs) (auto simp: deferredPacketReadyTime_def min_def)
  ultimately show ?thesis using r by simp
qed

theorem schedSendTiming_stable_witness:
  "\<exists>q1 q2 p. schedSendTiming p 5 ReqPacketQueue_new = Inr q1 \<and> schedSendTiming p 3 q1 = Inr q2 \<and>
     map dp_tick (pq_transmitList q2) = [3, 5] \<and> pq_notifications q2 = 2"
proof -
  let ?p = "sample_packet ReadReq (Request_new 0x40 8 0 1)"
  have e: "\<not> pq_forceOrder ReqPacketQueue_new" "pq_transmitList ReqPacketQueue_new = []"
    "pq_notifications ReqPacketQueue_new = 0" "PacketQueue_size ReqPacketQueue_new \<le> 128"
    by (simp_all add: ReqPacketQueue_new_def PacketQueue_new_def PacketQueue_size_def)
  then obtain q1 where q1: "schedSendTiming ?p 5 ReqPacketQueue_new = Inr q1" "map dp_tick (pq_transmitList q1) = [5]"
    "pq_notifications q1 = 1"
    using schedSendTiming_stable [of ReqPacketQueue_new ?p 5] by auto
  have f: "\<not> pq_forceOrder q1"
    using q1(1) e(1,2) by (auto simp: schedSendTiming_def schedSendEvent_def Let_def split: if_splits)
  obtain dp where dp: "pq_transmitList q1 = [dp]" "dp_tick dp = 5" using q1(2) by auto
  then obtain q2 where "schedSendTiming ?p 3 q1 = Inr q2" "map dp_tick (pq_transmitList q2) = [3, 5]"
    "pq_notifications q2 = 2"
    using schedSendTiming_stable [OF f, of ?p 3] q1(3) by (auto simp: PacketQueue_size_def)
  with q1(1) show ?thesis by (intro exI [of _ q1] exI [of _ q2] exI [of _ ?p] conjI)
qed

text \<open>
  With forced ordering no packet overtakes an earlier one for the same address: whatever the
  ticks, the new packet is inserted at one position of the queue and no packet behind it has its
  address.
\<close>

theorem schedSendTiming_forced:
  assumes "pq_forceOrder q" "schedSendTiming pkt when q = Inr q'"
  shows "\<exists>before after. pq_transmitList q = before @ after \<and>
    pq_transmitList q' = before @ \<lparr>dp_tick = when, dp_pkt = pkt\<rparr> # after \<and>
    (\<forall>y \<in> set after. Packet_matchAddr_pkt pkt (dp_pkt y) = Inr False)"
proof -
  let ?n = "\<lparr>dp_tick = when, dp_pkt = pkt\<rparr>"
  obtain r where r: "schedSendTiming_loop True ?n (rev (pq_transmitList q)) = Inr r"
    "q' = (case r of Some l \<Rightarrow> q\<lparr>pq_transmitList := rev l\<rparr>
      | None \<Rightarrow> schedSendEvent when (q\<lparr>pq_transmitList := ?n # pq_transmitList q\<rparr>))"
    using assms by (auto simp: schedSendTiming_def Let_def)
  obtain b a where ba: "rev (pq_transmitList q) = b @ a"
    "\<forall>y \<in> set b. Packet_matchAddr_pkt pkt (dp_pkt y) = Inr False"
    "r = (if a = [] then None else Some (b @ ?n # a))"
    using schedSendTiming_loop_forced [OF r(1)] by auto
  have "pq_transmitList q = rev a @ rev b" using ba(1) by (metis rev_append rev_rev_ident)
  with ba r(2) show ?thesis
    by (intro exI [of _ "rev a"] exI [of _ "rev b"]) (auto simp: schedSendEvent_def)
qed

theorem schedSendTiming_forced_witness:
  "\<exists>q q' p. pq_forceOrder q \<and> schedSendTiming p 3 q = Inr q' \<and> map dp_tick (pq_transmitList q') = [5, 3]"
proof -
  let ?p = "sample_packet ReadReq (Request_new 0x40 8 0 1)"
  let ?q = "(PacketQueue_new True False)\<lparr>pq_transmitList := [\<lparr>dp_tick = 5, dp_pkt = ?p\<rparr>]\<rparr>"
  have m: "Packet_matchAddr_pkt ?p ?p = Inr True"
    by (simp add: Packet_matchAddr_pkt_def Packet_matchAddr_def)
  obtain q' where q': "schedSendTiming ?p 3 ?q = Inr q'"
    by (simp add: schedSendTiming_def Let_def PacketQueue_new_def m)
  have f: "pq_forceOrder ?q" by (simp add: PacketQueue_new_def)
  obtain b a where "[\<lparr>dp_tick = 5, dp_pkt = ?p\<rparr>] = b @ a" "pq_transmitList q' = b @ \<lparr>dp_tick = 3, dp_pkt = ?p\<rparr> # a"
    "\<forall>y \<in> set a. Packet_matchAddr_pkt ?p (dp_pkt y) = Inr False"
    using schedSendTiming_forced [OF f q'] by auto
  then have "map dp_tick (pq_transmitList q') = [5, 3]" using m by (cases b) (auto simp: Cons_eq_append_conv)
  with f q' show ?thesis by (intro exI [of _ ?q] exI [of _ q'] exI [of _ ?p] conjI)
qed

text \<open>
  C40: after the last packet the queue wakes itself once more and the wake-up aborts:
  \<open>sendDeferredPacket\<close> notifies the send event whether or not a packet is left, and
  \<open>processSendEvent\<close> on an empty queue fails the assertion \<open>deferredPacketReady()\<close>.
\<close>

theorem send_last_packet_aborts:
  assumes "pq_transmitList q = [dp]" "\<not> pq_waitingOnRetry q" "sendTiming (dp_pkt dp)"
  shows "\<exists>q'. processSendEvent sendTiming q = Inr q' \<and> pq_transmitList q' = [] \<and>
    pq_notifications q' = pq_notifications q + 1 \<and>
    processSendEvent sendTiming q' = Inl (AssertFail ''deferredPacketReady()'')"
  using assms by (simp add: processSendEvent_def sendDeferredPacket_def Let_def schedSendEvent_def)

theorem send_last_packet_aborts_witness:
  "\<exists>q q'. processSendEvent ReqPacketQueue_sendTiming q = Inr q' \<and>
     processSendEvent ReqPacketQueue_sendTiming q' = Inl (AssertFail ''deferredPacketReady()'')"
proof -
  let ?q = "ReqPacketQueue_new\<lparr>pq_transmitList := [\<lparr>dp_tick = 5, dp_pkt = sample_packet ReadReq (Request_new 0x40 8 0 1)\<rparr>]\<rparr>"
  have "\<not> pq_waitingOnRetry ?q" by (simp add: ReqPacketQueue_new_def PacketQueue_new_def)
  then show ?thesis
    using send_last_packet_aborts [of ?q _ ReqPacketQueue_sendTiming] by (auto simp: ReqPacketQueue_sendTiming_def)
qed

end
