(* ===== verification/Global_Memory.thy ===== *)
theory Global_Memory
  imports Cache_Packet
begin

text \<open>
  \<open>memory/include/global_memory.h\<close> and \<open>memory/global_memory.cpp\<close>, the memory behind the cache, and
  the class \<open>Initiator\<close> of \<open>cache/include/cache_interface.h\<close>, through which the L0 cache of
  \<open>top/include/l0.h\<close> reaches it. The memory array is a list of bytes, the data buffer of a transaction
  a pointer into the buffer heap. Of the TLM payload the record \<open>payload\<close> has the members the sources
  use; the constructor of the payload is not in the repository, so the payload it returns is an
  argument. The socket binding of \<open>top/top.cpp\<close> makes a transport call of the initiator a call of
  \<open>Memory::b_transport\<close>; a tick count stands for \<open>sc_time\<close>.
\<close>

section \<open>Definitions\<close>

datatype tlm_command = TLM_READ_COMMAND | TLM_WRITE_COMMAND | TLM_IGNORE_COMMAND

datatype tlm_response_status = TLM_OK_RESPONSE | TLM_INCOMPLETE_RESPONSE | TLM_GENERIC_ERROR_RESPONSE
  | TLM_ADDRESS_ERROR_RESPONSE | TLM_COMMAND_ERROR_RESPONSE | TLM_BURST_ERROR_RESPONSE
  | TLM_BYTE_ENABLE_ERROR_RESPONSE

record payload =
  gp_command :: tlm_command
  gp_address :: u64
  gp_data :: ptr
  gp_length :: u32
  gp_byte_enable :: bool
  gp_streaming_width :: u32
  gp_response :: tlm_response_status

record Memory =
  gm_ID :: u32
  gm_read_delay :: nat
  gm_write_delay :: nat
  gm_memory_size :: u64
  gm_memory_width :: u32
  gm_memory :: "u8 list"
  gm_previous_warning :: bool

text \<open>The loop that initialises every fourth byte, with the 32-bit index of the source.\<close>

partial_function (option) memory_init_loop :: "u64 \<Rightarrow> u32 \<Rightarrow> u8 list \<Rightarrow> u8 list result option" where
  "memory_init_loop msize i m =
     (if ucast i \<le> msize then
        if unat i < length m then memory_init_loop msize (i + 4) (m[unat i := ucast (i div 4)])
        else Some (Inl (Undef ''m_memory[i]''))
      else Some (Inr m))"

definition Memory_new :: "u32 \<Rightarrow> u64 \<Rightarrow> u32 \<Rightarrow> Memory result option" where
  "Memory_new ID memory_size memory_width =
     (case memory_init_loop memory_size 0 (replicate (unat memory_size) 0) of
        None \<Rightarrow> None
      | Some r \<Rightarrow> Some (bindR r (\<lambda>m.
          check ''m_memory_width > 0'' (memory_width > 0)
         (check ''m_memory_size % m_memory_width == 0'' (memory_size mod ucast memory_width = 0)
         (check ''0'' (\<not> ucast memory_width > memory_size)
           (Inr \<lparr>gm_ID = ID, gm_read_delay = 0, gm_write_delay = 0, gm_memory_size = memory_size,
                 gm_memory_width = memory_width, gm_memory = m, gm_previous_warning = False\<rparr>))))))"

definition check_address :: "payload \<Rightarrow> Memory \<Rightarrow> tlm_response_status" where
  "check_address gp m =
     (if gp_address gp \<ge> gm_memory_size m then TLM_ADDRESS_ERROR_RESPONSE
      else if gp_address gp + ucast (gp_length gp) \<ge> gm_memory_size m then TLM_ADDRESS_ERROR_RESPONSE
      else TLM_OK_RESPONSE)"

definition get_mem_ptr :: "Memory \<Rightarrow> u8 list" where
  "get_mem_ptr m = gm_memory m"

definition b_transport :: "payload \<Rightarrow> nat \<Rightarrow> heap \<Rightarrow> Memory \<Rightarrow> (payload \<times> nat \<times> heap \<times> Memory) result" where
  "b_transport gp delay_time h m =
     (let address = unat (gp_address gp);
          len = unat (gp_length gp);
          response_status = check_address gp m;
          gp = (if gp_byte_enable gp then gp\<lparr>gp_response := TLM_BYTE_ENABLE_ERROR_RESPONSE\<rparr>
                else if gp_streaming_width gp \<noteq> gp_length gp then gp\<lparr>gp_response := TLM_BURST_ERROR_RESPONSE\<rparr>
                else gp);
          done = gp\<lparr>gp_response := response_status\<rparr>
      in case gp_command gp of
           TLM_IGNORE_COMMAND \<Rightarrow> check ''0'' (gm_previous_warning m) (Inr (done, delay_time, h, m))
         | TLM_WRITE_COMMAND \<Rightarrow>
             if response_status = TLM_OK_RESPONSE then
               bindR (load_bytes h (gp_data gp) len) (\<lambda>bs.
                 defined ''m_memory[address++]'' (address + len \<le> length (gm_memory m))
                   (Inr (done, delay_time + gm_write_delay m, h,
                         m\<lparr>gm_memory := take address (gm_memory m) @ bs @ drop (address + len) (gm_memory m)\<rparr>)))
             else Inr (done, delay_time, h, m)
         | TLM_READ_COMMAND \<Rightarrow>
             if response_status = TLM_OK_RESPONSE then
               defined ''m_memory[address++]'' (address + len \<le> length (gm_memory m))
                 (bindR (store_bytes h (gp_data gp) (take len (drop address (gm_memory m)))) (\<lambda>h.
                    Inr (done, delay_time + gm_read_delay m, h, m)))
             else Inr (done, delay_time, h, m))"

definition Initiator_Read :: "payload \<Rightarrow> u64 \<Rightarrow> u64 \<Rightarrow> ptr \<Rightarrow> heap \<Rightarrow> Memory \<Rightarrow> (bool \<times> heap \<times> Memory) result" where
  "Initiator_Read tr addr sz buf h m =
     (let tr = tr\<lparr>gp_command := TLM_READ_COMMAND, gp_address := addr, gp_length := ucast sz,
                        gp_data := buf, gp_streaming_width := ucast sz, gp_byte_enable := (addr \<noteq> 0)\<rparr>
      in bindR (b_transport tr 0 h m) (\<lambda>(tr, delay, h, m).
           check ''from downstream read response invalid'' (gp_response tr = TLM_OK_RESPONSE)
             (Inr (True, h, m))))"

definition Initiator_Write :: "payload \<Rightarrow> u64 \<Rightarrow> u64 \<Rightarrow> ptr \<Rightarrow> heap \<Rightarrow> Memory \<Rightarrow> (bool \<times> heap \<times> Memory) result" where
  "Initiator_Write tr addr sz buf h m =
     (let tr = tr\<lparr>gp_command := TLM_WRITE_COMMAND, gp_address := addr, gp_length := ucast sz,
                        gp_data := buf\<rparr>
      in bindR (b_transport tr 0 h m) (\<lambda>(tr, delay, h, m).
           check ''from downstream write response invalid'' (gp_response tr = TLM_OK_RESPONSE)
             (Inr (True, h, m))))"

definition Initiator_sendTimingReq :: "payload \<Rightarrow> Packet \<Rightarrow> heap \<Rightarrow> Memory \<Rightarrow> (bool \<times> heap \<times> Memory) result" where
  "Initiator_sendTimingReq tr pkt h m =
     (if Packet_isWrite pkt \<or> Packet_isRead pkt then
        bindR (Packet_getAddr pkt) (\<lambda>addr. bindR (Packet_getSize pkt) (\<lambda>sz. bindR (Packet_getPtr pkt) (\<lambda>buf.
          if Packet_isWrite pkt then Initiator_Write tr addr (ucast sz) buf h m
          else Initiator_Read tr addr (ucast sz) buf h m)))
      else Inl (AssertFail ''packet type invalid''))"

section \<open>Lemmas\<close>

definition memory_wf :: "Memory \<Rightarrow> bool" where
  "memory_wf m \<longleftrightarrow> length (gm_memory m) = unat (gm_memory_size m) \<and> unat (gm_memory_size m) + 2 ^ 32 \<le> 2 ^ 64"

lemma check_address_iff:
  assumes "memory_wf m"
  shows "check_address gp m = TLM_OK_RESPONSE \<longleftrightarrow>
    unat (gp_address gp) + unat (gp_length gp) < unat (gm_memory_size m)"
proof (cases "gp_address gp \<ge> gm_memory_size m")
  case True
  then show ?thesis by (simp add: check_address_def word_le_nat_alt)
next
  case False
  then have "unat (gp_address gp) < unat (gm_memory_size m)" by (simp add: word_le_nat_alt)
  then have "unat (gp_address gp) + unat (ucast (gp_length gp) :: u64) < 2 ^ 64"
    using assms unat_u32_less [of "gp_length gp"] by (simp add: memory_wf_def unat_ucast_u32)
  then have "unat (gp_address gp + ucast (gp_length gp)) = unat (gp_address gp) + unat (gp_length gp)"
    using unat_add_lem [of "gp_address gp" "ucast (gp_length gp)"] by (simp add: unat_ucast_u32)
  then show ?thesis using False by (simp add: check_address_def word_le_nat_alt not_le)
qed

lemma check_address_error: "check_address gp m \<noteq> TLM_OK_RESPONSE \<Longrightarrow> check_address gp m = TLM_ADDRESS_ERROR_RESPONSE"
  by (simp add: check_address_def split: if_splits)

lemma memory_init_loop_overrun:
  assumes "unat msize < 2 ^ 32" "4 dvd unat msize" "4 dvd unat i" "unat i \<le> unat msize" "length m = unat msize"
  shows "memory_init_loop msize i m = Some (Inl (Undef ''m_memory[i]''))"
  using assms
proof (induction "unat msize - unat i" arbitrary: i m rule: less_induct)
  case less
  have le: "(ucast i :: u64) \<le> msize" using less.prems(4) by (simp add: word_le_nat_alt unat_ucast_u32)
  show ?case
  proof (cases "unat i < length m")
    case True
    have i4: "unat i + 4 \<le> unat msize"
      using True less.prems(2,3,5) by (elim dvdE) simp
    have n: "unat (i + 4) = unat i + 4"
      using i4 less.prems(1) unat_add_lem [of i 4] by simp
    have "memory_init_loop msize (i + 4) (m[unat i := ucast (i div 4)]) = Some (Inl (Undef ''m_memory[i]''))"
      using less.prems n i4 True by (intro less.hyps) (simp_all add: dvd_add)
    with True le show ?thesis by (subst memory_init_loop.simps) simp
  next
    case False
    with le show ?thesis by (subst memory_init_loop.simps) simp
  qed
qed

lemma b_transport_write:
  assumes "memory_wf m" "gp_command gp = TLM_WRITE_COMMAND" "load_bytes h (gp_data gp) (unat (gp_length gp)) = Inr bs"
    and "unat (gp_address gp) + unat (gp_length gp) < unat (gm_memory_size m)"
  shows "\<exists>gp'. b_transport gp d h m = Inr (gp', d + gm_write_delay m, h, m\<lparr>gm_memory :=
      take (unat (gp_address gp)) (gm_memory m) @ bs @ drop (unat (gp_address gp) + unat (gp_length gp)) (gm_memory m)\<rparr>) \<and>
    gp_response gp' = TLM_OK_RESPONSE"
  using assms check_address_iff [OF assms(1), of gp]
  by (simp add: b_transport_def Let_def memory_wf_def)

lemma b_transport_read:
  assumes "memory_wf m" "gp_command gp = TLM_READ_COMMAND"
    and "unat (gp_address gp) + unat (gp_length gp) < unat (gm_memory_size m)"
    and "store_bytes h (gp_data gp) (take (unat (gp_length gp)) (drop (unat (gp_address gp)) (gm_memory m))) = Inr h'"
  shows "\<exists>gp'. b_transport gp d h m = Inr (gp', d + gm_read_delay m, h', m) \<and> gp_response gp' = TLM_OK_RESPONSE"
  using assms check_address_iff [OF assms(1), of gp]
  by (simp add: b_transport_def Let_def memory_wf_def)

lemma b_transport_reject:
  assumes "memory_wf m" "gp_command gp \<noteq> TLM_IGNORE_COMMAND"
    and "\<not> unat (gp_address gp) + unat (gp_length gp) < unat (gm_memory_size m)"
  shows "\<exists>gp'. b_transport gp d h m = Inr (gp', d, h, m) \<and> gp_response gp' = TLM_ADDRESS_ERROR_RESPONSE"
  using assms check_address_iff [OF assms(1), of gp] check_address_error [of gp m]
  by (cases "gp_command gp") (auto simp: b_transport_def Let_def)

lemma load_bytes_length: "load_bytes h q n = Inr bs \<Longrightarrow> length bs = n"
  by (cases q) (auto simp: load_bytes_Inr)

section \<open>Properties\<close>

text \<open>
  C22: the memory is a store: a write transaction inside the memory succeeds, and a read of the same
  range afterwards returns the bytes written, whatever else the transactions carry (byte enables
  and streaming width are ignored); bytes outside the range keep their value. A transaction that does
  not end before the last byte of the memory is answered with an address error and changes nothing.
\<close>

theorem memory_read_after_write:
  assumes "memory_wf m" "gp_command gw = TLM_WRITE_COMMAND" "gp_command gr = TLM_READ_COMMAND"
    and "gp_address gr = gp_address gw" "gp_length gr = gp_length gw"
    and "load_bytes h (gp_data gw) (unat (gp_length gw)) = Inr bs"
    and "\<forall>vs. length vs = unat (gp_length gw) \<longrightarrow> (\<exists>h'. store_bytes h (gp_data gr) vs = Inr h')"
  shows "if unat (gp_address gw) + unat (gp_length gw) < unat (gm_memory_size m)
    then \<exists>gw' gr' m' h'. b_transport gw d h m = Inr (gw', d + gm_write_delay m, h, m') \<and>
      gp_response gw' = TLM_OK_RESPONSE \<and> memory_wf m' \<and>
      b_transport gr d h m' = Inr (gr', d + gm_read_delay m, h', m') \<and> gp_response gr' = TLM_OK_RESPONSE \<and>
      store_bytes h (gp_data gr) bs = Inr h' \<and>
      (\<forall>k. k < unat (gp_address gw) \<or> unat (gp_address gw) + unat (gp_length gw) \<le> k \<longrightarrow>
         gm_memory m' ! k = gm_memory m ! k)
    else \<exists>gw' gr'. b_transport gw d h m = Inr (gw', d, h, m) \<and> gp_response gw' = TLM_ADDRESS_ERROR_RESPONSE \<and>
      b_transport gr d h m = Inr (gr', d, h, m) \<and> gp_response gr' = TLM_ADDRESS_ERROR_RESPONSE"
proof (cases "unat (gp_address gw) + unat (gp_length gw) < unat (gm_memory_size m)")
  case True
  let ?a = "unat (gp_address gw)" and ?n = "unat (gp_length gw)" and ?M = "gm_memory m"
  let ?m = "m\<lparr>gm_memory := take ?a ?M @ bs @ drop (?a + ?n) ?M\<rparr>"
  have l: "length bs = ?n" "length ?M = unat (gm_memory_size m)"
    using load_bytes_length [OF assms(6)] assms(1) by (simp_all add: memory_wf_def)
  have wf: "memory_wf ?m" using assms(1) l True by (simp add: memory_wf_def)
  have r: "take ?n (drop ?a (gm_memory ?m)) = bs" using l True by simp
  obtain gw' where w: "b_transport gw d h m = Inr (gw', d + gm_write_delay m, h, ?m)" "gp_response gw' = TLM_OK_RESPONSE"
    using b_transport_write [OF assms(1,2,6) True, of d] by blast
  obtain h' where h': "store_bytes h (gp_data gr) bs = Inr h'" using assms(7) l(1) by blast
  have "\<exists>gr'. b_transport gr d h ?m = Inr (gr', d + gm_read_delay ?m, h', ?m) \<and> gp_response gr' = TLM_OK_RESPONSE"
    using True h' r assms(4,5) by (intro b_transport_read [OF wf assms(3)]) simp_all
  moreover have "gm_memory ?m ! k = ?M ! k" if "k < ?a \<or> ?a + ?n \<le> k" for k
    using that l True by (auto simp: nth_append)
  ultimately show ?thesis using True w wf h' by auto
next
  case False
  then show ?thesis
    using b_transport_reject [OF assms(1), of gw d h] b_transport_reject [OF assms(1), of gr d h] assms(2-5) by auto
qed

theorem memory_read_after_write_witness:
  "\<exists>gw' gr' m' h'. b_transport \<lparr>gp_command = TLM_WRITE_COMMAND, gp_address = 4, gp_data = Ptr 0 0, gp_length = 2,
       gp_byte_enable = False, gp_streaming_width = 0, gp_response = TLM_INCOMPLETE_RESPONSE\<rparr> 0
       [Some [7, 8], Some [0, 0]]
       \<lparr>gm_ID = 0, gm_read_delay = 0, gm_write_delay = 0, gm_memory_size = 16, gm_memory_width = 4,
        gm_memory = replicate 16 0, gm_previous_warning = False\<rparr> = Inr (gw', 0, [Some [7, 8], Some [0, 0]], m') \<and>
     b_transport \<lparr>gp_command = TLM_READ_COMMAND, gp_address = 4, gp_data = Ptr 1 0, gp_length = 2,
       gp_byte_enable = True, gp_streaming_width = 2, gp_response = TLM_INCOMPLETE_RESPONSE\<rparr> 0
       [Some [7, 8], Some [0, 0]] m' = Inr (gr', 0, [Some [7, 8], Some [7, 8]], m')"
proof -
  let ?gw = "\<lparr>gp_command = TLM_WRITE_COMMAND, gp_address = 4, gp_data = Ptr 0 0, gp_length = 2,
       gp_byte_enable = False, gp_streaming_width = 0, gp_response = TLM_INCOMPLETE_RESPONSE\<rparr>"
  let ?gr = "\<lparr>gp_command = TLM_READ_COMMAND, gp_address = 4, gp_data = Ptr 1 0, gp_length = 2,
       gp_byte_enable = True, gp_streaming_width = 2, gp_response = TLM_INCOMPLETE_RESPONSE\<rparr>"
  let ?h = "[Some [7, 8], Some [0, 0]]"
  let ?m = "\<lparr>gm_ID = 0, gm_read_delay = 0, gm_write_delay = 0, gm_memory_size = 16, gm_memory_width = 4,
        gm_memory = replicate 16 0, gm_previous_warning = False\<rparr>"
  have "memory_wf ?m" "load_bytes ?h (gp_data ?gw) (unat (gp_length ?gw)) = Inr [7, 8]"
    by (simp_all add: memory_wf_def load_bytes_Inr)
  moreover have st: "store_bytes ?h (Ptr 1 0) vs = Inr [Some [7, 8], Some vs]" if "length vs = 2" for vs
    using that by (simp add: store_bytes_Inr)
  ultimately show ?thesis
    using memory_read_after_write [of ?m ?gw ?gr ?h "[7, 8]" 0] by auto
qed

text \<open>
  C39: the constructor writes past the end of the memory: the initialisation loop runs up to and
  including the size, so for every size that is a multiple of four and below \<open>2\<^sup>3\<^sup>2\<close> (the configured
  size is 512 MiB) it stores to \<open>m_memory[m_memory_size]\<close>.
\<close>

theorem memory_constructor_overruns:
  assumes "unat memory_size < 2 ^ 32" "4 dvd unat memory_size"
  shows "Memory_new ID memory_size memory_width = Some (Inl (Undef ''m_memory[i]''))"
  using memory_init_loop_overrun [OF assms, of 0 "replicate (unat memory_size) 0"] by (simp add: Memory_new_def)

theorem memory_constructor_overruns_witness:
  "Memory_new 0 (512 * 1024 * 1024) 1024 = Some (Inl (Undef ''m_memory[i]''))"
  by (rule memory_constructor_overruns) simp_all

end
