(* ===== verification/Prefetch.thy ===== *)
theory Prefetch
  imports Cache_Packet
begin

text \<open>
  The prefetchers: \<open>prefetch/include/prefetch_base.h\<close> and \<open>prefetch/prefetch_base.cpp\<close> (\<open>Base\<close>),
  \<open>prefetch/include/prefetch_queued.h\<close> and \<open>prefetch/prefetch_queued.cpp\<close> (\<open>Queued\<close>), and
  \<open>prefetch/prefetch_tagged.cpp\<close> (\<open>Tagged\<close>), with \<open>CacheAccessor\<close> of \<open>cache/include/cache_probe_arg.h\<close>
  as a record of functions. The members that the three classes add are one record, \<open>Queued\<close>, whose
  virtual \<open>calculatePrefetch\<close> is that of \<open>Tagged\<close>. List iterators are positions. The probe
  listeners are in the theory of probes. Left out are the log texts and the accessor
  template \<open>PrefetchInfo::get\<close>, which nothing instantiates.
\<close>

section \<open>Definitions\<close>

record CacheAccessor =
  ca_inCache :: "Addr \<Rightarrow> bool \<Rightarrow> bool result"
  ca_hasBeenPrefetched :: "Addr \<Rightarrow> bool \<Rightarrow> bool result"
  ca_hasBeenPrefetched_by :: "Addr \<Rightarrow> bool \<Rightarrow> RequestorID \<Rightarrow> bool result"
  ca_inMissQueue :: "Addr \<Rightarrow> bool \<Rightarrow> bool result"
  ca_coalesce :: bool

record PrefetchInfo =
  pi_address :: Addr
  pi_pc :: Addr
  pi_requestorId :: RequestorID
  pi_validPC :: bool
  pi_secure :: bool
  pi_size :: u32
  pi_write :: bool
  pi_paddress :: Addr
  pi_cacheMiss :: bool
  pi_data :: "u8 list option"

definition PrefetchInfo_getPC :: "PrefetchInfo \<Rightarrow> Addr result" where
  "PrefetchInfo_getPC pfi = check ''hasPC()'' (pi_validPC pfi) (Inr (pi_pc pfi))"

definition sameAddr :: "PrefetchInfo \<Rightarrow> PrefetchInfo \<Rightarrow> bool" where
  "sameAddr pfi self \<longleftrightarrow> pi_address self = pi_address pfi \<and> pi_secure self = pi_secure pfi"

definition PrefetchInfo_new :: "heap \<Rightarrow> Packet \<Rightarrow> Addr \<Rightarrow> bool \<Rightarrow> PrefetchInfo result" where
  "PrefetchInfo_new h pkt addr miss =
     bindR (if Request_hasPC (p_req pkt) then Request_getPC (p_req pkt) else Inr 0) (\<lambda>pc.
     bindR (Packet_isSecure pkt) (\<lambda>sec.
     bindR (Request_getSize (p_req pkt)) (\<lambda>sz.
     bindR (Request_getPaddr (p_req pkt)) (\<lambda>paddr.
     bindR (if \<not> Packet_isWrite pkt \<and> miss then Inr None
            else bindR (Packet_getAddr pkt) (\<lambda>a.
                 bindR (Packet_getConstPtr pkt) (\<lambda>q.
                 bindR (load_bytes h (ptr_add q (unat (paddr - a))) (unat sz)) (\<lambda>bs. Inr (Some bs))))) (\<lambda>d.
       Inr \<lparr>pi_address = addr, pi_pc = pc, pi_requestorId = Request_requestorId (p_req pkt),
            pi_validPC = Request_hasPC (p_req pkt), pi_secure = sec, pi_size = sz,
            pi_write = Packet_isWrite pkt, pi_paddress = paddr, pi_cacheMiss = miss, pi_data = d\<rparr>)))))"

definition PrefetchInfo_at :: "PrefetchInfo \<Rightarrow> Addr \<Rightarrow> PrefetchInfo" where
  "PrefetchInfo_at pfi addr = pfi\<lparr>pi_address := addr, pi_data := None\<rparr>"

record PfDeferredPacket =
  pd_pfInfo :: PrefetchInfo
  pd_tick :: Tick
  pd_pkt :: "Packet option"
  pd_priority :: int
  pd_translationRequest :: "Request option"
  pd_ongoingTranslation :: bool

definition PfDeferredPacket_new :: "PrefetchInfo \<Rightarrow> Tick \<Rightarrow> int \<Rightarrow> PfDeferredPacket" where
  "PfDeferredPacket_new pfi t prio =
     \<lparr>pd_pfInfo = pfi, pd_tick = t, pd_pkt = None, pd_priority = prio, pd_translationRequest = None,
      pd_ongoingTranslation = False\<rparr>"

definition dp_gt :: "PfDeferredPacket \<Rightarrow> PfDeferredPacket \<Rightarrow> bool" where
  "dp_gt d that \<longleftrightarrow> pd_priority d > pd_priority that"

definition dp_lt :: "PfDeferredPacket \<Rightarrow> PfDeferredPacket \<Rightarrow> bool" where
  "dp_lt d that \<longleftrightarrow> pd_priority d < pd_priority that"

definition dp_le :: "PfDeferredPacket \<Rightarrow> PfDeferredPacket \<Rightarrow> bool" where
  "dp_le d that \<longleftrightarrow> \<not> dp_gt d that"

definition setTranslationRequest :: "Request \<Rightarrow> PfDeferredPacket \<Rightarrow> PfDeferredPacket" where
  "setTranslationRequest req d = d\<lparr>pd_translationRequest := Some req\<rparr>"

text \<open>The uninitialised words of a new packet, its address as an object, and the bytes of new buffers.\<close>

type_synonym pkt_junk = "(u32 \<times> u32) \<times> u64 \<times> (nat \<Rightarrow> u8)"

definition PrefetcherTask :: u32 where
  "PrefetcherTask = 1022"

definition createPkt :: "pkt_junk \<Rightarrow> Addr \<Rightarrow> u32 \<Rightarrow> RequestorID \<Rightarrow> bool \<Rightarrow> Tick \<Rightarrow> heap \<Rightarrow> PfDeferredPacket \<Rightarrow>
    (heap \<times> PfDeferredPacket) result" where
  "createPkt junk paddr blk_size requestor_id tag_prefetch t h d =
     (let req = Request_new paddr blk_size 0 requestor_id
      in bindR (if pi_secure (pd_pfInfo d) then Request_setFlags SECURE req else Inr req) (\<lambda>req.
         let req = Request_setTaskId PrefetcherTask req
         in bindR (Packet_new (fst junk) (fst (snd junk)) req HardPFReq) (\<lambda>pkt.
            bindR (Packet_allocate (snd (snd junk)) h pkt) (\<lambda>(h, pkt).
            bindR (if tag_prefetch \<and> pi_validPC (pd_pfInfo d) then
                     bindR (PrefetchInfo_getPC (pd_pfInfo d)) (\<lambda>pc.
                       Inr (pkt\<lparr>p_req := Request_setPC pc (p_req pkt)\<rparr>))
                   else Inr pkt) (\<lambda>pkt.
              Inr (h, d\<lparr>pd_pkt := Some pkt, pd_tick := t\<rparr>))))))"

record PrefetcherParams =
  pp_block_size :: u32
  pp_on_data :: bool
  pp_on_inst :: bool
  pp_on_miss :: bool
  pp_on_read :: bool
  pp_on_write :: bool
  pp_page_bytes :: u64
  pp_prefetch_on_access :: bool
  pp_prefetch_on_pf_hit :: bool
  pp_use_virtual_addresses :: bool
  pp_cache_snoop :: bool
  pp_latency :: Cycles
  pp_max_missing :: u32
  pp_queue_filter :: bool
  pp_queue_size :: u32
  pp_queue_squash :: bool
  pp_tag_prefetch :: bool
  pp_throttle_control_percentage :: u32
  pp_degree :: int

record Queued =
  pf_probeManager :: bool
  pf_blkSize :: u32
  pf_lBlkSize :: nat
  pf_onMiss :: bool
  pf_onRead :: bool
  pf_onWrite :: bool
  pf_onData :: bool
  pf_onInst :: bool
  pf_requestorId :: RequestorID
  pf_pageBytes :: Addr
  pf_prefetchOnAccess :: bool
  pf_prefetchOnPfHit :: bool
  pf_useVirtualAddresses :: bool
  pf_issuedPrefetches :: u64
  pf_usefulPrefetches :: u64
  pf_pfq :: "PfDeferredPacket list"
  pf_pfqMissingTranslation :: "PfDeferredPacket list"
  pf_queueSize :: u32
  pf_missingTranslationQueueSize :: u32
  pf_latency :: Cycles
  pf_queueSquash :: bool
  pf_queueFilter :: bool
  pf_cacheSnoop :: bool
  pf_tagPrefetch :: bool
  pf_throttleControlPct :: u32
  pf_degree :: int

definition Tagged_new :: "PrefetcherParams \<Rightarrow> Queued result" where
  "Tagged_new p =
     bindR (floorLog2 4 (uint (pp_block_size p))) (\<lambda>l.
       Inr \<lparr>pf_probeManager = False, pf_blkSize = pp_block_size p, pf_lBlkSize = l,
            pf_onMiss = pp_on_miss p, pf_onRead = pp_on_read p, pf_onWrite = pp_on_write p,
            pf_onData = pp_on_data p, pf_onInst = pp_on_inst p, pf_requestorId = 0,
            pf_pageBytes = pp_page_bytes p, pf_prefetchOnAccess = pp_prefetch_on_access p,
            pf_prefetchOnPfHit = pp_prefetch_on_pf_hit p,
            pf_useVirtualAddresses = pp_use_virtual_addresses p,
            pf_issuedPrefetches = 0, pf_usefulPrefetches = 0, pf_pfq = [], pf_pfqMissingTranslation = [],
            pf_queueSize = pp_queue_size p, pf_missingTranslationQueueSize = pp_max_missing p,
            pf_latency = pp_latency p, pf_queueSquash = pp_queue_squash p,
            pf_queueFilter = pp_queue_filter p, pf_cacheSnoop = pp_cache_snoop p,
            pf_tagPrefetch = pp_tag_prefetch p,
            pf_throttleControlPct = pp_throttle_control_percentage p, pf_degree = pp_degree p\<rparr>)"

text \<open>
  The assertion \<open>!system && !probeManager\<close> of \<open>setParentInfo\<close> names no member: \<open>system\<close> is the function
  of the C library, whose address is not null.
\<close>

definition setParentInfo :: "u32 \<Rightarrow> Queued \<Rightarrow> Queued result" where
  "setParentInfo blk_size p =
     (let system = True
      in check ''!system && !probeManager'' (\<not> system \<and> \<not> pf_probeManager p)
           (bindR (floorLog2 4 (uint blk_size)) (\<lambda>l.
              Inr (p\<lparr>pf_probeManager := True, pf_blkSize := blk_size, pf_lBlkSize := l\<rparr>))))"

definition observeAccess :: "Packet \<Rightarrow> bool \<Rightarrow> bool \<Rightarrow> Queued \<Rightarrow> bool" where
  "observeAccess pkt miss prefetched p =
     (let fetch = Request_isInstFetch (p_req pkt); read = Packet_isRead pkt; inv = Packet_isInvalidate pkt
      in if \<not> miss \<and> pf_prefetchOnPfHit p then prefetched
         else if \<not> miss \<and> \<not> pf_prefetchOnAccess p then False
         else if Request_isUncacheable (p_req pkt) then False
         else if fetch \<and> \<not> pf_onInst p then False
         else if \<not> fetch \<and> \<not> pf_onData p then False
         else if \<not> fetch \<and> read \<and> \<not> pf_onRead p then False
         else if \<not> fetch \<and> \<not> read \<and> \<not> pf_onWrite p then False
         else if \<not> fetch \<and> \<not> read \<and> inv then False
         else if p_cmd pkt = CleanEvict then False
         else if pf_onMiss p then miss
         else True)"

definition samePage :: "Addr \<Rightarrow> Addr \<Rightarrow> Queued \<Rightarrow> bool result" where
  "samePage a b p =
     bindR (roundDown a (pf_pageBytes p)) (\<lambda>x. bindR (roundDown b (pf_pageBytes p)) (\<lambda>y. Inr (x = y)))"

definition blockAddress :: "Addr \<Rightarrow> Queued \<Rightarrow> Addr" where
  "blockAddress a p = a AND NOT (ucast (pf_blkSize p) - 1)"

definition blockIndex :: "Addr \<Rightarrow> Queued \<Rightarrow> Addr" where
  "blockIndex a p = drop_bit (pf_lBlkSize p) a"

definition pageAddress :: "Addr \<Rightarrow> Queued \<Rightarrow> Addr result" where
  "pageAddress a p = roundDown a (pf_pageBytes p)"

definition pageOffset :: "Addr \<Rightarrow> Queued \<Rightarrow> Addr" where
  "pageOffset a p = a AND (pf_pageBytes p - 1)"

definition pageIthBlockAddress :: "Addr \<Rightarrow> u32 \<Rightarrow> Queued \<Rightarrow> Addr result" where
  "pageIthBlockAddress page i p =
     defined ''blockIndex << lBlkSize'' (pf_lBlkSize p < 32) (Inr (page + ucast (push_bit (pf_lBlkSize p) i)))"

fun calculatePrefetch_loop :: "Addr \<Rightarrow> u32 \<Rightarrow> nat \<Rightarrow> nat \<Rightarrow> (Addr \<times> int) list" where
  "calculatePrefetch_loop blkAddr blkSize d 0 = []"
| "calculatePrefetch_loop blkAddr blkSize d (Suc n) =
     (blkAddr + ucast (of_nat d * blkSize), 0) # calculatePrefetch_loop blkAddr blkSize (Suc d) n"

definition calculatePrefetch :: "PrefetchInfo \<Rightarrow> Queued \<Rightarrow> (Addr \<times> int) list" where
  "calculatePrefetch pfi p =
     calculatePrefetch_loop (blockAddress (pi_address pfi) p) (pf_blkSize p) 1 (nat (pf_degree p))"

definition getMaxPermittedPrefetches :: "u64 \<Rightarrow> Queued \<Rightarrow> u64" where
  "getMaxPermittedPrefetches tot p =
     (if tot > 0 \<and> pf_issuedPrefetches p > 0 then
        let throttle_pfs = (tot * ucast (pf_throttleControlPct p)) div 100;
            min_pfs = (if tot - throttle_pfs = 0 then 1 else tot - throttle_pfs)
        in min_pfs + (tot - min_pfs) * pf_usefulPrefetches p div pf_issuedPrefetches p
      else tot)"

definition delete_pkt :: "Packet option \<Rightarrow> heap \<Rightarrow> heap result" where
  "delete_pkt pkt h =
     (case pkt of None \<Rightarrow> Inr h | Some p \<Rightarrow> bindR (Packet_deleteData h p) (\<lambda>(h, _). Inr h))"

text \<open>The victim of a full queue: from the end back over the packets of the same priority.\<close>

fun victim_loop :: "PfDeferredPacket list \<Rightarrow> nat \<Rightarrow> nat \<Rightarrow> nat" where
  "victim_loop queue it 0 = it"
| "victim_loop queue it (Suc prev) =
     (if pd_priority (queue ! prev) = pd_priority (queue ! it) then victim_loop queue prev prev else it)"

text \<open>The position before which a packet is inserted: the loop \<open>do --it; while (it != begin && dpp > *it)\<close>.\<close>

fun position_loop :: "PfDeferredPacket list \<Rightarrow> PfDeferredPacket \<Rightarrow> nat \<Rightarrow> nat" where
  "position_loop queue dpp 0 = 0"
| "position_loop queue dpp (Suc it) =
     (if it \<noteq> 0 \<and> dp_gt dpp (queue ! it) then position_loop queue dpp it else it)"

definition addToQueue :: "u32 \<Rightarrow> PfDeferredPacket \<Rightarrow> heap \<Rightarrow> PfDeferredPacket list \<Rightarrow>
    (heap \<times> PfDeferredPacket list) result" where
  "addToQueue queueSize dpp h queue =
     bindR (if length queue = unat queueSize then
              defined ''--queue.end()'' (queue \<noteq> [])
                (let it = victim_loop queue (length queue - 1) (length queue - 1)
                 in bindR (delete_pkt (pd_pkt (queue ! it)) h) (\<lambda>h.
                      Inr (h, take it queue @ drop (Suc it) queue)))
            else Inr (h, queue)) (\<lambda>(h, queue).
       if length queue = 0 \<or> dp_le dpp (last queue) then Inr (h, queue @ [dpp])
       else
         let it = position_loop queue dpp (length queue);
             it = (if it = 0 \<and> dp_le dpp (queue ! it) then Suc it else it)
         in Inr (h, take it queue @ dpp # drop it queue))"

definition swap_at :: "nat \<Rightarrow> nat \<Rightarrow> 'a list \<Rightarrow> 'a list" where
  "swap_at i j xs = xs[i := xs ! j, j := xs ! i]"

fun bubble_loop :: "PfDeferredPacket list \<Rightarrow> nat \<Rightarrow> nat \<Rightarrow> PfDeferredPacket list" where
  "bubble_loop queue it 0 = queue"
| "bubble_loop queue it (Suc prev) =
     (if dp_gt (queue ! it) (queue ! prev) then bubble_loop (swap_at it prev queue) prev prev
      else bubble_loop queue it prev)"

text \<open>The iterator has been advanced past the packet found when the loop ends.\<close>

fun alreadyInQueue_loop :: "PrefetchInfo \<Rightarrow> PfDeferredPacket list \<Rightarrow> nat \<Rightarrow> bool \<times> nat" where
  "alreadyInQueue_loop pfi [] it = (False, it)"
| "alreadyInQueue_loop pfi (d # ds) it =
     (if sameAddr pfi (pd_pfInfo d) then (True, Suc it) else alreadyInQueue_loop pfi ds (Suc it))"

definition alreadyInQueue :: "PrefetchInfo \<Rightarrow> int \<Rightarrow> PfDeferredPacket list \<Rightarrow> bool \<times> PfDeferredPacket list" where
  "alreadyInQueue pfi priority queue =
     (case alreadyInQueue_loop pfi queue 0 of (found, it) \<Rightarrow>
        (found,
         if it \<noteq> length queue \<and> pd_priority (queue ! it) < priority
         then bubble_loop (queue[it := (queue ! it)\<lparr>pd_priority := priority\<rparr>]) it it
         else queue))"

definition createPrefetchRequest :: "Addr \<Rightarrow> PrefetchInfo \<Rightarrow> Packet \<Rightarrow> Queued \<Rightarrow> Request result" where
  "createPrefetchRequest addr pfi pkt p =
     bindR (Request_getFlags (p_req pkt)) (\<lambda>flags.
     bindR (PrefetchInfo_getPC pfi) (\<lambda>pc.
     bindR (Request_contextId (p_req pkt)) (\<lambda>cid.
       Request_setFlags PREFETCH (Request_new_virt addr (pf_blkSize p) flags (pf_requestorId p) pc cid))))"

text \<open>Where a prefetch goes: to a physical address, to a translation, or nowhere.\<close>

datatype pf_target = Target_pa Addr | Translate Request | Drop

definition prefetch_target :: "Packet \<Rightarrow> PrefetchInfo \<Rightarrow> Queued \<Rightarrow> pf_target result" where
  "prefetch_target pkt new_pfi p =
     bindR (if pf_useVirtualAddresses p then Request_getVaddr (p_req pkt) else Request_getPaddr (p_req pkt)) (\<lambda>orig_addr.
       let positive_stride = (pi_address new_pfi \<ge> orig_addr);
           stride = (if positive_stride then pi_address new_pfi - orig_addr else orig_addr - pi_address new_pfi)
       in bindR (samePage orig_addr (pi_address new_pfi) p) (\<lambda>same.
            if same then
              if pf_useVirtualAddresses p then
                bindR (Request_getPaddr (p_req pkt)) (\<lambda>pa.
                  Inr (Target_pa (if positive_stride then pa + stride else pa - stride)))
              else Inr (Target_pa (pi_address new_pfi))
            else if \<not> Request_hasContextId (p_req pkt) then Inr Drop
            else if pf_useVirtualAddresses p then
              bindR (createPrefetchRequest (pi_address new_pfi) new_pfi pkt p) (\<lambda>r. Inr (Translate r))
            else if Request_hasVaddr (p_req pkt) then
              bindR (Request_getVaddr (p_req pkt)) (\<lambda>va.
              bindR (createPrefetchRequest (if positive_stride then va + stride else va - stride) new_pfi pkt p) (\<lambda>r.
                Inr (Translate r)))
            else Inr Drop))"

definition snooped :: "CacheAccessor \<Rightarrow> Addr \<Rightarrow> bool \<Rightarrow> Queued \<Rightarrow> bool result" where
  "snooped cache a sec p =
     (if pf_cacheSnoop p then
        bindR (ca_inCache cache a sec) (\<lambda>b. if b then Inr True else ca_inMissQueue cache a sec)
      else Inr False)"

definition insert_target :: "pkt_junk \<Rightarrow> CacheAccessor \<Rightarrow> Packet \<Rightarrow> PrefetchInfo \<Rightarrow> int \<Rightarrow> heap \<Rightarrow> Queued \<Rightarrow>
    (heap \<times> Queued) result" where
  "insert_target junk cache pkt new_pfi priority h p =
     bindR (prefetch_target pkt new_pfi p) (\<lambda>t.
       let dpp = PfDeferredPacket_new new_pfi 0 priority
       in case t of
            Drop \<Rightarrow> Inr (h, p)
          | Target_pa a \<Rightarrow>
              bindR (snooped cache a (pi_secure new_pfi) p) (\<lambda>s.
                if s then Inr (h, p)
                else bindR (createPkt junk a (pf_blkSize p) (pf_requestorId p) (pf_tagPrefetch p) 0 h dpp) (\<lambda>(h, dpp).
                     bindR (addToQueue (pf_queueSize p) dpp h (pf_pfq p)) (\<lambda>(h, q). Inr (h, p\<lparr>pf_pfq := q\<rparr>))))
          | Translate r \<Rightarrow>
              bindR (addToQueue (pf_queueSize p) (setTranslationRequest r dpp) h (pf_pfqMissingTranslation p)) (\<lambda>(h, q).
                Inr (h, p\<lparr>pf_pfqMissingTranslation := q\<rparr>)))"

definition Queued_insert :: "pkt_junk \<Rightarrow> CacheAccessor \<Rightarrow> Packet \<Rightarrow> PrefetchInfo \<Rightarrow> int \<Rightarrow> heap \<Rightarrow> Queued \<Rightarrow>
    (heap \<times> Queued) result" where
  "Queued_insert junk cache pkt new_pfi priority h p =
     (if pf_queueFilter p then
        case alreadyInQueue new_pfi priority (pf_pfq p) of (found, q) \<Rightarrow>
          let p = p\<lparr>pf_pfq := q\<rparr>
          in if found then Inr (h, p)
             else case alreadyInQueue new_pfi priority (pf_pfqMissingTranslation p) of (found, q) \<Rightarrow>
               let p = p\<lparr>pf_pfqMissingTranslation := q\<rparr>
               in if found then Inr (h, p) else insert_target junk cache pkt new_pfi priority h p
      else insert_target junk cache pkt new_pfi priority h p)"

fun squash_loop :: "Addr \<Rightarrow> bool \<Rightarrow> heap \<Rightarrow> PfDeferredPacket list \<Rightarrow> (heap \<times> PfDeferredPacket list) result" where
  "squash_loop blk_addr is_secure h [] = Inr (h, [])"
| "squash_loop blk_addr is_secure h (d # ds) =
     (if pi_address (pd_pfInfo d) = blk_addr \<and> pi_secure (pd_pfInfo d) = is_secure then
        bindR (delete_pkt (pd_pkt d) h) (\<lambda>h. squash_loop blk_addr is_secure h ds)
      else bindR (squash_loop blk_addr is_secure h ds) (\<lambda>(h, ds). Inr (h, d # ds)))"

fun notify_loop :: "pkt_junk \<Rightarrow> CacheAccessor \<Rightarrow> Packet \<Rightarrow> PrefetchInfo \<Rightarrow> u64 \<Rightarrow> u64 \<Rightarrow> (Addr \<times> int) list \<Rightarrow>
    heap \<Rightarrow> Queued \<Rightarrow> (heap \<times> Queued) result" where
  "notify_loop junk cache pkt pfi max_pfs num_pfs [] h p = Inr (h, p)"
| "notify_loop junk cache pkt pfi max_pfs num_pfs ((a, prio) # as) h p =
     (let a = blockAddress a p
      in bindR (samePage a (pi_address pfi) p) (\<lambda>same.
         bindR (if same then Inr False
                else bindR (Packet_getAddr pkt) (\<lambda>x. bindR (Packet_isSecure pkt) (\<lambda>s. ca_hasBeenPrefetched cache x s))) (\<lambda>_.
         if same then
           bindR (Queued_insert junk cache pkt (PrefetchInfo_at pfi a) prio h p) (\<lambda>(h, p).
             if num_pfs + 1 = max_pfs then Inr (h, p)
             else notify_loop junk cache pkt pfi max_pfs (num_pfs + 1) as h p)
         else notify_loop junk cache pkt pfi max_pfs num_pfs as h p)))"

definition Queued_notify :: "pkt_junk \<Rightarrow> CacheAccessor \<Rightarrow> Packet \<Rightarrow> PrefetchInfo \<Rightarrow> heap \<Rightarrow> Queued \<Rightarrow>
    (heap \<times> Queued) result" where
  "Queued_notify junk cache pkt pfi h p =
     bindR (if pf_queueSquash p
            then squash_loop (blockAddress (pi_address pfi) p) (pi_secure pfi) h (pf_pfq p)
            else Inr (h, pf_pfq p)) (\<lambda>(h, q).
       let p = p\<lparr>pf_pfq := q\<rparr>;
           addresses = calculatePrefetch pfi p
       in notify_loop junk cache pkt pfi (getMaxPermittedPrefetches (of_nat (length addresses)) p) 0 addresses h p)"

text \<open>\<open>processMissingTranslations\<close> only counts: the call that starts a translation is commented out.\<close>

definition processMissingTranslations :: "u32 \<Rightarrow> Queued \<Rightarrow> Queued" where
  "processMissingTranslations mx p = p"

definition Queued_getPacket :: "Queued \<Rightarrow> (Packet option \<times> Queued) result" where
  "Queued_getPacket p =
     (let p = (if pf_pfq p = [] then processMissingTranslations (pf_queueSize p) p else p)
      in case pf_pfq p of
           [] \<Rightarrow> Inr (None, p)
         | d # ds \<Rightarrow>
             let p = p\<lparr>pf_pfq := ds, pf_issuedPrefetches := pf_issuedPrefetches p + 1\<rparr>
             in check ''pkt != nullptr'' (pd_pkt d \<noteq> None)
                  (Inr (pd_pkt d, processMissingTranslations (pf_queueSize p - of_nat (length (pf_pfq p))) p)))"

definition nextPrefetchReadyTime :: "Queued \<Rightarrow> Tick" where
  "nextPrefetchReadyTime p = (case pf_pfq p of [] \<Rightarrow> MaxTick | d # _ \<Rightarrow> pd_tick d)"

definition translationComplete :: "pkt_junk \<Rightarrow> CacheAccessor \<Rightarrow> nat \<Rightarrow> bool \<Rightarrow> heap \<Rightarrow> Queued \<Rightarrow>
    (heap \<times> Queued) result" where
  "translationComplete junk cache i failed h p =
     check ''it != pfqMissingTranslation.end()'' (i < length (pf_pfqMissingTranslation p))
       (let d = pf_pfqMissingTranslation p ! i;
            erase = (\<lambda>p. p\<lparr>pf_pfqMissingTranslation :=
                       take i (pf_pfqMissingTranslation p) @ drop (Suc i) (pf_pfqMissingTranslation p)\<rparr>)
        in if \<not> failed then
             (case pd_translationRequest d of
                None \<Rightarrow> Inl (Undef ''it->translationRequest'')
              | Some r \<Rightarrow>
                  bindR (Request_getPaddr r) (\<lambda>target_paddr.
                  bindR (snooped cache target_paddr (pi_secure (pd_pfInfo d)) p) (\<lambda>s.
                    if s then Inr (h, erase p)
                    else bindR (createPkt junk target_paddr (pf_blkSize p) (pf_requestorId p) (pf_tagPrefetch p) 0 h d) (\<lambda>(h, d).
                         bindR (addToQueue (pf_queueSize p) d h (pf_pfq p)) (\<lambda>(h, q). Inr (h, erase (p\<lparr>pf_pfq := q\<rparr>)))))))
           else Inr (h, erase p))"

definition probeNotify :: "pkt_junk \<Rightarrow> CacheAccessor \<Rightarrow> Packet \<Rightarrow> bool \<Rightarrow> heap \<Rightarrow> Queued \<Rightarrow> (heap \<times> Queued) result" where
  "probeNotify junk cache pkt miss h p =
     (if MemCmd_isSWPrefetch (p_cmd pkt) then Inr (h, p)
      else if Request_isCacheMaintenance (p_req pkt) then Inr (h, p)
      else if Packet_isWrite pkt \<and> ca_coalesce cache then Inr (h, p)
      else check ''Request must have a physical address'' (Request_hasPaddr (p_req pkt))
        (bindR (Packet_getAddr pkt) (\<lambda>a. bindR (Packet_isSecure pkt) (\<lambda>s.
         bindR (ca_hasBeenPrefetched_by cache a s (pf_requestorId p)) (\<lambda>has_been_prefetched.
           let p = (if has_been_prefetched then p\<lparr>pf_usefulPrefetches := pf_usefulPrefetches p + 1\<rparr> else p)
           in if observeAccess pkt miss has_been_prefetched p then
                if pf_useVirtualAddresses p \<and> Request_hasVaddr (p_req pkt) then
                  bindR (Request_getVaddr (p_req pkt)) (\<lambda>va.
                  bindR (PrefetchInfo_new h pkt va miss) (\<lambda>pfi. Queued_notify junk cache pkt pfi h p))
                else if \<not> pf_useVirtualAddresses p then
                  bindR (Request_getPaddr (p_req pkt)) (\<lambda>pa.
                  bindR (PrefetchInfo_new h pkt pa miss) (\<lambda>pfi. Queued_notify junk cache pkt pfi h p))
                else Inr (h, p)
              else Inr (h, p))))))"

section \<open>The queue\<close>

lemma victim_loop_equal:
  "(\<And>d. d \<in> set queue \<Longrightarrow> pd_priority d = c) \<Longrightarrow> it < length queue \<Longrightarrow> n \<le> it \<Longrightarrow>
   victim_loop queue it n = (if n = 0 then it else 0)"
proof (induction n arbitrary: it)
  case (Suc n)
  then have "pd_priority (queue ! n) = c" "pd_priority (queue ! it) = c" by simp_all
  with Suc show ?case by simp
qed simp

lemma addToQueue_equal:
  assumes "\<And>d. d \<in> set queue \<Longrightarrow> pd_priority d = pd_priority dpp" "0 < unat queueSize"
    and "length queue \<le> unat queueSize"
    and "length queue = unat queueSize \<Longrightarrow> delete_pkt (pd_pkt (hd queue)) h = Inr h'"
    and "length queue < unat queueSize \<Longrightarrow> h' = h"
  shows "addToQueue queueSize dpp h queue =
    Inr (h', (if length queue = unat queueSize then tl queue else queue) @ [dpp])"
proof -
  have le: "q = [] \<or> dp_le dpp (last q)" if "set q \<subseteq> set queue" for q
  proof (cases "q = []")
    case False
    then have "pd_priority (last q) = pd_priority dpp" using assms(1) last_in_set [of q] that by blast
    then show ?thesis by (simp add: dp_le_def dp_gt_def)
  qed simp
  show ?thesis
  proof (cases "length queue = unat queueSize")
    case True
    then obtain d ds where q: "queue = d # ds" using assms(2) by (cases queue) auto
    have "victim_loop queue (length queue - 1) (length queue - 1) = 0"
      using victim_loop_equal [of queue "pd_priority dpp" "length queue - 1" "length queue - 1"] assms(1) q by simp
    with True q assms(4) le [of ds] show ?thesis by (auto simp: addToQueue_def Let_def)
  next
    case False
    with assms(3,5) le [of queue] show ?thesis by (auto simp: addToQueue_def)
  qed
qed

lemma swap_at_set: "i < length xs \<Longrightarrow> j < length xs \<Longrightarrow> set (swap_at i j xs) \<subseteq> set xs"
  by (auto simp: swap_at_def dest!: set_update_subset_insert [THEN subsetD])

lemma bubble_loop_set: "it < length queue \<Longrightarrow> n \<le> it \<Longrightarrow> set (bubble_loop queue it n) \<subseteq> set queue"
proof (induction n arbitrary: queue it)
  case (Suc n)
  show ?case
  proof (cases "dp_gt (queue ! it) (queue ! n)")
    case True
    have "set (bubble_loop (swap_at it n queue) n n) \<subseteq> set (swap_at it n queue)"
      using Suc.prems by (intro Suc.IH) (simp_all add: swap_at_def)
    also have "\<dots> \<subseteq> set queue" using Suc.prems by (intro swap_at_set) simp_all
    finally show ?thesis using True by simp
  next
    case False
    then show ?thesis using Suc.IH [of it queue] Suc.prems by simp
  qed
qed simp

definition pf_addrs :: "PfDeferredPacket list \<Rightarrow> Addr set" where
  "pf_addrs q = (\<lambda>d. pi_address (pd_pfInfo d)) ` set q"

lemma alreadyInQueue_loop_le: "snd (alreadyInQueue_loop pfi ds it) \<le> it + length ds"
  by (induction ds arbitrary: it) (auto, metis add_Suc_right add_Suc_shift snd_conv)

lemma alreadyInQueue_addrs:
  assumes "alreadyInQueue pfi prio queue = (b, q)"
  shows "pf_addrs q \<subseteq> pf_addrs queue"
proof -
  obtain f it where it: "alreadyInQueue_loop pfi queue 0 = (f, it)" by fastforce
  have le: "it \<le> length queue" using alreadyInQueue_loop_le [of pfi queue 0] it by simp
  show ?thesis
  proof (cases "it \<noteq> length queue \<and> pd_priority (queue ! it) < prio")
    case True
    let ?q = "queue[it := (queue ! it)\<lparr>pd_priority := prio\<rparr>]"
    have "q = bubble_loop ?q it it" using assms it True by (simp add: alreadyInQueue_def)
    then have "set q \<subseteq> set ?q" using bubble_loop_set [of it ?q it] True le by simp
    then have "pf_addrs q \<subseteq> pf_addrs ?q" by (auto simp: pf_addrs_def)
    also have "\<dots> \<subseteq> insert (pi_address (pd_pfInfo (queue ! it))) (pf_addrs queue)"
    proof
      fix a assume "a \<in> pf_addrs ?q"
      then obtain d where d: "d \<in> set ?q" "a = pi_address (pd_pfInfo d)" by (auto simp: pf_addrs_def)
      then have "d = (queue ! it)\<lparr>pd_priority := prio\<rparr> \<or> d \<in> set queue"
        using set_update_subset_insert [of queue it] by blast
      then show "a \<in> insert (pi_address (pd_pfInfo (queue ! it))) (pf_addrs queue)"
        using d(2) by (auto simp: pf_addrs_def)
    qed
    also have "\<dots> = pf_addrs queue" using True le by (auto simp: pf_addrs_def)
    finally show ?thesis .
  next
    case False
    then show ?thesis using assms it by (auto simp: alreadyInQueue_def)
  qed
qed

definition addToQueue_at :: "PfDeferredPacket \<Rightarrow> heap \<times> PfDeferredPacket list \<Rightarrow>
    (heap \<times> PfDeferredPacket list) result" where
  "addToQueue_at dpp = (\<lambda>(h, queue).
     if length queue = 0 \<or> dp_le dpp (last queue) then Inr (h, queue @ [dpp])
     else
       let it = position_loop queue dpp (length queue);
           it = (if it = 0 \<and> dp_le dpp (queue ! it) then Suc it else it)
       in Inr (h, take it queue @ dpp # drop it queue))"

lemma addToQueue_at_set:
  assumes "addToQueue_at dpp (h1, q1) = Inr (h', q)"
  shows "set q \<subseteq> insert dpp (set q1)"
proof -
  have "\<exists>i. q = take i q1 @ dpp # drop i q1"
  proof (cases "length q1 = 0 \<or> dp_le dpp (last q1)")
    case True
    with assms show ?thesis by (intro exI [of _ "length q1"]) (simp add: addToQueue_at_def)
  next
    case False
    with assms show ?thesis by (simp add: addToQueue_at_def Let_def del: length_0_conv) blast
  qed
  then show ?thesis by (auto dest: in_set_takeD in_set_dropD)
qed

lemma addToQueue_set:
  assumes "addToQueue n dpp h queue = Inr (h', q)"
  shows "set q \<subseteq> insert dpp (set queue)"
proof (cases "length queue = unat n")
  case True
  let ?it = "victim_loop queue (length queue - 1) (length queue - 1)"
  let ?q = "take ?it queue @ drop (Suc ?it) queue"
  have "queue \<noteq> []" using assms True by (auto simp: addToQueue_def)
  with assms True have e: "bindR (delete_pkt (pd_pkt (queue ! ?it)) h) (\<lambda>h. addToQueue_at dpp (h, ?q)) = Inr (h', q)"
    unfolding addToQueue_def addToQueue_at_def [symmetric]
    by (simp only: if_True Let_def defined_def bindR_assoc simp_thms bindR.simps)
  then obtain h1 where "addToQueue_at dpp (h1, ?q) = Inr (h', q)" by (simp only: bindR_Inr) blast
  from addToQueue_at_set [OF this] show ?thesis by (auto dest: in_set_takeD in_set_dropD)
next
  case False
  with assms have "addToQueue_at dpp (h, queue) = Inr (h', q)"
    by (simp only: addToQueue_def addToQueue_at_def [symmetric] if_False bindR.simps)
  from addToQueue_at_set [OF this] show ?thesis .
qed

lemma squash_loop_set:
  "squash_loop a s h ds = Inr (h', q) \<Longrightarrow> set q \<subseteq> set ds"
proof (induction ds arbitrary: h h' q)
  case (Cons d ds)
  show ?case
  proof (cases "pi_address (pd_pfInfo d) = a \<and> pi_secure (pd_pfInfo d) = s")
    case True
    then obtain h1 where "squash_loop a s h1 ds = Inr (h', q)" using Cons.prems by auto
    from Cons.IH [OF this] show ?thesis by auto
  next
    case False
    then obtain ds' where "squash_loop a s h ds = Inr (h', ds')" "q = d # ds'"
      using Cons.prems by (simp add: case_prod_beta) auto
    with Cons.IH show ?thesis by fastforce
  qed
qed simp

lemma createPkt_info: "createPkt junk a bs rid tag t h d = Inr (h', d') \<Longrightarrow> pd_pfInfo d' = pd_pfInfo d"
  by (auto simp: createPkt_def Let_def split: if_splits)

definition pf_config :: "Queued \<Rightarrow> u32 \<times> Addr" where
  "pf_config p = (pf_blkSize p, pf_pageBytes p)"

lemma samePage_config: "pf_config p' = pf_config p \<Longrightarrow> samePage a b p' = samePage a b p"
  by (simp add: pf_config_def samePage_def)

lemma blockAddress_config: "pf_config p' = pf_config p \<Longrightarrow> blockAddress a p' = blockAddress a p"
  by (simp add: pf_config_def blockAddress_def)

lemma insert_target_addrs:
  assumes "insert_target junk cache pkt pfi prio h p = Inr (h', p')"
  shows "pf_addrs (pf_pfq p') \<subseteq> insert (pi_address pfi) (pf_addrs (pf_pfq p)) \<and> pf_config p' = pf_config p"
proof -
  obtain t where t: "prefetch_target pkt pfi p = Inr t" using assms by (auto simp: insert_target_def)
  show ?thesis
  proof (cases t)
    case (Target_pa a)
    then obtain s where s: "snooped cache a (pi_secure pfi) p = Inr s"
      using assms t by (auto simp: insert_target_def Let_def)
    show ?thesis
    proof (cases s)
      case True
      with assms t Target_pa s show ?thesis by (auto simp: insert_target_def Let_def)
    next
      case False
      then obtain h1 d q where d: "createPkt junk a (pf_blkSize p) (pf_requestorId p) (pf_tagPrefetch p) 0 h
          (PfDeferredPacket_new pfi 0 prio) = Inr (h1, d)" "addToQueue (pf_queueSize p) d h1 (pf_pfq p) = Inr (h', q)"
        "p' = p\<lparr>pf_pfq := q\<rparr>"
        using assms t Target_pa s by (auto simp: insert_target_def Let_def)
      have "pd_pfInfo d = pfi" using createPkt_info [OF d(1)] by (simp add: PfDeferredPacket_new_def)
      with addToQueue_set [OF d(2)] d(3) show ?thesis by (auto simp: pf_addrs_def pf_config_def)
    qed
  next
    case (Translate r)
    with assms t show ?thesis by (auto simp: insert_target_def Let_def pf_config_def)
  next
    case Drop
    with assms t show ?thesis by (auto simp: insert_target_def Let_def)
  qed
qed

lemma Queued_insert_addrs:
  assumes "Queued_insert junk cache pkt pfi prio h p = Inr (h', p')"
  shows "pf_addrs (pf_pfq p') \<subseteq> insert (pi_address pfi) (pf_addrs (pf_pfq p)) \<and> pf_config p' = pf_config p"
proof (cases "pf_queueFilter p")
  case False
  then show ?thesis using assms insert_target_addrs by (simp add: Queued_insert_def)
next
  case True
  obtain f1 q1 where 1: "alreadyInQueue pfi prio (pf_pfq p) = (f1, q1)" by fastforce
  obtain f2 q2 where 2: "alreadyInQueue pfi prio (pf_pfqMissingTranslation p) = (f2, q2)" by fastforce
  let ?p = "p\<lparr>pf_pfq := q1, pf_pfqMissingTranslation := q2\<rparr>"
  have a: "pf_addrs q1 \<subseteq> pf_addrs (pf_pfq p)" by (rule alreadyInQueue_addrs [OF 1])
  show ?thesis
  proof (cases "f1 \<or> f2")
    case f: True
    then have "pf_pfq p' = q1" "pf_config p' = pf_config p"
      using assms 1 2 True by (auto simp: Queued_insert_def Let_def pf_config_def split: if_splits)
    with a show ?thesis by auto
  next
    case False
    then have "insert_target junk cache pkt pfi prio h ?p = Inr (h', p')"
      using assms 1 2 True by (simp add: Queued_insert_def Let_def)
    from insert_target_addrs [OF this] a show ?thesis by (auto simp: pf_config_def)
  qed
qed

lemma notify_loop_cons:
  assumes "notify_loop junk cache pkt pfi mx n ((b, prio) # as) h p = Inr (h', p')"
  shows "notify_loop junk cache pkt pfi mx n as h p = Inr (h', p') \<or>
    samePage (blockAddress b p) (pi_address pfi) p = Inr True \<and>
    (\<exists>h1 p1. Queued_insert junk cache pkt (PrefetchInfo_at pfi (blockAddress b p)) prio h p = Inr (h1, p1) \<and>
      ((h1, p1) = (h', p') \<or> notify_loop junk cache pkt pfi mx (n + 1) as h1 p1 = Inr (h', p')))"
proof -
  obtain same where same: "samePage (blockAddress b p) (pi_address pfi) p = Inr same"
    using assms by (cases "samePage (blockAddress b p) (pi_address pfi) p") (simp_all add: Let_def)
  show ?thesis
  proof (cases same)
    case False
    with assms same show ?thesis by (auto simp: Let_def)
  next
    case True
    let ?i = "Queued_insert junk cache pkt (PrefetchInfo_at pfi (blockAddress b p)) prio h p"
    have e: "bindR ?i (\<lambda>(h, p). if n + 1 = mx then Inr (h, p)
        else notify_loop junk cache pkt pfi mx (n + 1) as h p) = Inr (h', p')"
      using assms same True by (simp only: notify_loop.simps Let_def bindR.simps if_True)
    then obtain h1 p1 where i: "?i = Inr (h1, p1)" by (cases ?i) auto
    have "(h1, p1) = (h', p') \<or> notify_loop junk cache pkt pfi mx (n + 1) as h1 p1 = Inr (h', p')"
      using e by (simp only: i bindR.simps prod.case sum.inject split: if_splits) blast+
    then have "\<exists>h1 p1. ?i = Inr (h1, p1) \<and>
        ((h1, p1) = (h', p') \<or> notify_loop junk cache pkt pfi mx (n + 1) as h1 p1 = Inr (h', p'))"
      using i by (intro exI [of _ h1] exI [of _ p1]) simp
    with same True show ?thesis by simp
  qed
qed

lemma notify_loop_addrs:
  assumes "notify_loop junk cache pkt pfi mx n as h p = Inr (h', p')" "a \<in> pf_addrs (pf_pfq p')"
  shows "a \<in> pf_addrs (pf_pfq p) \<or> samePage a (pi_address pfi) p = Inr True \<and> blockAddress a p = a"
  using assms
proof (induction as arbitrary: n h p)
  case (Cons x as)
  obtain b prio where x: "x = (b, prio)" by fastforce
  let ?a = "blockAddress b p"
  have aa: "blockAddress ?a p = ?a" by (simp only: blockAddress_def and.assoc and.idem)
  have key: "a \<in> pf_addrs (pf_pfq p) \<or> samePage a (pi_address pfi) p = Inr True \<and> blockAddress a p = a"
    if "Queued_insert junk cache pkt (PrefetchInfo_at pfi ?a) prio h p = Inr (h1, p1)"
      "samePage ?a (pi_address pfi) p = Inr True" "a \<in> pf_addrs (pf_pfq p1)" for h1 p1
  proof -
    have "a \<in> insert (pi_address (PrefetchInfo_at pfi ?a)) (pf_addrs (pf_pfq p))"
      using Queued_insert_addrs [OF that(1)] that(3) by blast
    then have "a = ?a \<or> a \<in> pf_addrs (pf_pfq p)" by (simp add: PrefetchInfo_at_def)
    then show ?thesis using that(2) aa by (elim disjE) simp_all
  qed
  from notify_loop_cons [OF Cons.prems(1) [unfolded x]] show ?case
  proof (elim disjE conjE exE)
    assume "notify_loop junk cache pkt pfi mx n as h p = Inr (h', p')"
    from Cons.IH [OF this Cons.prems(2)] show ?thesis .
  next
    fix h1 p1
    assume same: "samePage ?a (pi_address pfi) p = Inr True"
      and i: "Queued_insert junk cache pkt (PrefetchInfo_at pfi ?a) prio h p = Inr (h1, p1)"
      and e: "(h1, p1) = (h', p')"
    have "a \<in> pf_addrs (pf_pfq p1)" using Cons.prems(2) e by simp
    from key [OF i same this] show ?thesis .
  next
    fix h1 p1
    assume same: "samePage ?a (pi_address pfi) p = Inr True"
      and i: "Queued_insert junk cache pkt (PrefetchInfo_at pfi ?a) prio h p = Inr (h1, p1)"
      and n: "notify_loop junk cache pkt pfi mx (n + 1) as h1 p1 = Inr (h', p')"
    from Cons.IH [OF n Cons.prems(2)] show ?thesis
    proof
      assume "a \<in> pf_addrs (pf_pfq p1)"
      from key [OF i same this] show ?thesis .
    next
      assume "samePage a (pi_address pfi) p1 = Inr True \<and> blockAddress a p1 = a"
      moreover have c: "pf_config p1 = pf_config p" using Queued_insert_addrs [OF i] ..
      ultimately show ?thesis by (simp only: samePage_config [OF c] blockAddress_config [OF c] simp_thms)
    qed
  qed
qed simp

section \<open>Properties\<close>

text \<open>
  C21: the prefetch queue of the tagged prefetcher, all of whose prefetches have the same priority,
  is a bounded queue: a prefetch is appended at the end, and when the queue is full the oldest one is
  dropped and its packet released, so the queue never exceeds its size.
\<close>

theorem prefetch_queue_fifo:
  assumes "\<forall>d \<in> set queue. pd_priority d = pd_priority dpp" "0 < unat queueSize"
    and "length queue \<le> unat queueSize"
    and "length queue = unat queueSize \<Longrightarrow> delete_pkt (pd_pkt (hd queue)) h = Inr h'"
    and "length queue < unat queueSize \<Longrightarrow> h' = h"
  shows "\<exists>q. addToQueue queueSize dpp h queue = Inr (h', q) \<and> length q \<le> unat queueSize \<and>
    q = (if length queue = unat queueSize then tl queue else queue) @ [dpp] \<and>
    (\<forall>d \<in> set q. pd_priority d = pd_priority dpp)"
proof -
  have "addToQueue queueSize dpp h queue =
    Inr (h', (if length queue = unat queueSize then tl queue else queue) @ [dpp])"
    using assms(1) by (intro addToQueue_equal [OF _ assms(2-5)]) auto
  then show ?thesis using assms(1-3) list.set_sel(2) [of queue] by (cases queue) auto
qed

theorem prefetch_queue_fifo_witness:
  "\<exists>q pfi. addToQueue 2 (PfDeferredPacket_new pfi 3 0) [] [PfDeferredPacket_new pfi 1 0, PfDeferredPacket_new pfi 2 0] =
     Inr ([], q) \<and> map pd_tick q = [2, 3]"
proof -
  let ?pfi = "\<lparr>pi_address = 0, pi_pc = 0, pi_requestorId = 0, pi_validPC = False, pi_secure = False, pi_size = 8,
    pi_write = False, pi_paddress = 0, pi_cacheMiss = True, pi_data = None\<rparr>"
  have p: "pd_priority (PfDeferredPacket_new ?pfi t 0) = 0" "pd_pkt (PfDeferredPacket_new ?pfi t 0) = None"
    "pd_tick (PfDeferredPacket_new ?pfi t 0) = t" for t
    by (simp_all add: PfDeferredPacket_new_def)
  show ?thesis
    using prefetch_queue_fifo [of "[PfDeferredPacket_new ?pfi 1 0, PfDeferredPacket_new ?pfi 2 0]"
        "PfDeferredPacket_new ?pfi 3 0" 2 "[]" "[]"] p
    by (intro exI [of _ "[PfDeferredPacket_new ?pfi 2 0, PfDeferredPacket_new ?pfi 3 0]"] exI [of _ ?pfi])
      (simp add: delete_pkt_def)
qed

text \<open>
  C20: a prefetcher never leaves the page of the access that triggered it: after an access every
  queued prefetch was queued before, or its address is a block address on the same page.
\<close>

theorem prefetch_stays_on_page:
  assumes "Queued_notify junk cache pkt pfi h p = Inr (h', p')" "d \<in> set (pf_pfq p')"
  shows "(\<exists>d0 \<in> set (pf_pfq p). pi_address (pd_pfInfo d0) = pi_address (pd_pfInfo d)) \<or>
    samePage (pi_address (pd_pfInfo d)) (pi_address pfi) p = Inr True \<and>
    blockAddress (pi_address (pd_pfInfo d)) p = pi_address (pd_pfInfo d)"
proof -
  obtain h1 q where q: "set q \<subseteq> set (pf_pfq p)"
    "notify_loop junk cache pkt pfi (getMaxPermittedPrefetches (of_nat (length (calculatePrefetch pfi (p\<lparr>pf_pfq := q\<rparr>))))
       (p\<lparr>pf_pfq := q\<rparr>)) 0 (calculatePrefetch pfi (p\<lparr>pf_pfq := q\<rparr>)) h1 (p\<lparr>pf_pfq := q\<rparr>) = Inr (h', p')"
  proof (cases "pf_queueSquash p")
    case True
    then obtain h1 q where "squash_loop (blockAddress (pi_address pfi) p) (pi_secure pfi) h (pf_pfq p) = Inr (h1, q)"
      using assms(1) by (cases "squash_loop (blockAddress (pi_address pfi) p) (pi_secure pfi) h (pf_pfq p)")
        (auto simp: Queued_notify_def)
    with assms(1) True squash_loop_set [OF this] show ?thesis
      by (intro that [of q h1]) (simp_all add: Queued_notify_def Let_def)
  next
    case False
    with assms(1) show ?thesis by (intro that [of "pf_pfq p" h]) (simp_all add: Queued_notify_def Let_def)
  qed
  have "pi_address (pd_pfInfo d) \<in> pf_addrs (pf_pfq p')" using assms(2) by (auto simp: pf_addrs_def)
  from notify_loop_addrs [OF q(2) this] q(1) show ?thesis
    by (auto simp: pf_addrs_def samePage_def blockAddress_def)
qed

definition sample_queued :: Queued where
  "sample_queued = \<lparr>pf_probeManager = False, pf_blkSize = 64, pf_lBlkSize = 6,
     pf_onMiss = False, pf_onRead = True, pf_onWrite = True, pf_onData = True, pf_onInst = True,
     pf_requestorId = 0, pf_pageBytes = 4096, pf_prefetchOnAccess = True, pf_prefetchOnPfHit = False,
     pf_useVirtualAddresses = False, pf_issuedPrefetches = 0, pf_usefulPrefetches = 0, pf_pfq = [],
     pf_pfqMissingTranslation = [], pf_queueSize = 4, pf_missingTranslationQueueSize = 4, pf_latency = 1,
     pf_queueSquash = True, pf_queueFilter = True, pf_cacheSnoop = False, pf_tagPrefetch = True,
     pf_throttleControlPct = 0, pf_degree = 2\<rparr>"

definition sample_pfi :: PrefetchInfo where
  "sample_pfi = \<lparr>pi_address = 0xF88, pi_pc = 0, pi_requestorId = 1, pi_validPC = False, pi_secure = False,
     pi_size = 8, pi_write = False, pi_paddress = 0xF88, pi_cacheMiss = True, pi_data = None\<rparr>"

definition sample_accessor :: CacheAccessor where
  "sample_accessor = \<lparr>ca_inCache = (\<lambda>_ _. Inr False), ca_hasBeenPrefetched = (\<lambda>_ _. Inr False),
     ca_hasBeenPrefetched_by = (\<lambda>_ _ _. Inr False), ca_inMissQueue = (\<lambda>_ _. Inr False), ca_coalesce = False\<rparr>"

theorem prefetch_stays_on_page_witness:
  "\<exists>h' p' d. Queued_notify ((0, 0), 0, \<lambda>_. 0) sample_accessor (sample_packet ReadReq (Request_new 0xF88 8 0 1))
      sample_pfi [] sample_queued = Inr (h', p') \<and> pf_pfq p' = [d] \<and> pi_address (pd_pfInfo d) = 0xFC0 \<and>
    samePage (pi_address (pd_pfInfo d)) (pi_address sample_pfi) sample_queued = Inr True"
proof -
  have "case Queued_notify ((0, 0), 0, \<lambda>_. 0) sample_accessor (sample_packet ReadReq (Request_new 0xF88 8 0 1))
      sample_pfi [] sample_queued of Inl _ \<Rightarrow> False | Inr (h', p') \<Rightarrow>
      map (\<lambda>d. pi_address (pd_pfInfo d)) (pf_pfq p') = [0xFC0]"
    by code_simp
  then obtain h' p' d where n: "Queued_notify ((0, 0), 0, \<lambda>_. 0) sample_accessor
      (sample_packet ReadReq (Request_new 0xF88 8 0 1)) sample_pfi [] sample_queued = Inr (h', p')"
    "pf_pfq p' = [d]" "pi_address (pd_pfInfo d) = 0xFC0"
    by (auto split: sum.splits)
  have "pf_pfq sample_queued = []" by (simp add: sample_queued_def)
  then have "samePage (pi_address (pd_pfInfo d)) (pi_address sample_pfi) sample_queued = Inr True"
    using prefetch_stays_on_page [OF n(1), of d] n(2) by simp
  with n show ?thesis by blast
qed

text \<open>
  With different priorities the queue does not stay ordered: a packet of priority 2 inserted
  into a queue of priorities 5, 3, 1 is placed before the packet of priority 3.
\<close>

theorem addToQueue_misorders:
  "\<exists>q. addToQueue 8 (PfDeferredPacket_new pfi 0 2) h [PfDeferredPacket_new pfi 0 5, PfDeferredPacket_new pfi 0 3,
       PfDeferredPacket_new pfi 0 1] = Inr (h, q) \<and> map pd_priority q = [5, 2, 3, 1]"
  by (simp add: addToQueue_def PfDeferredPacket_new_def dp_le_def dp_gt_def Let_def numeral_3_eq_3)

end
