(* ===== verification/Printing.thy ===== *)
theory Printing
  imports Tags Mshr
begin

text \<open>
  The texts that the log messages show: \<open>ReplaceableEntry::print\<close>, \<open>TaggedEntry::print\<close>,
  \<open>CacheBlk::print\<close>, \<open>Packet::print\<close>, \<open>MSHR::print\<close> and \<open>BaseTags::print\<close>. Each of the first five resizes a
  string to 100 characters and lets \<open>sprintf\<close> write into it; a longer text is written behind the
  string, which is undefined. The string returned keeps its 100 characters, and \<open>c_str\<close> reads it up
  to the first null character. The text of a block is too long for its string, and the cache writes it on
  every hit; so that its behaviour can be described nevertheless, \<open>CacheBlk_print_over\<close> takes the number of
  characters behind the string that the platform lets be overwritten without an effect, which is 0 in \<open>CacheBlk_print\<close>.
\<close>

section \<open>Formatting\<close>

definition hex_digit :: "nat \<Rightarrow> char" where
  "hex_digit n = ''0123456789abcdef'' ! n"

fun hex_digits :: "nat \<Rightarrow> string" where
  "hex_digits n = (if n < 16 then [hex_digit n] else hex_digits (n div 16) @ [hex_digit (n mod 16)])"

declare hex_digits.simps [simp del]

text \<open>The conversions \<open>%x\<close>, \<open>%#x\<close> and, for a truth value, \<open>%d\<close>.\<close>

definition fmt_x :: "'a::len word \<Rightarrow> string" where
  "fmt_x w = hex_digits (unat w)"

definition fmt_alt_x :: "'a::len word \<Rightarrow> string" where
  "fmt_alt_x w = (if w = 0 then ''0'' else ''0x'' @ hex_digits (unat w))"

definition fmt_bool :: "bool \<Rightarrow> string" where
  "fmt_bool b = (if b then ''1'' else ''0'')"

definition sprintf_info :: "string \<Rightarrow> string result" where
  "sprintf_info s = defined ''sprintf'' (length s \<le> 100) (Inr (s @ replicate (100 - length s) (CHR 0x00)))"

definition sprintf_over :: "nat \<Rightarrow> string \<Rightarrow> string result" where
  "sprintf_over over s =
     defined ''sprintf'' (length s \<le> 100 + over) (Inr (take 100 s @ replicate (100 - length s) (CHR 0x00)))"

definition c_str :: "string \<Rightarrow> string" where
  "c_str = takeWhile (\<lambda>c. c \<noteq> CHR 0x00)"

section \<open>The print functions\<close>

definition ReplaceableEntry_print :: "'a ReplaceableEntry_scheme \<Rightarrow> string result" where
  "ReplaceableEntry_print e =
     sprintf_info (''set: '' @ fmt_alt_x (getSet e) @ '' way: '' @ fmt_alt_x (getWay e))"

definition TaggedEntry_print :: "'a TaggedEntry_scheme \<Rightarrow> string result" where
  "TaggedEntry_print e =
     bindR (ReplaceableEntry_print e) (\<lambda>r.
       sprintf_info (''tag: '' @ fmt_alt_x (TaggedEntry_getTag e) @ '' secure: '' @ fmt_bool (TaggedEntry_isSecure e) @
         '' valid: '' @ fmt_bool (TaggedEntry_isValid e) @ '' | '' @ c_str r))"

definition CacheBlk_print_over :: "nat \<Rightarrow> 'a CacheBlk_scheme \<Rightarrow> string result" where
  "CacheBlk_print_over over b =
     bindR (TaggedEntry_print b) (\<lambda>r.
       sprintf_over over (''state: '' @ fmt_x (b_coherence b) @ '' ('' @ [CacheBlk_state_letter b] @ '') writable: '' @
         fmt_bool (CacheBlk_isSet WritableBit b) @ '' readable: '' @ fmt_bool (CacheBlk_isSet ReadableBit b) @
         '' dirty: '' @ fmt_bool (CacheBlk_isSet DirtyBit b) @ '' prefetched: '' @ fmt_bool (CacheBlk_wasPrefetched b) @
         '' | '' @ c_str r))"

definition CacheBlk_print :: "'a CacheBlk_scheme \<Rightarrow> string result" where
  "CacheBlk_print b = CacheBlk_print_over 0 b"

definition Packet_print :: "string \<Rightarrow> Packet \<Rightarrow> string result" where
  "Packet_print prefix p =
     bindR (Packet_getAddr p) (\<lambda>a. bindR (Packet_getSize p) (\<lambda>n.
       sprintf_info (c_str prefix @ Packet_cmdString p @ '' ['' @ fmt_x a @ '':'' @ fmt_x (a + ucast n - 1) @ '']'')))"

definition MSHR_print :: "string \<Rightarrow> MSHR \<Rightarrow> string result" where
  "MSHR_print prefix m =
     sprintf_info (c_str prefix @ ''['' @ fmt_alt_x (qe_blkAddr m) @ '':'' @ fmt_alt_x (qe_blkAddr m + ucast (qe_blkSize m) - 1) @ ''](''  @
       (if qe_isSecure m then ''s'' else ''ns'') @ '') '' @ (if m_isForward m then ''Forward'' else '''') @ '' '' @
       (if MSHR_allocOnFill m then ''AllocOnFill'' else '''') @ ''  state'')"

text \<open>The visitor of \<open>BaseTags::print\<close> is commented out as a whole.\<close>

definition BaseTags_print :: "BaseSetAssoc \<Rightarrow> string" where
  "BaseTags_print t =
     (let str = fold (\<lambda>blk str. str) (bt_blks t) ''''
      in if str = '''' then ''no valid tags'' @ [CHR 0x0A] else str)"

section \<open>Lengths\<close>

lemma hex_digits_length: "n < 16 ^ k \<Longrightarrow> 0 < k \<Longrightarrow> 0 < length (hex_digits n) \<and> length (hex_digits n) \<le> k"
proof (induction k arbitrary: n)
  case (Suc k)
  show ?case
  proof (cases "n < 16")
    case True
    then show ?thesis by (subst (1 2) hex_digits.simps) simp
  next
    case False
    then have "n div 16 < 16 ^ k" "0 < k"
      using Suc.prems by (auto intro: less_mult_imp_div_less simp: mult.commute intro!: Nat.gr0I)
    with Suc.IH [of "n div 16"] False show ?thesis by (subst (1 2) hex_digits.simps) simp
  qed
qed simp

lemma hex_digit_nonzero: "n < 16 \<Longrightarrow> hex_digit n \<noteq> CHR 0x00"
proof -
  assume "n < 16"
  then have "hex_digit n \<in> set ''0123456789abcdef''" unfolding hex_digit_def by (intro nth_mem) simp
  then show ?thesis by auto
qed

lemma hex_digits_nonzero: "CHR 0x00 \<notin> set (hex_digits n)"
proof (induction n rule: hex_digits.induct)
  case (1 n)
  have "hex_digit (n mod 16) \<noteq> CHR 0x00" by (simp add: hex_digit_nonzero)
  with 1 show ?case by (subst hex_digits.simps) (auto dest: hex_digit_nonzero)
qed

lemma word_hex_bound: "LENGTH('a) = 4 * k \<Longrightarrow> unat (w :: 'a::len word) < 16 ^ k"
  using unsigned_less [of w, where ?'a = nat] by (simp add: power_mult)

lemma fmt_alt_x_length: "1 \<le> length (fmt_alt_x w)" "length (fmt_alt_x (a :: u64)) \<le> 18" "length (fmt_alt_x (s :: u32)) \<le> 10"
  using hex_digits_length [of "unat a" 16] hex_digits_length [of "unat s" 8] word_hex_bound [of 16 a] word_hex_bound [of 8 s]
  by (simp_all add: fmt_alt_x_def)

lemma fmt_x_length: "1 \<le> length (fmt_x (s :: u32))" "length (fmt_x s) \<le> 8" "length (fmt_x (a :: u64)) \<le> 16"
  using hex_digits_length [of "unat a" 16] hex_digits_length [of "unat s" 8] word_hex_bound [of 16 a] word_hex_bound [of 8 s]
  by (simp_all add: fmt_x_def Suc_le_eq)

lemma fmt_nonzero [simp]: "CHR 0x00 \<notin> set (fmt_alt_x w)" "CHR 0x00 \<notin> set (fmt_bool b)" "length (fmt_bool b) = 1"
  by (simp_all add: fmt_alt_x_def fmt_bool_def hex_digits_nonzero)

lemma c_str_text: "CHR 0x00 \<notin> set s \<Longrightarrow> c_str (s @ replicate n (CHR 0x00)) = s"
  by (cases n) (auto simp: c_str_def takeWhile_append)

lemma sprintf_fits: "length s \<le> 100 \<Longrightarrow> CHR 0x00 \<notin> set s \<Longrightarrow> \<exists>t. sprintf_info s = Inr t \<and> c_str t = s \<and> length t = 100"
  by (simp add: sprintf_info_def c_str_text)

lemma ReplaceableEntry_print_fits:
  "\<exists>t. ReplaceableEntry_print e = Inr t \<and> 13 \<le> length (c_str t) \<and> length (c_str t) \<le> 31 \<and> CHR 0x00 \<notin> set (c_str t)"
proof -
  let ?s = "''set: '' @ fmt_alt_x (getSet e) @ '' way: '' @ fmt_alt_x (getWay e)"
  have "13 \<le> length ?s" "length ?s \<le> 31" "CHR 0x00 \<notin> set ?s"
    using fmt_alt_x_length(1,3) [of "getSet e"] fmt_alt_x_length(1,3) [of "getWay e"] unfolding length_append by simp_all
  with sprintf_fits [of ?s] show ?thesis unfolding ReplaceableEntry_print_def by auto
qed

lemma TaggedEntry_print_fits:
  "\<exists>t. TaggedEntry_print e = Inr t \<and> 41 \<le> length (c_str t) \<and> length (c_str t) \<le> 76"
proof -
  obtain r where r: "ReplaceableEntry_print e = Inr r" "13 \<le> length (c_str r)" "length (c_str r) \<le> 31" "CHR 0x00 \<notin> set (c_str r)"
    using ReplaceableEntry_print_fits by blast
  let ?s = "''tag: '' @ fmt_alt_x (TaggedEntry_getTag e) @ '' secure: '' @ fmt_bool (TaggedEntry_isSecure e) @
    '' valid: '' @ fmt_bool (TaggedEntry_isValid e) @ '' | '' @ c_str r"
  have "41 \<le> length ?s" "length ?s \<le> 76" "CHR 0x00 \<notin> set ?s"
    using r(2-4) fmt_alt_x_length(1,2) [of "TaggedEntry_getTag e"] unfolding length_append by simp_all
  with sprintf_fits [of ?s] r(1) show ?thesis unfolding TaggedEntry_print_def by auto
qed

text \<open>The text of a block has between 103 and 145 characters.\<close>

lemma CacheBlk_print_over_cases:
  "CacheBlk_print_over over b = Inl (Undef ''sprintf'') \<and> over < 45 \<or> (\<exists>t. CacheBlk_print_over over b = Inr t) \<and> 3 \<le> over"
proof -
  obtain r where r: "TaggedEntry_print b = Inr r" "41 \<le> length (c_str r)" "length (c_str r) \<le> 76" using TaggedEntry_print_fits by blast
  then show ?thesis
    using fmt_x_length(1,2) [of "b_coherence b"] by (simp add: CacheBlk_print_over_def sprintf_over_def defined_def)
qed

lemma cmdString_bound: "length (MemCmd_toString c) \<le> 22 \<and> CHR 0x00 \<notin> set (MemCmd_toString c)"
  by (cases c) (simp_all add: MemCmd_table)

section \<open>Which texts fit\<close>

text \<open>
  The texts of packets and registers fit the buffer, for every command, address and size: the
  message of a packet with an address and a size is its command's name and the first and last address
  in hexadecimal, and the one of a register is printed as well, both in at most 100 characters.
\<close>

theorem print_fits:
  assumes "isSet (p_flags p) PKT_VALID_ADDR" "isSet (p_flags p) PKT_VALID_SIZE"
  shows "(\<exists>t. Packet_print '''' p = Inr t \<and> c_str t = Packet_cmdString p @ '' ['' @ fmt_x (p_addr p) @ '':'' @
      fmt_x (p_addr p + ucast (p_size p) - 1) @ '']'') \<and> (\<exists>t. MSHR_print '''' m = Inr t \<and> length t = 100)"
proof
  let ?s = "Packet_cmdString p @ '' ['' @ fmt_x (p_addr p) @ '':'' @ fmt_x (p_addr p + ucast (p_size p) - 1) @ '']''"
  have "length ?s \<le> 100" "CHR 0x00 \<notin> set ?s"
    using fmt_x_length(3) [of "p_addr p"] fmt_x_length(3) [of "p_addr p + ucast (p_size p) - 1"] cmdString_bound [of "p_cmd p"]
    by (simp_all add: Packet_cmdString_def fmt_x_def hex_digits_nonzero)
  from sprintf_fits [OF this] assms
  show "\<exists>t. Packet_print '''' p = Inr t \<and> c_str t = ?s"
    by (auto simp: Packet_print_def Packet_getAddr_def Packet_getSize_def c_str_def)
  show "\<exists>t. MSHR_print '''' m = Inr t \<and> length t = 100"
    using fmt_alt_x_length(2) [of "qe_blkAddr m"] fmt_alt_x_length(2) [of "qe_blkAddr m + ucast (qe_blkSize m) - 1"]
    by (simp add: MSHR_print_def sprintf_info_def c_str_def)
qed

theorem print_fits_witness:
  "\<exists>t u. Packet_print '''' (sample_packet ReadReq (Request_new 0x48 8 0 1)) = Inr t \<and> c_str t = ''ReadReq [48:4f]'' \<and>
     MSHR_print '''' (MSHR_new (0, 0, False)) = Inr u"
proof -
  let ?p = "sample_packet ReadReq (Request_new 0x48 8 0 1)"
  have v: "isSet (p_flags ?p) PKT_VALID_ADDR" "isSet (p_flags ?p) PKT_VALID_SIZE"
    and a: "p_addr ?p = 0x48" "p_size ?p = 8" "Packet_cmdString ?p = ''ReadReq''"
    by (simp_all add: sample_packet_def isSet_def flag_defs Request_new_plain_fields Packet_cmdString_def MemCmd_table)
  have "fmt_x (0x48 :: u64) = ''48''" "fmt_x (0x4f :: u64) = ''4f''"
    by (simp_all add: fmt_x_def hex_digits.simps hex_digit_def)
  with print_fits [OF v, of "MSHR_new (0, 0, False)"] a show ?thesis by auto
qed

text \<open>
  C31: the text of a cache block never fits: its fixed part alone has 62 characters and the text of the
  tagged entry behind it at least 41, so \<open>CacheBlk::print\<close> writes behind its buffer of 100 characters
  for every block, while the text of the tagged entry itself fits.
\<close>

theorem CacheBlk_print_overflows:
  "CacheBlk_print b = Inl (Undef ''sprintf'') \<and> (\<exists>t. TaggedEntry_print b = Inr t)"
proof -
  obtain r where "TaggedEntry_print b = Inr r" using TaggedEntry_print_fits by blast
  then show ?thesis using CacheBlk_print_over_cases [of 0 b] by (simp add: CacheBlk_print_def)
qed

end
