(* ===== verification/Cache_State.thy ===== *)
theory Cache_State
  imports Printing Mshr_Queue Write_Queue Write_Allocator Packet_Queue Prefetch
begin

text \<open>
  The state of a cache and the operations on it that neither access nor fill a block:
  \<open>BaseCache\<close> of \<open>cache/include/cache_base.h\<close> and \<open>cache/cache_base.cpp\<close> with the members that its
  functions use. A block is either one of the tag store or the temporary block, so a block pointer is
  a \<open>blkptr\<close>; a sender state of a packet is the position of a miss register. Packets are values: the
  packets that a cache turns into responses in place are recorded in \<open>c_answered\<close>, in the order in
  which this happens, and what their owner sees of them is that list. What is below the cache,
  the virtual \<open>sendTimingReq\<close>, is a function of the record \<open>cache_env\<close> over a state \<open>c_below\<close>; the other
  members are the caches above, the words that the constructors of packets leave uninitialised, the
  drawn random number of a victim selection, the copy of an extension, and the number of characters
  behind the string of \<open>CacheBlk::print\<close> that can be overwritten without an effect. The texts for the log
  are made where the code makes them; writing them to the log, probe points and the latencies that no
  code reads are left out.
\<close>

section \<open>State\<close>

record ('u, 'm) cache_env =
  env_up :: "'u upstream"
  env_sendTimingReq :: "Packet \<Rightarrow> heap \<Rightarrow> 'm \<Rightarrow> (bool \<times> heap \<times> 'm) result"
  env_junk :: pkt_junk
  env_list_junk :: "Addr \<times> Addr \<times> bool"
  env_rnd :: nat
  env_clone :: "nat \<Rightarrow> nat"
  env_overrun :: nat

record ('u, 'm) BaseCache =
  c_mshrQueue :: "MSHR Queue"
  c_demandReserve :: int
  c_writeBuffer :: "WriteQueueEntry Queue"
  c_tags :: BaseSetAssoc
  c_prefetcher :: "Queued option"
  c_reqPacketQueue :: PacketQueue
  c_writeAllocator :: "WriteAllocator option"
  c_tempBlock :: TempCacheBlk
  c_pendingDelete :: "Packet option"
  c_writebackClean :: bool
  c_blkSize :: u32
  c_numTarget :: int
  c_isReadOnly :: bool
  c_blocked :: u8
  c_order :: Counter
  c_noTargetMSHR :: "nat option"
  c_heap :: heap
  c_links :: links
  c_up :: 'u
  c_below :: 'm
  c_answered :: "Packet list"

record BaseCacheParams =
  cp_mshrs :: u32
  cp_demand_mshr_reserve :: u32
  cp_write_buffers :: u32
  cp_writeback_clean :: bool
  cp_tgts_per_mshr :: u32
  cp_is_read_only :: bool
  cp_cacheline_size :: u32
  cp_prefetcher :: "Queued option"

text \<open>
  The constructor runs on a tag store that has been built before; \<open>writeAllocator\<close> is a constant
  pointer that the constructor leaves uninitialised, so its value is an argument. The data of the
  temporary block are a new buffer of a block's size.
\<close>

definition BaseCache_new :: "Addr \<times> Addr \<times> bool \<Rightarrow> (u32 \<times> u32) \<times> u32 \<Rightarrow> Addr \<Rightarrow> (nat \<Rightarrow> u8) \<Rightarrow> WriteAllocator option \<Rightarrow>
    BaseCacheParams \<Rightarrow> BaseSetAssoc \<Rightarrow> heap \<Rightarrow> links \<Rightarrow> 'u \<Rightarrow> 'm \<Rightarrow> ('u, 'm) BaseCache result" where
  "BaseCache_new list_junk blk_junk addr_junk bytes wa p tags h links u m =
     (case new_bytes bytes (unat (cp_cacheline_size p)) h of (dat, h) \<Rightarrow>
      bindR (TempCacheBlk_new blk_junk addr_junk dat) (\<lambda>tmp.
      bindR (tagsInit tags) (\<lambda>tags.
        Inr \<lparr>c_mshrQueue = MSHRQueue_new list_junk (sint (cp_mshrs p)) 0,
             c_demandReserve = sint (cp_demand_mshr_reserve p),
             c_writeBuffer = WriteQueue_new (sint (cp_write_buffers p)) (sint (cp_mshrs p)),
             c_tags = tags, c_prefetcher = cp_prefetcher p, c_reqPacketQueue = ReqPacketQueue_new,
             c_writeAllocator = wa, c_tempBlock = tmp, c_pendingDelete = None,
             c_writebackClean = cp_writeback_clean p, c_blkSize = cp_cacheline_size p,
             c_numTarget = sint (cp_tgts_per_mshr p), c_isReadOnly = cp_is_read_only p,
             c_blocked = 0, c_order = 0, c_noTargetMSHR = None, c_heap = h, c_links = links,
             c_up = u, c_below = m, c_answered = []\<rparr>)))"

section \<open>Blocks\<close>

datatype blkptr = TagBlk nat | TempBlk

definition get_blk :: "blkptr \<Rightarrow> ('u, 'm) BaseCache \<Rightarrow> CacheBlk result" where
  "get_blk blk c =
     (case blk of
        TagBlk i \<Rightarrow> defined ''*blk'' (i < length (bt_blks (c_tags c))) (Inr (bt_blks (c_tags c) ! i))
      | TempBlk \<Rightarrow> Inr (CacheBlk.truncate (c_tempBlock c)))"

definition put_blk :: "blkptr \<Rightarrow> CacheBlk \<Rightarrow> ('u, 'm) BaseCache \<Rightarrow> ('u, 'm) BaseCache" where
  "put_blk blk b c =
     (case blk of
        TagBlk i \<Rightarrow> c\<lparr>c_tags := (c_tags c)\<lparr>bt_blks := (bt_blks (c_tags c))[i := b]\<rparr>\<rparr>
      | TempBlk \<Rightarrow> c\<lparr>c_tempBlock := CacheBlk.extend b (CacheBlk.more (c_tempBlock c))\<rparr>)"

definition blk_setCoherenceBits :: "u32 \<Rightarrow> blkptr \<Rightarrow> ('u, 'm) BaseCache \<Rightarrow> ('u, 'm) BaseCache result" where
  "blk_setCoherenceBits flags blk c =
     bindR (get_blk blk c) (\<lambda>b. bindR (CacheBlk_setCoherenceBits flags b) (\<lambda>b. Inr (put_blk blk b c)))"

definition blk_clearCoherenceBits :: "u32 \<Rightarrow> blkptr \<Rightarrow> ('u, 'm) BaseCache \<Rightarrow> ('u, 'm) BaseCache result" where
  "blk_clearCoherenceBits flags blk c =
     bindR (get_blk blk c) (\<lambda>b. Inr (put_blk blk (CacheBlk_clearCoherenceBits flags b) c))"

definition blk_isValid :: "blkptr option \<Rightarrow> ('u, 'm) BaseCache \<Rightarrow> bool result" where
  "blk_isValid blk c =
     (case blk of None \<Rightarrow> Inr False | Some p \<Rightarrow> bindR (get_blk p c) (\<lambda>b. Inr (TaggedEntry_isValid b)))"

definition blk_isSet :: "u32 \<Rightarrow> blkptr option \<Rightarrow> ('u, 'm) BaseCache \<Rightarrow> bool result" where
  "blk_isSet flags blk c =
     (case blk of None \<Rightarrow> Inr False | Some p \<Rightarrow> bindR (get_blk p c) (\<lambda>b. Inr (CacheBlk_isSet flags b)))"

text \<open>The texts of a block and of a packet, as arguments of a log message; the text itself is dropped.\<close>

definition blk_print :: "('u, 'm) cache_env \<Rightarrow> blkptr option \<Rightarrow> ('u, 'm) BaseCache \<Rightarrow> string result" where
  "blk_print env blk c =
     (case blk of None \<Rightarrow> Inr '''' | Some p \<Rightarrow> bindR (get_blk p c) (CacheBlk_print_over (env_overrun env)))"

definition log_pkt :: "Packet \<Rightarrow> 'a result \<Rightarrow> 'a result" where
  "log_pkt pkt k = bindR (Packet_print '''' pkt) (\<lambda>_. k)"

definition cache_findBlock :: "Addr \<Rightarrow> bool \<Rightarrow> ('u, 'm) BaseCache \<Rightarrow> blkptr option result" where
  "cache_findBlock addr is_secure c =
     bindR (findBlock addr is_secure (c_tags c)) (\<lambda>r. Inr (map_option TagBlk r))"

definition cache_regenerateBlkAddr :: "blkptr \<Rightarrow> ('u, 'm) BaseCache \<Rightarrow> Addr result" where
  "cache_regenerateBlkAddr blk c =
     (case blk of
        TagBlk i \<Rightarrow> regenerateBlkAddr i (c_tags c)
      | TempBlk \<Rightarrow> Inr (TempCacheBlk_getAddr (c_tempBlock c)))"

definition inRange :: "Addr \<Rightarrow> bool" where
  "inRange addr = False"

section \<open>Blocking\<close>

datatype BlockedCause = Blocked_NoMSHRs | Blocked_NoWBBuffers | Blocked_NoTargets

fun cause_code :: "BlockedCause \<Rightarrow> nat" where
  "cause_code Blocked_NoMSHRs = 0"
| "cause_code Blocked_NoWBBuffers = 1"
| "cause_code Blocked_NoTargets = 2"

definition isBlocked :: "('u, 'm) BaseCache \<Rightarrow> bool" where
  "isBlocked c \<longleftrightarrow> c_blocked c \<noteq> 0"

definition setBlocked :: "BlockedCause \<Rightarrow> ('u, 'm) BaseCache \<Rightarrow> ('u, 'm) BaseCache" where
  "setBlocked cause c = c\<lparr>c_blocked := c_blocked c OR push_bit (cause_code cause) 1\<rparr>"

definition clearBlocked :: "BlockedCause \<Rightarrow> ('u, 'm) BaseCache \<Rightarrow> ('u, 'm) BaseCache" where
  "clearBlocked cause c = c\<lparr>c_blocked := c_blocked c AND NOT (push_bit (cause_code cause) 1)\<rparr>"

definition markInService_mshr :: "('u, 'm) cache_env \<Rightarrow> nat \<Rightarrow> bool \<Rightarrow> ('u, 'm) BaseCache \<Rightarrow> ('u, 'm) BaseCache result" where
  "markInService_mshr env i pending_modified_resp c =
     (let wasFull = Queue_isFull (c_mshrQueue c)
      in bindR (MSHRQueue_markInService (env_up env) i pending_modified_resp (c_mshrQueue c) (c_up c)) (\<lambda>(q, u).
           let c = c\<lparr>c_mshrQueue := q, c_up := u\<rparr>
           in Inr (if wasFull \<and> \<not> Queue_isFull (c_mshrQueue c) then clearBlocked Blocked_NoMSHRs c else c)))"

definition markInService_wq :: "nat \<Rightarrow> ('u, 'm) BaseCache \<Rightarrow> ('u, 'm) BaseCache result" where
  "markInService_wq i c =
     (let wasFull = Queue_isFull (c_writeBuffer c)
      in bindR (WriteQueue_markInService i (c_writeBuffer c)) (\<lambda>q.
           let c = c\<lparr>c_writeBuffer := q\<rparr>
           in Inr (if wasFull \<and> \<not> Queue_isFull (c_writeBuffer c) then clearBlocked Blocked_NoWBBuffers c else c)))"

section \<open>Miss and write buffers\<close>

definition allocOnFill :: "Command \<Rightarrow> bool" where
  "allocOnFill cmd \<longleftrightarrow> cmd = WriteLineReq \<or> cmd = ReadReq \<or> cmd = WriteReq \<or> MemCmd_isPrefetch cmd"

definition maxRequestors :: u64 where
  "maxRequestors = NOT (push_bit 16 1)"

definition schedMemSideSendEvent :: "Tick \<Rightarrow> ('u, 'm) BaseCache \<Rightarrow> ('u, 'm) BaseCache" where
  "schedMemSideSendEvent t c = c\<lparr>c_reqPacketQueue := schedSendEvent t (c_reqPacketQueue c)\<rparr>"

definition allocateMissBuffer :: "('u, 'm) cache_env \<Rightarrow> Packet \<Rightarrow> Tick \<Rightarrow> bool \<Rightarrow> ('u, 'm) BaseCache \<Rightarrow>
    (nat \<times> ('u, 'm) BaseCache) result" where
  "allocateMissBuffer env pkt t sched_send c =
     bindR (Packet_getBlockAddr (c_blkSize c) pkt) (\<lambda>a.
     bindR (MSHRQueue_allocate (env_up env) curTick a (c_blkSize c) pkt t (c_order c) (allocOnFill (p_cmd pkt))
              (c_mshrQueue c) (c_up c)) (\<lambda>(i, q, u).
       let c = c\<lparr>c_mshrQueue := q, c_up := u, c_order := c_order c + 1\<rparr>;
           c = (if Queue_isFull (c_mshrQueue c) then setBlocked Blocked_NoMSHRs c else c);
           c = (if sched_send then schedMemSideSendEvent t c else c)
       in Inr (i, c)))"

definition wb_findMatch :: "Addr \<Rightarrow> bool \<Rightarrow> ('u, 'm) BaseCache \<Rightarrow> nat option result" where
  "wb_findMatch addr is_secure c = findMatch WriteQueueEntry_matchBlockAddr addr is_secure True (c_writeBuffer c)"

definition mshr_findMatch :: "Addr \<Rightarrow> bool \<Rightarrow> bool \<Rightarrow> ('u, 'm) BaseCache \<Rightarrow> nat option result" where
  "mshr_findMatch addr is_secure ignore_uncacheable c =
     findMatch MSHR_matchBlockAddr addr is_secure ignore_uncacheable (c_mshrQueue c)"

definition allocateWriteBuffer :: "Packet \<Rightarrow> Tick \<Rightarrow> ('u, 'm) BaseCache \<Rightarrow> ('u, 'm) BaseCache result" where
  "allocateWriteBuffer pkt t c =
     check ''pkt->isWrite() || pkt->cmd == MemCmd::CleanEvict'' (Packet_isWrite pkt \<or> p_cmd pkt = CleanEvict)
       (bindR (Packet_getBlockAddr (c_blkSize c) pkt) (\<lambda>blk_addr.
        bindR (Packet_isSecure pkt) (\<lambda>s.
        bindR (wb_findMatch blk_addr s c) (\<lambda>_.
        bindR (WriteQueue_allocate curTick blk_addr (c_blkSize c) pkt t (c_order c) (c_writeBuffer c)) (\<lambda>(i, q).
          let c = c\<lparr>c_writeBuffer := q, c_order := c_order c + 1\<rparr>;
              c = (if Queue_isFull (c_writeBuffer c) then setBlocked Blocked_NoWBBuffers c else c)
          in Inr (schedMemSideSendEvent t c))))))"

definition nextQueueReadyTime :: "('u, 'm) BaseCache \<Rightarrow> Tick" where
  "nextQueueReadyTime c =
     (let nextReady = min (nextReadyTime (c_mshrQueue c)) (nextReadyTime (c_writeBuffer c))
      in case c_prefetcher c of
           None \<Rightarrow> nextReady
         | Some pf \<Rightarrow>
             if canPrefetch (c_demandReserve c) (c_mshrQueue c) \<and> \<not> isBlocked c
             then min nextReady (nextPrefetchReadyTime pf) else nextReady)"

section \<open>What the prefetcher sees\<close>

definition inCache :: "('u, 'm) BaseCache \<Rightarrow> Addr \<Rightarrow> bool \<Rightarrow> bool result" where
  "inCache c addr is_secure = bindR (cache_findBlock addr is_secure c) (\<lambda>b. Inr (b \<noteq> None))"

definition hasBeenPrefetched :: "('u, 'm) BaseCache \<Rightarrow> Addr \<Rightarrow> bool \<Rightarrow> bool result" where
  "hasBeenPrefetched c addr is_secure =
     bindR (cache_findBlock addr is_secure c) (\<lambda>b.
       case b of None \<Rightarrow> Inr False | Some p \<Rightarrow> bindR (get_blk p c) (\<lambda>b. Inr (CacheBlk_wasPrefetched b)))"

definition hasBeenPrefetched_by :: "('u, 'm) BaseCache \<Rightarrow> Addr \<Rightarrow> bool \<Rightarrow> RequestorID \<Rightarrow> bool result" where
  "hasBeenPrefetched_by c addr is_secure requestor =
     bindR (cache_findBlock addr is_secure c) (\<lambda>b.
       case b of
         None \<Rightarrow> Inr False
       | Some p \<Rightarrow> bindR (get_blk p c) (\<lambda>b.
           Inr (CacheBlk_wasPrefetched b \<and> CacheBlk_getSrcRequestorId b = ucast requestor)))"

definition inMissQueue :: "('u, 'm) BaseCache \<Rightarrow> Addr \<Rightarrow> bool \<Rightarrow> bool result" where
  "inMissQueue c addr is_secure = bindR (mshr_findMatch addr is_secure True c) (\<lambda>m. Inr (m \<noteq> None))"

definition cache_coalesce :: "('u, 'm) BaseCache \<Rightarrow> bool" where
  "cache_coalesce c \<longleftrightarrow> (case c_writeAllocator c of None \<Rightarrow> False | Some w \<Rightarrow> WriteAllocator_coalesce w)"

definition CacheAccessorImpl :: "('u, 'm) BaseCache \<Rightarrow> CacheAccessor" where
  "CacheAccessorImpl c =
     \<lparr>ca_inCache = inCache c, ca_hasBeenPrefetched = hasBeenPrefetched c,
      ca_hasBeenPrefetched_by = hasBeenPrefetched_by c, ca_inMissQueue = inMissQueue c,
      ca_coalesce = cache_coalesce c\<rparr>"

section \<open>Lemmas\<close>

lemma blk_print_simps [simp]:
  "blk_print env None c = Inr ''''"
  "i < length (bt_blks (c_tags c)) \<Longrightarrow> blk_print env (Some (TagBlk i)) c = CacheBlk_print_over (env_overrun env) (bt_blks (c_tags c) ! i)"
  by (simp_all add: blk_print_def get_blk_def defined_def)

lemma log_pkt_valid [simp]: "isSet (p_flags p) PKT_VALID_ADDR \<Longrightarrow> isSet (p_flags p) PKT_VALID_SIZE \<Longrightarrow> log_pkt p k = k"
  using print_fits [of p "MSHR_new (0, 0, False)"] by (auto simp: log_pkt_def)

lemma blkptr_simps [simp]:
  "i < length (bt_blks (c_tags c)) \<Longrightarrow> get_blk (TagBlk i) c = Inr (bt_blks (c_tags c) ! i)"
  "put_blk (TagBlk i) b c = c\<lparr>c_tags := upd_blk i b (c_tags c)\<rparr>"
  by (simp_all add: get_blk_def put_blk_def upd_blk_def)

lemma blk_isValid_simps [simp]:
  "blk_isValid None c = Inr False"
  "i < length (bt_blks (c_tags c)) \<Longrightarrow> blk_isValid (Some (TagBlk i)) c = Inr (t_valid (bt_blks (c_tags c) ! i))"
  by (simp_all add: blk_isValid_def TaggedEntry_isValid_def)

lemma blk_isSet_simps [simp]:
  "blk_isSet flags None c = Inr False"
  "i < length (bt_blks (c_tags c)) \<Longrightarrow>
     blk_isSet flags (Some (TagBlk i)) c = Inr (CacheBlk_isSet flags (bt_blks (c_tags c) ! i))"
  by (simp_all add: blk_isSet_def)

text \<open>
  The invariant of a cache: tag store and miss queue satisfy theirs for the same power of two as
  block size, and the write buffer is empty, since no write can enter it.
\<close>

definition cache_inv :: "('u, 'm) BaseCache \<Rightarrow> bool" where
  "cache_inv c \<longleftrightarrow> tags_inv (c_tags c) \<and> mq_inv (c_blkSize c) (c_mshrQueue c) \<and> 0 \<le> q_numReserve (c_mshrQueue c) \<and>
     q_allocatedList (c_writeBuffer c) = [] \<and> q_readyList (c_writeBuffer c) = [] \<and>
     2 ^ ip_setShift (bt_indexingPolicy (c_tags c)) = c_blkSize c \<and> ip_setShift (bt_indexingPolicy (c_tags c)) < 31"

lemma wb_findMatch_empty [simp]: "q_allocatedList (c_writeBuffer c) = [] \<Longrightarrow> wb_findMatch a s c = Inr None"
  by (simp add: wb_findMatch_def findMatch_def)

lemma cache_findBlock_Inr: "tags_inv (c_tags c) \<Longrightarrow> cache_findBlock a s c = Inr (map_option TagBlk (tag_lookup (c_tags c) a s))"
  by (simp add: cache_findBlock_def findBlock_Inr)

lemma block_mask:
  assumes "bs = 2 ^ k" "k < 32"
  shows "(ucast (bs - 1 :: u32) :: u64) = mask k"
  using assms by (intro bit_word_eqI) (auto simp: bit_simps simp flip: mask_eq_exp_minus_1)

lemma cache_block_addr:
  assumes "cache_inv c" "pkt_ok (c_blkSize c) pkt"
  shows "Packet_getBlockAddr (c_blkSize c) pkt = Inr (blk_align (bt_indexingPolicy (c_tags c)) (p_addr pkt))"
    "Packet_getAddr pkt = Inr (p_addr pkt)" "Packet_isSecure pkt = Inr (p_isSecure pkt)"
    "Packet_getOffset (c_blkSize c) pkt = Inr (p_addr pkt AND mask (ip_setShift (bt_indexingPolicy (c_tags c))))"
  using assms block_mask [of "c_blkSize c" "ip_setShift (bt_indexingPolicy (c_tags c))"]
  by (simp_all add: cache_inv_def pkt_ok_def Packet_getBlockAddr_def Packet_getAddr_def Packet_isSecure_def
      Packet_getOffset_def blk_align_def)

lemma cache_inv_tags:
  assumes "cache_inv c" "tags_inv T" "bt_indexingPolicy T = bt_indexingPolicy (c_tags c)"
  shows "cache_inv (c\<lparr>c_tags := T\<rparr>)"
  using assms by (auto simp: cache_inv_def)

lemma requestor_small [simp]: "ucast (r :: RequestorID) < maxRequestors"
proof -
  have "unat (ucast r :: u64) < 2 ^ 16" using unsigned_less [of r, where ?'a = nat] by (simp add: unsigned_ucast_eq le_less_trans [OF take_bit_nat_less_eq_self])
  then show ?thesis by (simp add: word_less_nat_alt maxRequestors_def)
qed

lemma blocked_bits:
  "isBlocked (setBlocked cause c)"
  "c_blocked (clearBlocked cause (setBlocked cause c)) = c_blocked (clearBlocked cause c)"
  "bit (c_blocked (setBlocked cause c)) (cause_code d) \<longleftrightarrow> d = cause \<or> bit (c_blocked c) (cause_code d)"
  "bit (c_blocked (clearBlocked cause c)) (cause_code d) \<longleftrightarrow> d \<noteq> cause \<and> bit (c_blocked c) (cause_code d)"
proof -
  have code: "cause_code d = cause_code e \<longleftrightarrow> d = e" "cause_code e < 8" for d e by (cases d; cases e; simp)+
  show b: "bit (c_blocked (setBlocked cause c)) (cause_code d) \<longleftrightarrow> d = cause \<or> bit (c_blocked c) (cause_code d)" for d
    using code by (auto simp: setBlocked_def bit_simps)
  show "bit (c_blocked (clearBlocked cause c)) (cause_code d) \<longleftrightarrow> d \<noteq> cause \<and> bit (c_blocked c) (cause_code d)"
    using code by (auto simp: clearBlocked_def bit_simps)
  show "isBlocked (setBlocked cause c)" using b [of cause] by (auto simp: isBlocked_def)
  show "c_blocked (clearBlocked cause (setBlocked cause c)) = c_blocked (clearBlocked cause c)"
    by (intro bit_word_eqI) (auto simp: setBlocked_def clearBlocked_def bit_simps)
qed

text \<open>Changes of a block that keep its identity: coherence bits, the prefetch mark, data.\<close>

definition same_identity :: "CacheBlk \<Rightarrow> CacheBlk \<Rightarrow> bool" where
  "same_identity b b' \<longleftrightarrow> e_set b' = e_set b \<and> t_valid b' = t_valid b \<and> t_secure b' = t_secure b \<and>
     t_tag b' = t_tag b \<and> e_replacementData b' = e_replacementData b"

lemma upd_blk_identity:
  assumes "tags_inv T" "i < length (bt_blks T)" "same_identity (bt_blks T ! i) b"
  shows "tags_inv (upd_blk i b T)" "tag_lookup (upd_blk i b T) a s = tag_lookup T a s"
proof -
  show inv: "tags_inv (upd_blk i b T)"
  proof (rule upd_blk_inv [OF assms(1,2)])
    show "blk_ok T i b"
      using tags_inv_blk [OF assms(1,2)] assms(3) by (simp add: blk_ok_def same_identity_def TaggedEntry_wf_def)
    show "\<not> same_line b (bt_blks T ! j)" if "j < length (bt_blks T)" "j \<noteq> i" for j
      using tags_inv_unique [OF assms(1,2) that(1)] that(2) assms(3) by (auto simp: same_identity_def same_line_def)
  qed
  have "resident (upd_blk i b T) j a' s' \<longleftrightarrow> tag_lookup T a' s' = Some j" for j a' s'
    using assms(2,3) by (simp add: upd_blk_resident tag_lookup_iff [OF assms(1)] same_identity_def resident_def)
  from tag_lookup_upd [OF assms(1) inv assms(2) this]
  show "tag_lookup (upd_blk i b T) a s = tag_lookup T a s" .
qed

lemma tag_lookup_less: "tags_inv T \<Longrightarrow> tag_lookup T a s = Some i \<Longrightarrow> i < length (bt_blks T)"
  by (simp add: tag_lookup_iff resident_def)

section \<open>Construction\<close>

lemma BaseCache_new_inv:
  assumes "tagsInit tags = Inr T" "tags_inv T" "cp_cacheline_size p = 2 ^ ip_setShift (bt_indexingPolicy T)"
    and "ip_setShift (bt_indexingPolicy T) < 31" "0 \<le> sint (cp_mshrs p)"
  shows "\<exists>c. BaseCache_new list_junk blk_junk addr_junk bytes wa p tags h links u m = Inr c \<and> cache_inv c \<and>
    c_tags c = T \<and> c_mshrQueue c = MSHRQueue_new list_junk (sint (cp_mshrs p)) 0 \<and> c_blkSize c = cp_cacheline_size p \<and>
    c_reqPacketQueue c = ReqPacketQueue_new \<and> c_writeAllocator c = wa \<and> c_prefetcher c = cp_prefetcher p \<and>
    c_isReadOnly c = cp_is_read_only p \<and> c_answered c = [] \<and> c_below c = m \<and> c_blocked c = 0 \<and>
    c_numTarget c = sint (cp_tgts_per_mshr p) \<and> c_noTargetMSHR c = None"
proof -
  obtain tmp where "TempCacheBlk_new blk_junk addr_junk (Ptr (length h) 0) = Inr tmp"
    using CacheBlk_new_fields [of blk_junk] by (auto simp: TempCacheBlk_new_def)
  moreover have "mq_inv (cp_cacheline_size p) (MSHRQueue_new list_junk (sint (cp_mshrs p)) 0)"
    using assms(5) by (intro mq_inv_new) simp
  ultimately show ?thesis
    using assms(1-4) by (simp add: BaseCache_new_def new_bytes_def cache_inv_def MSHRQueue_new_def WriteQueue_new_def Queue_new_simps)
qed

text \<open>A cache with the store of the examples, one miss register and no prefetcher.\<close>

lemma sample_cache:
  "\<exists>tags c. BaseCache_new (0, 0, False) ((0, 0), 0) 0 (\<lambda>_. 0) None
      \<lparr>cp_mshrs = 2, cp_demand_mshr_reserve = 1, cp_write_buffers = 2, cp_writeback_clean = False,
       cp_tgts_per_mshr = 2, cp_is_read_only = False, cp_cacheline_size = 64, cp_prefetcher = None\<rparr>
      tags [] (\<lambda>_. None) u m = Inr c \<and> cache_inv c \<and> (\<forall>a s. tag_lookup (c_tags c) a s = None) \<and>
    ip_setShift (bt_indexingPolicy (c_tags c)) = 6 \<and>
    c_mshrQueue c = MSHRQueue_new (0, 0, False) 2 0 \<and> c_blkSize c = 64 \<and> c_reqPacketQueue c = ReqPacketQueue_new \<and>
    c_writeAllocator c = None \<and> c_prefetcher c = None \<and> \<not> c_isReadOnly c \<and> c_below c = m \<and> c_numTarget c = 2 \<and>
    c_noTargetMSHR c = None"
proof -
  obtain tags T where T: "tagsInit tags = Inr T" "tags_inv T" "ip_setShift (bt_indexingPolicy T) = 6"
    "\<And>a s. tag_lookup T a s = None"
    using sample_store by blast
  then show ?thesis
    using BaseCache_new_inv [of tags T "\<lparr>cp_mshrs = 2, cp_demand_mshr_reserve = 1, cp_write_buffers = 2,
        cp_writeback_clean = False, cp_tgts_per_mshr = 2, cp_is_read_only = False, cp_cacheline_size = 64,
        cp_prefetcher = None\<rparr>" "(0, 0, False)" "((0, 0), 0)" 0 "\<lambda>_. 0" None "[]" "\<lambda>_. None" u m]
    by (intro exI [of _ tags]) auto
qed

end
