(* ===== verification/Cache_Response.thy ===== *)
theory Cache_Response
  imports Cache_State
begin

text \<open>
  What happens below a miss: filling and evicting blocks, the response path and the sending of miss
  requests, of \<open>BaseCache\<close> (\<open>cache/cache_base.cpp\<close>) and of \<open>NoncoherentCache\<close>
  (\<open>cache/include/cache_noncoherent.h\<close>, \<open>cache/cache_noncoherent.cpp\<close>), whose virtual functions are
  the ones called. The bodies of \<open>updateBlockData\<close>, \<open>BaseCache::satisfyRequest\<close>, \<open>maintainClusivity\<close>,
  \<open>invalidateBlock\<close>, \<open>cmpAndSwap\<close>, \<open>functionalAccess\<close> and \<open>handleUncacheableWriteResp\<close> are commented out
  in the source and are the identity here. The list \<open>writebacks\<close> is returned by the functions that
  extend it; its only reader, the call that would send the writebacks, is commented out as well.
\<close>

section \<open>Evictions and writebacks\<close>

definition updateBlockData :: "blkptr \<Rightarrow> Packet \<Rightarrow> bool \<Rightarrow> ('u, 'm) BaseCache \<Rightarrow> ('u, 'm) BaseCache" where
  "updateBlockData blk cpkt has_old_data c = c"

definition BaseCache_satisfyRequest :: "Packet \<Rightarrow> blkptr option \<Rightarrow> ('u, 'm) BaseCache \<Rightarrow> ('u, 'm) BaseCache" where
  "BaseCache_satisfyRequest pkt blk c = c"

definition satisfyRequest :: "Packet \<Rightarrow> blkptr option \<Rightarrow> ('u, 'm) BaseCache \<Rightarrow> ('u, 'm) BaseCache result" where
  "satisfyRequest pkt blk c =
     check ''pkt->isRead() || pkt->isWrite()'' (Packet_isRead pkt \<or> Packet_isWrite pkt)
       (Inr (BaseCache_satisfyRequest pkt blk c))"

definition maintainClusivity :: "bool \<Rightarrow> blkptr \<Rightarrow> ('u, 'm) BaseCache \<Rightarrow> ('u, 'm) BaseCache" where
  "maintainClusivity from_cache blk c = c"

definition invalidateBlock :: "blkptr \<Rightarrow> ('u, 'm) BaseCache \<Rightarrow> ('u, 'm) BaseCache" where
  "invalidateBlock blk c = c"

definition handleUncacheableWriteResp :: "Packet \<Rightarrow> ('u, 'm) BaseCache \<Rightarrow> ('u, 'm) BaseCache" where
  "handleUncacheableWriteResp pkt c = c"

definition functionalAccess :: "Packet \<Rightarrow> bool \<Rightarrow> ('u, 'm) BaseCache \<Rightarrow> ('u, 'm) BaseCache" where
  "functionalAccess pkt from_cpu_side c = c"

definition cmpAndSwap :: "blkptr \<Rightarrow> Packet \<Rightarrow> ('u, 'm) BaseCache \<Rightarrow> ('u, 'm) BaseCache" where
  "cmpAndSwap blk pkt c = c"

definition handleEvictions :: "nat option list \<Rightarrow> Packet list \<Rightarrow> bool" where
  "handleEvictions evict_blks writebacks = True"

definition allocateBlock :: "('u, 'm) cache_env \<Rightarrow> Packet \<Rightarrow> Packet list \<Rightarrow> ('u, 'm) BaseCache \<Rightarrow>
    (blkptr option \<times> ('u, 'm) BaseCache) result" where
  "allocateBlock env pkt writebacks c =
     bindR (Packet_getAddr pkt) (\<lambda>addr.
     bindR (Packet_isSecure pkt) (\<lambda>is_secure.
     bindR (findVictim (env_rnd env) addr is_secure (unat (c_blkSize c * 8)) (c_tags c) []) (\<lambda>(victim, evict_blks).
       case victim of
         None \<Rightarrow> Inr (None, c)
       | Some i \<Rightarrow>
           if \<not> handleEvictions evict_blks writebacks then Inr (None, c)
           else bindR (insertBlock curTick pkt i (c_tags c)) (\<lambda>T.
                  Inr (Some (TagBlk i), c\<lparr>c_tags := T\<rparr>)))))"

text \<open>
  A packet that takes a block downstream; \<open>fill_from_blk\<close> is the common tail of \<open>writebackBlk\<close> and
  \<open>writecleanBlk\<close>: the packet gives up the writable state, the block loses its dirty bit, and the data
  of the block are copied into the packet.
\<close>

definition fill_from_blk :: "('u, 'm) cache_env \<Rightarrow> Packet \<Rightarrow> blkptr \<Rightarrow> ('u, 'm) BaseCache \<Rightarrow>
    (Packet \<times> ('u, 'm) BaseCache) result" where
  "fill_from_blk env pkt blk c =
     bindR (get_blk blk c) (\<lambda>b.
       let (pkt, b) = (if CacheBlk_isSet WritableBit b
                       then (pkt, CacheBlk_clearCoherenceBits WritableBit b)
                       else (Packet_setHasSharers pkt, b));
           b = CacheBlk_clearCoherenceBits DirtyBit b;
           c = put_blk blk b c
       in bindR (Packet_allocate (snd (snd (env_junk env))) (c_heap c) pkt) (\<lambda>(h, pkt).
          bindR (Packet_setDataFromBlock h (b_data b) (c_blkSize c) pkt) (\<lambda>h.
            Inr (pkt, c\<lparr>c_heap := h\<rparr>))))"

definition blk_request :: "RequestorID \<Rightarrow> blkptr \<Rightarrow> ('u, 'm) BaseCache \<Rightarrow> Request result" where
  "blk_request rid blk c =
     bindR (get_blk blk c) (\<lambda>b.
     bindR (cache_regenerateBlkAddr blk c) (\<lambda>addr.
     bindR (if TaggedEntry_isSecure b then Request_setFlags SECURE (Request_new addr (c_blkSize c) 0 rid)
            else Inr (Request_new addr (c_blkSize c) 0 rid)) (\<lambda>req.
       Inr (Request_setTaskId (CacheBlk_getTaskId b) req))))"

definition writebackBlk :: "('u, 'm) cache_env \<Rightarrow> blkptr \<Rightarrow> ('u, 'm) BaseCache \<Rightarrow> (Packet \<times> ('u, 'm) BaseCache) result" where
  "writebackBlk env blk c =
     check ''Writeback from read-only cache'' (\<not> c_isReadOnly c \<or> c_writebackClean c)
       (bindR (get_blk blk c) (\<lambda>b.
          check ''blk && blk->isValid() && (blk->isSet(CacheBlk::DirtyBit) || writebackClean)''
            (TaggedEntry_isValid b \<and> (CacheBlk_isSet DirtyBit b \<or> c_writebackClean c))
            (bindR (blk_request wbRequestorId blk c) (\<lambda>req.
             bindR (Packet_new (fst (env_junk env)) (fst (snd (env_junk env))) req
                     (if CacheBlk_isSet DirtyBit b then WritebackDirty else WritebackClean)) (\<lambda>pkt.
               fill_from_blk env pkt blk c)))))"

definition writecleanBlk :: "('u, 'm) cache_env \<Rightarrow> blkptr \<Rightarrow> u64 \<Rightarrow> u64 \<Rightarrow> ('u, 'm) BaseCache \<Rightarrow>
    (Packet \<times> ('u, 'm) BaseCache) result" where
  "writecleanBlk env blk dest pid c =
     bindR (blk_request wbRequestorId blk c) (\<lambda>req.
     bindR (Packet_new_blk (fst (env_junk env)) (fst (snd (env_junk env))) req WriteClean (c_blkSize c) pid) (\<lambda>pkt.
     bindR (if dest \<noteq> 0 then bindR (Request_setFlags dest (p_req pkt)) (\<lambda>r. Inr (pkt\<lparr>p_req := r\<rparr>)) else Inr pkt) (\<lambda>pkt.
       fill_from_blk env pkt blk c)))"

definition evictBlock :: "('u, 'm) cache_env \<Rightarrow> blkptr \<Rightarrow> ('u, 'm) BaseCache \<Rightarrow>
    (Packet option \<times> ('u, 'm) BaseCache) result" where
  "evictBlock env blk c =
     bindR (get_blk blk c) (\<lambda>b.
     bindR (if CacheBlk_isSet DirtyBit b \<or> c_writebackClean c
            then bindR (writebackBlk env blk c) (\<lambda>(pkt, c). Inr (Some pkt, c)) else Inr (None, c)) (\<lambda>(pkt, c).
       Inr (pkt, invalidateBlock blk c)))"

definition evictBlock_to :: "('u, 'm) cache_env \<Rightarrow> blkptr \<Rightarrow> Packet list \<Rightarrow> ('u, 'm) BaseCache \<Rightarrow>
    (Packet list \<times> ('u, 'm) BaseCache) result" where
  "evictBlock_to env blk writebacks c =
     bindR (evictBlock env blk c) (\<lambda>(pkt, c).
       Inr (case pkt of None \<Rightarrow> writebacks | Some p \<Rightarrow> writebacks @ [p], c))"

definition isDirty :: "('u, 'm) BaseCache \<Rightarrow> bool result" where
  "isDirty c =
     bindR (anyBlk (\<lambda>b. Inr (CacheBlk_isSet DirtyBit b, b)) (bt_blks (c_tags c))) (\<lambda>(r, _). Inr r)"

definition writebackVisitor :: "('u, 'm) cache_env \<Rightarrow> blkptr \<Rightarrow> ('u, 'm) BaseCache \<Rightarrow> ('u, 'm) BaseCache result" where
  "writebackVisitor env blk c =
     bindR (get_blk blk c) (\<lambda>b.
       if CacheBlk_isSet DirtyBit b then
         check ''blk.isValid()'' (TaggedEntry_isValid b)
           (bindR (blk_request funcRequestorId blk c) (\<lambda>req.
            bindR (Packet_new (fst (env_junk env)) (fst (snd (env_junk env))) req WriteReq) (\<lambda>pkt.
            bindR (Packet_dataStatic (b_data b) pkt) (\<lambda>pkt.
              blk_clearCoherenceBits DirtyBit blk c))))
       else Inr c)"

definition invalidateVisitor :: "blkptr \<Rightarrow> ('u, 'm) BaseCache \<Rightarrow> ('u, 'm) BaseCache result" where
  "invalidateVisitor blk c =
     bindR (get_blk blk c) (\<lambda>b.
       if TaggedEntry_isValid b then
         check ''!blk.isSet(CacheBlk::DirtyBit)'' (\<not> CacheBlk_isSet DirtyBit b) (Inr (invalidateBlock blk c))
       else Inr c)"

section \<open>Fills\<close>

definition fill_target :: "('u, 'm) cache_env \<Rightarrow> Packet \<Rightarrow> blkptr option \<Rightarrow> Packet list \<Rightarrow> bool \<Rightarrow> ('u, 'm) BaseCache \<Rightarrow>
    (blkptr \<times> ('u, 'm) BaseCache) result" where
  "fill_target env pkt blk writebacks allocate c =
     (case blk of
        Some p \<Rightarrow> Inr (p, c)
      | None \<Rightarrow>
          check ''pkt->hasData() || pkt->cmd == MemCmd::InvalidateResp'' (Packet_hasData pkt \<or> p_cmd pkt = InvalidateResp)
            (bindR (if allocate then allocateBlock env pkt writebacks c else Inr (None, c)) (\<lambda>(blk, c).
               case blk of
                 Some p \<Rightarrow> Inr (p, c)
               | None \<Rightarrow>
                   bindR (Packet_getAddr pkt) (\<lambda>addr.
                   bindR (Packet_isSecure pkt) (\<lambda>is_secure.
                   bindR (TempCacheBlk_insert addr is_secure (c_tempBlock c)) (\<lambda>t.
                     Inr (TempBlk, c\<lparr>c_tempBlock := t\<rparr>)))))))"

definition handleFill :: "('u, 'm) cache_env \<Rightarrow> Packet \<Rightarrow> blkptr option \<Rightarrow> Packet list \<Rightarrow> bool \<Rightarrow> ('u, 'm) BaseCache \<Rightarrow>
    (blkptr \<times> ('u, 'm) BaseCache) result" where
  "handleFill env pkt blk writebacks allocate c =
     check ''pkt->isResponse()'' (Packet_isResponse pkt)
      (bindR (Packet_getAddr pkt) (\<lambda>addr.
       bindR (Packet_isSecure pkt) (\<lambda>is_secure.
       bindR (blk_isValid blk c) (\<lambda>has_old_data.
       bindR (blk_print env blk c) (\<lambda>old_state.
       bindR (Packet_getBlockAddr (c_blkSize c) pkt) (\<lambda>ba.
       check ''addr == pkt->getBlockAddr(blkSize)'' (addr = ba)
      (bindR (wb_findMatch addr is_secure c) (\<lambda>w.
       check ''!writeBuffer.findMatch(addr, is_secure)'' (w = None)
      (bindR (fill_target env pkt blk writebacks allocate c) (\<lambda>(p, c).
       bindR (get_blk p c) (\<lambda>b.
       check ''blk->isValid()'' (TaggedEntry_isValid b)
      (check ''blk->isSecure() == is_secure'' (TaggedEntry_isSecure b = is_secure)
      (bindR (cache_regenerateBlkAddr p c) (\<lambda>ra.
       check ''regenerateBlkAddr(blk) == addr'' (ra = addr)
      (bindR (blk_setCoherenceBits ReadableBit p c) (\<lambda>c.
       check ''!pkt->hasSharers()'' (p_cmd pkt = InvalidateResp \<longrightarrow> \<not> Packet_hasSharers pkt)
      (bindR (if \<not> Packet_hasSharers pkt then
                bindR (blk_setCoherenceBits WritableBit p c) (\<lambda>c.
                  if Packet_cacheResponding pkt then
                    bindR (blk_setCoherenceBits DirtyBit p c) (\<lambda>c.
                      check ''Should never see dirty snoop response in read-only cache'' (\<not> c_isReadOnly c) (Inr c))
                  else Inr c)
              else Inr c) (\<lambda>c.
       if Packet_isRead pkt then
         check ''pkt->hasData()'' (Packet_hasData pkt)
           (bindR (Packet_getSize pkt) (\<lambda>sz.
            check ''pkt->getSize() == blkSize'' (sz = c_blkSize c)
              (Inr (p, updateBlockData p pkt has_old_data c))))
       else Inr (p, c)))))))))))))))))))"

section \<open>Responses\<close>

definition cache_delete :: "Packet option \<Rightarrow> ('u, 'm) BaseCache \<Rightarrow> ('u, 'm) BaseCache result" where
  "cache_delete pkt c = bindR (delete_pkt pkt (c_heap c)) (\<lambda>h. Inr (c\<lparr>c_heap := h\<rparr>))"

definition answer :: "Packet \<Rightarrow> Packet \<Rightarrow> ('u, 'm) BaseCache \<Rightarrow> ('u, 'm) BaseCache result" where
  "answer pkt tgt_pkt c =
     bindR (Packet_makeTimingResponse tgt_pkt) (\<lambda>r.
     bindR (if Packet_isError pkt then Packet_copyError pkt r else Inr r) (\<lambda>r.
       Inr (c\<lparr>c_answered := c_answered c @ [r\<lparr>p_headerDelay := 0, p_payloadDelay := 0\<rparr>]\<rparr>)))"

fun service_loop :: "Packet \<Rightarrow> blkptr option \<Rightarrow> Target list \<Rightarrow> bool \<times> bool \<Rightarrow> ('u, 'm) BaseCache \<Rightarrow>
    ((bool \<times> bool) \<times> ('u, 'm) BaseCache) result" where
  "service_loop pkt blk [] from c = Inr (from, c)"
| "service_loop pkt blk (t # ts) from c =
     (case mt_source t of
        FromCPU \<Rightarrow>
          bindR (satisfyRequest (tg_pkt t) blk c) (\<lambda>c.
          bindR (Packet_getOffset (c_blkSize c) (tg_pkt t)) (\<lambda>_.
          check ''tgt_pkt->req->requestorId() < maxRequestors''
            (ucast (Request_requestorId (p_req (tg_pkt t))) < maxRequestors)
            (bindR (answer pkt (tg_pkt t) c) (\<lambda>c. service_loop pkt blk ts (True, snd from) c))))
      | FromPrefetcher \<Rightarrow>
          check ''tgt_pkt->cmd == MemCmd::HardPFReq'' (p_cmd (tg_pkt t) = HardPFReq)
            (bindR (cache_delete (Some (tg_pkt t)) c) (\<lambda>c. service_loop pkt blk ts (fst from, True) c))
      | FromSnoop \<Rightarrow> Inl (AssertFail ''Illegal target->source enum''))"

definition get_mshr :: "nat \<Rightarrow> ('u, 'm) BaseCache \<Rightarrow> MSHR" where
  "get_mshr i c = entry_at (c_mshrQueue c) i"

definition put_mshr :: "nat \<Rightarrow> MSHR \<Rightarrow> ('u, 'm) BaseCache \<Rightarrow> ('u, 'm) BaseCache" where
  "put_mshr i m c = c\<lparr>c_mshrQueue := set_entry i m (c_mshrQueue c)\<rparr>"

definition serviceMSHRTargets :: "('u, 'm) cache_env \<Rightarrow> nat \<Rightarrow> Packet \<Rightarrow> blkptr option \<Rightarrow> ('u, 'm) BaseCache \<Rightarrow>
    ('u, 'm) BaseCache result" where
  "serviceMSHRTargets env i pkt blk c =
     bindR (MSHR_getTarget (get_mshr i c)) (\<lambda>t.
     bindR (Packet_getOffset (c_blkSize c) (tg_pkt t)) (\<lambda>_.
     bindR (extractServiceableTargets (env_list_junk env) pkt (get_mshr i c)) (\<lambda>(tgs, m).
     bindR (service_loop pkt blk (tl_targets tgs) (False, False) (put_mshr i m c)) (\<lambda>((from_core, from_pref), c).
     bindR (case blk of
              Some p \<Rightarrow> if \<not> from_core \<and> from_pref
                        then bindR (get_blk p c) (\<lambda>b. Inr (put_blk p (CacheBlk_setPrefetched b) c)) else Inr c
            | None \<Rightarrow> Inr c) (\<lambda>c.
       check ''mshr->getNumTargets() == 0'' (MSHR_getNumTargets (get_mshr i c) = 0) (Inr c))))))"

text \<open>The three stages of \<open>BaseCache::recvTimingResp\<close> after the register has been found.\<close>

definition resp_fill :: "('u, 'm) cache_env \<Rightarrow> Packet \<Rightarrow> nat \<Rightarrow> ('u, 'm) BaseCache \<Rightarrow>
    (blkptr option \<times> ('u, 'm) BaseCache) result" where
  "resp_fill env pkt i c =
     (let mshr = get_mshr i c;
          is_fill = (\<not> m_isForward mshr \<and>
            (Packet_isRead pkt \<or> p_cmd pkt = UpgradeResp \<or> m_wasWholeLineWrite mshr))
      in check ''!mshr->wasWholeLineWrite || pkt->isInvalidate()''
           (\<not> m_wasWholeLineWrite mshr \<or> Packet_isInvalidate pkt)
          (bindR (Packet_getAddr pkt) (\<lambda>addr.
           bindR (Packet_isSecure pkt) (\<lambda>is_secure.
           bindR (cache_findBlock addr is_secure c) (\<lambda>blk.
             if is_fill \<and> \<not> Packet_isError pkt then
               let allocate = (case c_writeAllocator c of
                     Some w \<Rightarrow> if m_wasWholeLineWrite mshr then WriteAllocator_allocate w else MSHR_allocOnFill mshr
                   | None \<Rightarrow> MSHR_allocOnFill mshr)
               in bindR (handleFill env pkt blk [] allocate c) (\<lambda>(p, c). Inr (Some p, c))
             else Inr (blk, c))))))"

definition resp_promote :: "('u, 'm) cache_env \<Rightarrow> Packet \<Rightarrow> nat \<Rightarrow> blkptr option \<Rightarrow> ('u, 'm) BaseCache \<Rightarrow>
    ('u, 'm) BaseCache result" where
  "resp_promote env pkt i blk c =
     (if \<not> hasLockedRMWReadTarget (get_mshr i c) then
        bindR (blk_isValid blk c) (\<lambda>v.
        bindR (case blk of
                 Some p \<Rightarrow>
                   if v \<and> Packet_isClean pkt \<and> \<not> Packet_isInvalidate pkt then
                     bindR (blk_setCoherenceBits ReadableBit p c) (\<lambda>c.
                     bindR (promoteReadable (env_up env) (get_mshr i c) (c_up c)) (\<lambda>(m, u).
                       Inr ((put_mshr i m c)\<lparr>c_up := u\<rparr>)))
                   else Inr c
               | None \<Rightarrow> Inr c) (\<lambda>c.
        bindR (blk_isSet WritableBit blk c) (\<lambda>w.
          if w \<and> \<not> Request_isCacheInvalidate (p_req pkt) then
            bindR (promoteWritable (env_up env) (get_mshr i c) (c_up c)) (\<lambda>(m, u).
              Inr ((put_mshr i m c)\<lparr>c_up := u\<rparr>))
          else Inr c)))
      else Inr c)"

definition resp_release :: "nat \<Rightarrow> blkptr option \<Rightarrow> ('u, 'm) BaseCache \<Rightarrow> ('u, 'm) BaseCache result" where
  "resp_release i blk c =
     bindR (promoteDeferredTargets curTick (get_mshr i c)) (\<lambda>(promoted, m).
       let c = put_mshr i m c
       in if promoted then
            bindR (case blk of Some p \<Rightarrow> blk_clearCoherenceBits ReadableBit p c | None \<Rightarrow> Inr c) (\<lambda>c.
            bindR (markPending i (c_mshrQueue c)) (\<lambda>q. Inr (c\<lparr>c_mshrQueue := q\<rparr>)))
          else
            let was_full = Queue_isFull (c_mshrQueue c)
            in bindR (MSHRQueue_deallocate i (c_mshrQueue c)) (\<lambda>q.
                 let c = c\<lparr>c_mshrQueue := q\<rparr>;
                     c = (if was_full \<and> \<not> Queue_isFull (c_mshrQueue c) then clearBlocked Blocked_NoMSHRs c else c)
                 in Inr (if c_prefetcher c \<noteq> None \<and> canPrefetch (c_demandReserve c) (c_mshrQueue c) \<and> \<not> isBlocked c
                         then schedMemSideSendEvent 0 c else c)))"

definition BaseCache_recvTimingResp :: "('u, 'm) cache_env \<Rightarrow> Packet \<Rightarrow> ('u, 'm) BaseCache \<Rightarrow> ('u, 'm) BaseCache result" where
  "BaseCache_recvTimingResp env pkt c =
     check ''pkt->isResponse()'' (Packet_isResponse pkt)
    (check ''0'' (p_cmd pkt \<noteq> HardPFResp)
    (log_pkt pkt
      (if Packet_isWrite pkt \<and> p_cmd pkt \<noteq> LockedRMWWriteResp then
         check ''pkt->req->isUncacheable()'' (Request_isUncacheable (p_req pkt))
           (Inr (handleUncacheableWriteResp pkt c))
       else
         bindR (Packet_popSenderState (c_links c) pkt) (\<lambda>(i, links, pkt).
         check ''mshr'' (i < length (q_entries (c_mshrQueue c)))
           (let c = c\<lparr>c_links := links\<rparr>;
                c = (if c_noTargetMSHR c = Some i then (clearBlocked Blocked_NoTargets c)\<lparr>c_noTargetMSHR := None\<rparr> else c)
            in bindR (MSHR_getTarget (get_mshr i c)) (\<lambda>initial_tgt.
               bindR (resp_fill env pkt i c) (\<lambda>(blk, c).
               bindR (resp_promote env pkt i blk c) (\<lambda>c.
               bindR (serviceMSHRTargets env i pkt blk c) (\<lambda>c.
               bindR (if \<not> hasLockedRMWReadTarget (get_mshr i c) then
                        bindR (resp_release i blk c) (\<lambda>c.
                          if blk = Some TempBlk \<and> TaggedEntry_isValid (c_tempBlock c)
                          then bindR (evictBlock_to env TempBlk [] c) (\<lambda>(_, c). Inr c) else Inr c)
                      else Inr c) (\<lambda>c.
                 log_pkt pkt (cache_delete (Some pkt) c))))))))))) "

definition recvTimingResp :: "('u, 'm) cache_env \<Rightarrow> Packet \<Rightarrow> ('u, 'm) BaseCache \<Rightarrow> ('u, 'm) BaseCache result" where
  "recvTimingResp env pkt c =
     check ''pkt->isResponse()'' (Packet_isResponse pkt)
    (check ''pkt->isRead()'' (Packet_isRead pkt)
    (check ''pkt->cmd != MemCmd::UpgradeResp'' (p_cmd pkt \<noteq> UpgradeResp)
    (check ''!pkt->isInvalidate()'' (\<not> Packet_isInvalidate pkt)
    (check ''!pkt->hasSharers()'' (\<not> Packet_hasSharers pkt)
      (BaseCache_recvTimingResp env pkt c)))))"

definition handleTimingRes :: "('u, 'm) cache_env \<Rightarrow> Packet \<Rightarrow> ('u, 'm) BaseCache \<Rightarrow> ('u, 'm) BaseCache result" where
  "handleTimingRes env pkt c =
     (let cmd = (if Packet_isRead pkt then ReadExResp else WriteResp)
      in bindR (Packet_getSize pkt) (\<lambda>sz.
         bindR (Packet_new_blk (fst (env_junk env)) (fst (snd (env_junk env))) (p_req pkt) cmd sz (p_id pkt)) (\<lambda>p.
         bindR (Packet_getPtr pkt) (\<lambda>d.
         bindR (Packet_dataStatic d p) (\<lambda>p.
           recvTimingResp env (p\<lparr>p_senderState := p_senderState pkt\<rparr>) c)))))"

section \<open>Sending misses\<close>

definition createMissPacket :: "('u, 'm) cache_env \<Rightarrow> Packet \<Rightarrow> blkptr option \<Rightarrow> bool \<Rightarrow> bool \<Rightarrow> ('u, 'm) BaseCache \<Rightarrow>
    (Packet option \<times> heap) result" where
  "createMissPacket env cpu_pkt blk needs_writable is_whole_line_write c =
     check ''cpu_pkt->needsResponse()'' (Packet_needsResponse cpu_pkt)
      (bindR (blk_isValid blk c) (\<lambda>v.
       check ''!blk || !blk->isValid()'' (\<not> v)
      (bindR (Packet_new_blk (fst (env_junk env)) (fst (snd (env_junk env))) (p_req cpu_pkt) ReadReq (c_blkSize c) 0) (\<lambda>pkt.
       bindR (Packet_getAddr pkt) (\<lambda>a.
       bindR (Packet_getBlockAddr (c_blkSize c) pkt) (\<lambda>ba.
       check ''pkt->getAddr() == pkt->getBlockAddr(blkSize)'' (a = ba)
      (bindR (Packet_allocate (snd (snd (env_junk env))) (c_heap c) pkt) (\<lambda>(h, pkt).
         log_pkt pkt (log_pkt cpu_pkt (Inr (Some pkt, h)))))))))))"

definition write_coalescing :: "nat \<Rightarrow> Packet \<Rightarrow> ('u, 'm) BaseCache \<Rightarrow> bool \<times> ('u, 'm) BaseCache" where
  "write_coalescing i tgt_pkt c =
     (case c_writeAllocator c of
        None \<Rightarrow> (False, c)
      | Some w \<Rightarrow>
          if WriteAllocator_coalesce w \<and> Packet_isWrite tgt_pkt then
            if \<not> MSHR_isWholeLineWrite (get_mshr i c) then
              case WriteAllocator_delay (qe_blkAddr (get_mshr i c)) w of
                (True, w) \<Rightarrow> (True, c\<lparr>c_writeAllocator := Some w\<rparr>)
              | (False, w) \<Rightarrow> (False, c\<lparr>c_writeAllocator := Some (WriteAllocator_reset w)\<rparr>)
            else (False, c\<lparr>c_writeAllocator := Some (WriteAllocator_resetDelay (qe_blkAddr (get_mshr i c)) w)\<rparr>)
          else (False, c))"

definition miss_packet :: "('u, 'm) cache_env \<Rightarrow> nat \<Rightarrow> Packet \<Rightarrow> blkptr option \<Rightarrow> ('u, 'm) BaseCache \<Rightarrow>
    (Packet \<times> ('u, 'm) BaseCache) result" where
  "miss_packet env i tgt_pkt blk c =
     bindR (createMissPacket env tgt_pkt blk (MSHR_needsWritable (get_mshr i c)) (MSHR_isWholeLineWrite (get_mshr i c)) c)
       (\<lambda>(pkt, h).
          let c = (put_mshr i ((get_mshr i c)\<lparr>m_isForward := (pkt = None)\<rparr>) c)\<lparr>c_heap := h\<rparr>
          in case pkt of
               Some p \<Rightarrow> Inr (p, c)
             | None \<Rightarrow>
                 bindR (Packet_copy (env_clone env) (fst (env_junk env), snd (snd (env_junk env))) h tgt_pkt False True) (\<lambda>(h, p).
                   check ''!pkt->isWrite()'' (\<not> Packet_isWrite p) (Inr (p, c\<lparr>c_heap := h\<rparr>))))"

definition sendMSHRQueuePacket :: "('u, 'm) cache_env \<Rightarrow> nat \<Rightarrow> ('u, 'm) BaseCache \<Rightarrow> (bool \<times> ('u, 'm) BaseCache) result" where
  "sendMSHRQueuePacket env i c =
     bindR (MSHR_getTarget (get_mshr i c)) (\<lambda>t.
       let tgt_pkt = tg_pkt t
       in log_pkt tgt_pkt (case write_coalescing i tgt_pkt c of (delayed, c) \<Rightarrow>
          if delayed then Inr (False, c)
          else
            bindR (cache_findBlock (qe_blkAddr (get_mshr i c)) (qe_isSecure (get_mshr i c)) c) (\<lambda>blk.
            bindR (miss_packet env i tgt_pkt blk c) (\<lambda>(pkt, c).
            bindR (Packet_pushSenderState (Some i) (c_links c) pkt) (\<lambda>(links, pkt).
              let c = c\<lparr>c_links := links\<rparr>
              in bindR (blk_isSet DirtyBit blk c) (\<lambda>dirty.
                 bindR (if Packet_isClean pkt \<and> dirty then Packet_setSatisfied pkt else Inr pkt) (\<lambda>pkt.
                 bindR (env_sendTimingReq env pkt (c_heap c) (c_below c)) (\<lambda>(sent, h, m).
                   let c = c\<lparr>c_heap := h, c_below := m\<rparr>
                   in if sent then
                        bindR (handleTimingRes env pkt c) (\<lambda>c.
                        bindR (cache_delete (Some pkt) c) (\<lambda>c. Inr (True, c)))
                      else
                        let pending_modified_resp = (\<not> Packet_hasSharers pkt \<and> Packet_cacheResponding pkt)
                        in bindR (markInService_mshr env i pending_modified_resp c) (\<lambda>c.
                           bindR (blk_isSet DirtyBit blk c) (\<lambda>dirty.
                             if Packet_isClean pkt \<and> dirty then log_pkt pkt (bindR (blk_print env blk c) (\<lambda>_. Inr (False, c)))
                             else Inr (False, c)))))))))))"

text \<open>The return statement of \<open>sendWriteQueuePacket\<close> is commented out with its body.\<close>

definition sendWriteQueuePacket :: "nat \<Rightarrow> ('u, 'm) BaseCache \<Rightarrow> (bool \<times> ('u, 'm) BaseCache) result" where
  "sendWriteQueuePacket i c =
     bindR (WriteQueueEntry_getTarget (entry_at (c_writeBuffer c) i)) (\<lambda>t. Inl (Undef ''no return value''))"

datatype queue_ref = MissEntry nat | WriteEntry nat

definition prefetch_entry :: "('u, 'm) cache_env \<Rightarrow> ('u, 'm) BaseCache \<Rightarrow> (queue_ref option \<times> ('u, 'm) BaseCache) result" where
  "prefetch_entry env c =
     (case c_prefetcher c of
        None \<Rightarrow> Inr (None, c)
      | Some pf \<Rightarrow>
          if canPrefetch (c_demandReserve c) (c_mshrQueue c) \<and> \<not> isBlocked c then
            bindR (Queued_getPacket pf) (\<lambda>(pkt, pf).
              let c = c\<lparr>c_prefetcher := Some pf\<rparr>
              in case pkt of
                   None \<Rightarrow> Inr (None, c)
                 | Some pkt \<Rightarrow>
                     bindR (Packet_getBlockAddr (c_blkSize c) pkt) (\<lambda>pf_addr.
                     bindR (Packet_isSecure pkt) (\<lambda>is_secure.
                     bindR (cache_findBlock pf_addr is_secure c) (\<lambda>b.
                     bindR (if b \<noteq> None then Inr True
                            else bindR (mshr_findMatch pf_addr is_secure True c) (\<lambda>m.
                                   if m \<noteq> None then Inr True
                                   else bindR (wb_findMatch pf_addr is_secure c) (\<lambda>w. Inr (w \<noteq> None)))) (\<lambda>present.
                       if present then bindR (cache_delete (Some pkt) c) (\<lambda>c. Inr (None, c))
                       else check ''pkt->req->requestorId() < maxRequestors''
                              (ucast (Request_requestorId (p_req pkt)) < maxRequestors)
                              (bindR (allocateMissBuffer env pkt curTick False c) (\<lambda>(i, c).
                                 Inr (Some (MissEntry i), c))))))))
          else Inr (None, c))"

definition getNextQueueEntry :: "('u, 'm) cache_env \<Rightarrow> ('u, 'm) BaseCache \<Rightarrow> (queue_ref option \<times> ('u, 'm) BaseCache) result" where
  "getNextQueueEntry env c =
     (let miss_mshr = getNext curTick (c_mshrQueue c);
          wq_entry = getNext curTick (c_writeBuffer c);
          write_first = (\<lambda>w.
            bindR (findPending (\<lambda>m e. MSHR_conflictAddr (WriteQueueEntry_matchBlockAddr e) m)
                     (entry_at (c_writeBuffer c) w) (c_mshrQueue c)) (\<lambda>conflict.
              case conflict of
                None \<Rightarrow> Inr (Some (WriteEntry w), c)
              | Some i \<Rightarrow>
                  if qe_order (get_mshr i c) < qe_order (entry_at (c_writeBuffer c) w)
                  then Inr (Some (MissEntry i), c) else Inr (Some (WriteEntry w), c)));
          miss_first = (\<lambda>i.
            bindR (findPending (\<lambda>e m. WriteQueueEntry_conflictAddr (MSHR_matchBlockAddr m) e)
                     (get_mshr i c) (c_writeBuffer c)) (\<lambda>conflict.
              case conflict of
                None \<Rightarrow> Inr (Some (MissEntry i), c)
              | Some w \<Rightarrow> Inr (Some (WriteEntry w), c)))
      in case (wq_entry, miss_mshr) of
           (Some w, None) \<Rightarrow> write_first w
         | (Some w, Some i) \<Rightarrow> if Queue_isFull (c_writeBuffer c) then write_first w else miss_first i
         | (None, Some i) \<Rightarrow> miss_first i
         | (None, None) \<Rightarrow> prefetch_entry env c)"

definition sendPacket :: "('u, 'm) cache_env \<Rightarrow> queue_ref \<Rightarrow> ('u, 'm) BaseCache \<Rightarrow> (bool \<times> ('u, 'm) BaseCache) result" where
  "sendPacket env entry c =
     (case entry of MissEntry i \<Rightarrow> sendMSHRQueuePacket env i c | WriteEntry i \<Rightarrow> sendWriteQueuePacket i c)"

definition cache_sendDeferredPacket :: "('u, 'm) cache_env \<Rightarrow> ('u, 'm) BaseCache \<Rightarrow> ('u, 'm) BaseCache result" where
  "cache_sendDeferredPacket env c =
     check ''!waitingOnRetry'' (\<not> pq_waitingOnRetry (c_reqPacketQueue c))
       (bindR (getNextQueueEntry env c) (\<lambda>(entry, c).
        bindR (case entry of
                 None \<Rightarrow> Inr c
               | Some e \<Rightarrow> bindR (sendPacket env e c) (\<lambda>(r, c).
                   Inr (c\<lparr>c_reqPacketQueue := (c_reqPacketQueue c)\<lparr>pq_waitingOnRetry := r\<rparr>\<rparr>))) (\<lambda>c.
          Inr (if \<not> pq_waitingOnRetry (c_reqPacketQueue c) then schedMemSideSendEvent (nextQueueReadyTime c) c else c))))"

text \<open>What the process of the queue does when the send event has been notified.\<close>

definition cache_processSendEvent :: "('u, 'm) cache_env \<Rightarrow> ('u, 'm) BaseCache \<Rightarrow> ('u, 'm) BaseCache result" where
  "cache_processSendEvent env c =
     check ''!waitingOnRetry'' (\<not> pq_waitingOnRetry (c_reqPacketQueue c)) (cache_sendDeferredPacket env c)"

definition cache_retry :: "('u, 'm) cache_env \<Rightarrow> ('u, 'm) BaseCache \<Rightarrow> ('u, 'm) BaseCache result" where
  "cache_retry env c =
     check ''waitingOnRetry'' (pq_waitingOnRetry (c_reqPacketQueue c))
       (cache_sendDeferredPacket env (c\<lparr>c_reqPacketQueue := (c_reqPacketQueue c)\<lparr>pq_waitingOnRetry := False\<rparr>\<rparr>))"

end
