(* ===== verification/Cache_Access.thy ===== *)
theory Cache_Access
  imports Cache_Response Global_Memory
begin

text \<open>
  What happens to a request that arrives at the cache: \<open>access\<close>, the handlers of hits and misses and
  \<open>recvTimingReq\<close>, of \<open>BaseCache\<close> (\<open>cache/cache_base.cpp\<close>) and of \<open>NoncoherentCache\<close>
  (\<open>cache/cache_noncoherent.cpp\<close>). The cache of the program is the L0 of \<open>top/include/l0.h\<close>, whose
  \<open>sendTimingReq\<close> is that of \<open>Initiator\<close> on the global memory: \<open>L0_env\<close>. The counters of hits and misses
  are commented out. A request is a value of its packet, so what \<open>access\<close> writes to it is returned.
\<close>

section \<open>Hits and misses\<close>

definition reset_pendingDelete :: "Packet \<Rightarrow> ('u, 'm) BaseCache \<Rightarrow> ('u, 'm) BaseCache result" where
  "reset_pendingDelete pkt c =
     bindR (cache_delete (c_pendingDelete c) c) (\<lambda>c. Inr (c\<lparr>c_pendingDelete := Some pkt\<rparr>))"

definition locked_rmw_hit :: "('u, 'm) cache_env \<Rightarrow> Packet \<Rightarrow> blkptr option \<Rightarrow> ('u, 'm) BaseCache \<Rightarrow> ('u, 'm) BaseCache result" where
  "locked_rmw_hit env pkt blk c =
     bindR (Packet_getBlockAddr (c_blkSize c) pkt) (\<lambda>blk_addr.
     bindR (Packet_isSecure pkt) (\<lambda>is_secure.
     bindR (check ''pkt->isWrite()'' (Packet_isRead pkt \<or> Packet_isWrite pkt)
              (mshr_findMatch blk_addr is_secure True c)) (\<lambda>found.
       if Packet_isRead pkt then
         check ''!mshrQueue.findMatch(blk_addr, pkt->isSecure())'' (found = None)
           (bindR (Packet_new (fst (env_junk env)) (fst (snd (env_junk env)))
                     (Request_copy (env_clone env) (p_req pkt)) (p_cmd pkt)) (\<lambda>pkt2.
            bindR (allocateMissBuffer env pkt2 curTick True c) (\<lambda>(i, c).
            bindR (MSHRQueue_markInService (env_up env) i False (c_mshrQueue c) (c_up c)) (\<lambda>(q, u).
            case blk of
              None \<Rightarrow> Inl (AssertFail ''blk'')
            | Some p \<Rightarrow>
                bindR (blk_clearCoherenceBits ReadableBit p (c\<lparr>c_mshrQueue := q, c_up := u\<rparr>)) (\<lambda>c.
                  blk_clearCoherenceBits WritableBit p c)))))
       else
         case found of
           None \<Rightarrow> Inl (AssertFail ''mshr'')
         | Some i \<Rightarrow>
             bindR (Packet_new (fst (env_junk env)) (fst (snd (env_junk env))) (p_req pkt) LockedRMWWriteResp) (\<lambda>resp_pkt.
               recvTimingResp env (resp_pkt\<lparr>p_senderState := Some i\<rparr>) c))))"

definition handleTimingReqHit :: "('u, 'm) cache_env \<Rightarrow> Packet \<Rightarrow> blkptr option \<Rightarrow> Tick \<Rightarrow> ('u, 'm) BaseCache \<Rightarrow>
    ('u, 'm) BaseCache result" where
  "handleTimingReqHit env pkt blk request_time c =
     bindR (if Packet_isLockedRMW pkt then locked_rmw_hit env pkt blk c else Inr c) (\<lambda>c.
       if Packet_needsResponse pkt then
         bindR (Packet_makeTimingResponse pkt) (\<lambda>r. Inr (c\<lparr>c_answered := c_answered c @ [r]\<rparr>))
       else reset_pendingDelete pkt c)"

definition coalesce_target :: "('u, 'm) cache_env \<Rightarrow> Packet \<Rightarrow> nat \<Rightarrow> Tick \<Rightarrow> ('u, 'm) BaseCache \<Rightarrow> ('u, 'm) BaseCache result" where
  "coalesce_target env pkt i forward_time c =
     check ''pkt->req->requestorId() < maxRequestors'' (ucast (Request_requestorId (p_req pkt)) < maxRequestors)
       (bindR (MSHR_allocateTarget (env_up env) curTick (snd (snd (env_junk env))) (c_heap c) pkt forward_time (c_order c)
                 (allocOnFill (p_cmd pkt)) (get_mshr i c) (c_up c)) (\<lambda>(h, m, u).
          let c = (put_mshr i m c)\<lparr>c_heap := h, c_up := u, c_order := c_order c + 1\<rparr>
          in Inr (if int (MSHR_getNumTargets (get_mshr i c)) \<ge> c_numTarget c
                  then setBlocked Blocked_NoTargets (c\<lparr>c_noTargetMSHR := Some i\<rparr>) else c)))"

definition BaseCache_handleTimingReqMiss :: "('u, 'm) cache_env \<Rightarrow> Packet \<Rightarrow> nat option \<Rightarrow> blkptr option \<Rightarrow> Tick \<Rightarrow> Tick \<Rightarrow>
    ('u, 'm) BaseCache \<Rightarrow> ('u, 'm) BaseCache result" where
  "BaseCache_handleTimingReqMiss env pkt mshr blk forward_time request_time c =
     bindR (case c_writeAllocator c of
              None \<Rightarrow> Inr c
            | Some w \<Rightarrow>
                if Packet_isWrite pkt \<and> \<not> Request_isUncacheable (p_req pkt) then
                  bindR (Packet_getAddr pkt) (\<lambda>a.
                  bindR (Packet_getSize pkt) (\<lambda>sz.
                  bindR (Packet_getBlockAddr (c_blkSize c) pkt) (\<lambda>ba.
                    Inr (c\<lparr>c_writeAllocator := Some (updateMode a sz ba w)\<rparr>))))
                else Inr c) (\<lambda>c.
     case mshr of
       Some i \<Rightarrow>
         check ''!pkt->isWriteback()'' (\<not> Packet_isWriteback pkt)
           (if p_cmd pkt = CleanEvict then reset_pendingDelete pkt c
            else if p_cmd pkt = WriteClean then allocateWriteBuffer pkt forward_time c
            else log_pkt pkt (coalesce_target env pkt i forward_time c))
     | None \<Rightarrow>
         check ''pkt->req->requestorId() < maxRequestors'' (ucast (Request_requestorId (p_req pkt)) < maxRequestors)
           (if Packet_isEviction pkt then allocateWriteBuffer pkt forward_time c
            else
              bindR (blk_isValid blk c) (\<lambda>v.
              bindR (case blk of
                       Some p \<Rightarrow>
                         if v then
                           bindR (Packet_needsWritable pkt) (\<lambda>nw.
                           bindR (blk_isSet WritableBit blk c) (\<lambda>w.
                             check ''(pkt->needsWritable() && !blk->isSet(CacheBlk::WritableBit)) || pkt->req->isCacheMaintenance()''
                               (nw \<and> \<not> w \<or> Request_isCacheMaintenance (p_req pkt))
                               (blk_clearCoherenceBits ReadableBit p c)))
                         else Inr c
                     | None \<Rightarrow> Inr c) (\<lambda>c.
              bindR (allocateMissBuffer env pkt forward_time True c) (\<lambda>(_, c). Inr c)))))"

definition handleTimingReqMiss :: "('u, 'm) cache_env \<Rightarrow> Packet \<Rightarrow> blkptr option \<Rightarrow> Tick \<Rightarrow> Tick \<Rightarrow> ('u, 'm) BaseCache \<Rightarrow>
    ('u, 'm) BaseCache result" where
  "handleTimingReqMiss env pkt blk forward_time request_time c =
     bindR (Packet_getBlockAddr (c_blkSize c) pkt) (\<lambda>blk_addr.
     bindR (Packet_isSecure pkt) (\<lambda>is_secure.
     bindR (mshr_findMatch blk_addr is_secure False c) (\<lambda>mshr.
     bindR (blk_isValid blk c) (\<lambda>v.
       check ''mshr || !blk || !blk->isValid()'' (mshr \<noteq> None \<or> \<not> v)
         (BaseCache_handleTimingReqMiss env pkt mshr blk forward_time request_time c)))))"

section \<open>Accesses\<close>

record access_result =
  ar_satisfied :: bool
  ar_blk :: "blkptr option"
  ar_lat :: Cycles
  ar_pkt :: Packet

text \<open>
  An eviction that finds the block in the write buffer: a clean one is dropped (\<open>None\<close> means that
  \<open>access\<close> goes on).
\<close>

definition set_wq_pkt :: "nat \<Rightarrow> Packet \<Rightarrow> ('u, 'm) BaseCache \<Rightarrow> ('u, 'm) BaseCache" where
  "set_wq_pkt i pkt c =
     (let e = entry_at (c_writeBuffer c) i
      in c\<lparr>c_writeBuffer := set_entry i (e\<lparr>w_targets := (w_targets e)[0 := (w_targets e ! 0)\<lparr>tg_pkt := pkt\<rparr>]\<rparr>) (c_writeBuffer c)\<rparr>)"

definition access_eviction :: "Packet \<Rightarrow> ('u, 'm) BaseCache \<Rightarrow> (bool \<times> ('u, 'm) BaseCache) result" where
  "access_eviction pkt c =
     bindR (Packet_getAddr pkt) (\<lambda>a.
     bindR (Packet_isSecure pkt) (\<lambda>s.
     bindR (wb_findMatch a s c) (\<lambda>wb_entry.
       case wb_entry of
         None \<Rightarrow> Inr (False, c)
       | Some i \<Rightarrow>
           check ''wb_entry->getNumTargets() == 1'' (WriteQueueEntry_getNumTargets (entry_at (c_writeBuffer c) i) = 1)
             (bindR (WriteQueueEntry_getTarget (entry_at (c_writeBuffer c) i)) (\<lambda>t.
              check ''wbPkt->isWriteback()'' (Packet_isWriteback (tg_pkt t))
                (if Packet_isCleanEviction pkt then
                   Inr (True, set_wq_pkt i (Packet_clearBlockCached (tg_pkt t)) c)
                 else
                   check ''pkt->cmd == MemCmd::WritebackDirty'' (p_cmd pkt = WritebackDirty)
                     (bindR (markInService_wq i c) (\<lambda>c.
                      bindR (cache_delete (Some (tg_pkt t)) c) (\<lambda>c. Inr (False, c)))))))))) "

definition access_writeback :: "('u, 'm) cache_env \<Rightarrow> Packet \<Rightarrow> blkptr option \<Rightarrow> ('u, 'm) BaseCache \<Rightarrow>
    (bool \<times> blkptr option \<times> ('u, 'm) BaseCache) result" where
  "access_writeback env pkt blk c =
     bindR (Packet_getSize pkt) (\<lambda>sz.
     check ''blkSize == pkt->getSize()'' (c_blkSize c = sz)
    (bindR (Packet_getAddr pkt) (\<lambda>a.
     bindR (Packet_isSecure pkt) (\<lambda>s.
     bindR (if p_cmd pkt = WritebackClean then mshr_findMatch a s True c else Inr None) (\<lambda>m.
       if m \<noteq> None then Inr (True, blk, c)
       else
         bindR (blk_isValid blk c) (\<lambda>has_old_data.
         bindR (case blk of
                  Some p \<Rightarrow> Inr (Some p, c)
                | None \<Rightarrow>
                    bindR (allocateBlock env pkt [] c) (\<lambda>(b, c).
                      case b of
                        None \<Rightarrow> Inr (None, c)
                      | Some p \<Rightarrow> bindR (blk_setCoherenceBits ReadableBit p c) (\<lambda>c. Inr (Some p, c)))) (\<lambda>(blk, c).
           case blk of
             None \<Rightarrow> Inr (False, None, c)
           | Some p \<Rightarrow>
               bindR (if p_cmd pkt = WritebackDirty then blk_setCoherenceBits DirtyBit p c else Inr c) (\<lambda>c.
               bindR (if \<not> Packet_hasSharers pkt then blk_setCoherenceBits WritableBit p c else Inr c) (\<lambda>c.
                 check ''!pkt->needsResponse()'' (\<not> Packet_needsResponse pkt)
                   (Inr (True, Some p, updateBlockData p pkt has_old_data c)))))))))))"

definition BaseCache_access :: "('u, 'm) cache_env \<Rightarrow> Packet \<Rightarrow> ('u, 'm) BaseCache \<Rightarrow>
    (access_result \<times> ('u, 'm) BaseCache) result" where
  "BaseCache_access env pkt c =
     check ''pkt->isRequest()'' (Packet_isRequest pkt)
    (check ''Should never see a write in a read-only cache'' (\<not> (c_isReadOnly c \<and> Packet_isWrite pkt))
    (bindR (accessBlock pkt (c_tags c)) (\<lambda>(b, tag_latency, T).
       let c = c\<lparr>c_tags := T\<rparr>; blk = map_option TagBlk b
       in log_pkt pkt (bindR (blk_print env blk c) (\<lambda>_.
          bindR (if Packet_isEviction pkt then access_eviction pkt c else Inr (False, c)) (\<lambda>(dropped, c).
            if dropped then Inr (\<lparr>ar_satisfied = True, ar_blk = blk, ar_lat = 0, ar_pkt = pkt\<rparr>, c)
            else
              let lat = (if Packet_isWrite pkt then tag_latency else 0)
              in if Packet_isWriteback pkt then
                   bindR (access_writeback env pkt blk c) (\<lambda>(r, blk, c).
                     Inr (\<lparr>ar_satisfied = r, ar_blk = blk, ar_lat = lat, ar_pkt = pkt\<rparr>, c))
                 else if p_cmd pkt = CleanEvict then
                   Inr (\<lparr>ar_satisfied = (blk \<noteq> None), ar_blk = blk, ar_lat = tag_latency, ar_pkt = pkt\<rparr>, c)
                 else
                   bindR (if blk = None then Inr False
                          else bindR (Packet_needsWritable pkt) (\<lambda>nw.
                                 blk_isSet (if nw then WritableBit else ReadableBit) blk c)) (\<lambda>hit.
                   case (if hit then blk else None) of
                     Some p \<Rightarrow>
                       bindR (satisfyRequest pkt blk c) (\<lambda>c.
                         Inr (\<lparr>ar_satisfied = True, ar_blk = blk, ar_lat = lat, ar_pkt = pkt\<rparr>,
                              maintainClusivity (Packet_fromCache pkt) p c))
                   | None \<Rightarrow>
                       if blk = None \<and> Packet_isLLSC pkt \<and> Packet_isWrite pkt then
                         Inr (\<lparr>ar_satisfied = True, ar_blk = blk, ar_lat = lat,
                               ar_pkt = pkt\<lparr>p_req := Request_setExtraData 0 (p_req pkt)\<rparr>\<rparr>, c)
                       else Inr (\<lparr>ar_satisfied = False, ar_blk = blk, ar_lat = lat, ar_pkt = pkt\<rparr>, c))))))))"

definition cache_access :: "('u, 'm) cache_env \<Rightarrow> Packet \<Rightarrow> ('u, 'm) BaseCache \<Rightarrow>
    (access_result \<times> ('u, 'm) BaseCache) result" where
  "cache_access env pkt c =
     bindR (BaseCache_access env pkt c) (\<lambda>(r, c).
       if Packet_isWriteback pkt \<or> p_cmd pkt = WriteClean then
         bindR (blk_isValid (ar_blk r) c) (\<lambda>v.
           check ''blk && blk->isValid()'' v
             (case ar_blk r of
                None \<Rightarrow> Inl (AssertFail ''blk && blk->isValid()'')
              | Some p \<Rightarrow> bindR (blk_setCoherenceBits WritableBit p c) (\<lambda>c. Inr (r, c))))
       else Inr (r, c))"

definition BaseCache_recvTimingReq :: "('u, 'm) cache_env \<Rightarrow> Packet \<Rightarrow> ('u, 'm) BaseCache \<Rightarrow> ('u, 'm) BaseCache result" where
  "BaseCache_recvTimingReq env pkt c =
     bindR (if p_cmd pkt = LockedRMWWriteReq then
              bindR (Packet_getAddr pkt) (\<lambda>a.
              bindR (Packet_isSecure pkt) (\<lambda>s.
              bindR (cache_findBlock a s c) (\<lambda>blk.
              bindR (blk_isValid blk c) (\<lambda>v.
              bindR (blk_isSet WritableBit blk c) (\<lambda>w.
              bindR (blk_isSet ReadableBit blk c) (\<lambda>r.
                case blk of
                  None \<Rightarrow> Inl (AssertFail ''blk && blk->isValid()'')
                | Some p \<Rightarrow>
                    check ''blk && blk->isValid()'' v
                   (check ''!blk->isSet(CacheBlk::WritableBit) && !blk->isSet(CacheBlk::ReadableBit)'' (\<not> w \<and> \<not> r)
                     (bindR (blk_setCoherenceBits ReadableBit p c) (\<lambda>c.
                        blk_setCoherenceBits WritableBit p c)))))))))
            else Inr c) (\<lambda>c.
     bindR (cache_access env pkt c) (\<lambda>(r, c).
       let request_time = ar_lat r; pkt = ar_pkt r; blk = ar_blk r
       in bindR (if ar_satisfied r then
                   bindR (case (c_prefetcher c, blk) of
                            (Some pf, Some p) \<Rightarrow>
                              bindR (get_blk p c) (\<lambda>b.
                                Inr (if CacheBlk_wasPrefetched b then put_blk p (CacheBlk_clearPrefetched b) c else c))
                          | _ \<Rightarrow> Inr c) (\<lambda>c.
                     handleTimingReqHit env pkt blk request_time c)
                 else handleTimingReqMiss env pkt blk 0 request_time c) (\<lambda>c.
            Inr (if c_prefetcher c \<noteq> None \<and> ar_lat r \<noteq> MaxTick then schedMemSideSendEvent (ar_lat r) c else c))))"

definition recvTimingReq :: "('u, 'm) cache_env \<Rightarrow> Packet \<Rightarrow> ('u, 'm) BaseCache \<Rightarrow> ('u, 'm) BaseCache result" where
  "recvTimingReq env pkt c =
     check ''Should not see packets where cache is responding'' (\<not> Packet_cacheResponding pkt)
    (check ''Should only see read and writes at non-coherent cache'' (Packet_isRead pkt \<or> Packet_isWrite pkt)
      (BaseCache_recvTimingReq env pkt c))"

section \<open>The L0 cache on the global memory\<close>

definition L0_env :: "nat \<Rightarrow> payload \<Rightarrow> pkt_junk \<Rightarrow> Addr \<times> Addr \<times> bool \<Rightarrow> nat \<Rightarrow> (unit, Memory) cache_env" where
  "L0_env over tr junk list_junk rnd =
     \<lparr>env_up = no_upstream, env_sendTimingReq = Initiator_sendTimingReq tr, env_junk = junk,
      env_list_junk = list_junk, env_rnd = rnd, env_clone = id, env_overrun = over\<rparr>"

section \<open>Demand accesses\<close>

text \<open>The requests of a processor: reads and writes of a part of one block.\<close>

definition demand_pkt :: "('u, 'm) BaseCache \<Rightarrow> Packet \<Rightarrow> bool" where
  "demand_pkt c pkt \<longleftrightarrow> pkt_ok (c_blkSize c) pkt \<and> (p_cmd pkt = ReadReq \<or> p_cmd pkt = WriteReq) \<and>
     \<not> Packet_cacheResponding pkt \<and> \<not> (c_isReadOnly c \<and> Packet_isWrite pkt)"

definition hit_bit :: "Packet \<Rightarrow> u32" where
  "hit_bit pkt = (if p_cmd pkt = WriteReq then WritableBit else ReadableBit)"

lemma demand_cmd:
  assumes "p_cmd pkt = ReadReq \<or> p_cmd pkt = WriteReq"
  shows "Packet_isRequest pkt" "Packet_isRead pkt \<or> Packet_isWrite pkt" "Packet_needsResponse pkt"
    "\<not> Packet_isEviction pkt" "\<not> Packet_isWriteback pkt" "\<not> Packet_isLLSC pkt" "\<not> Packet_isLockedRMW pkt"
    "p_cmd pkt \<noteq> CleanEvict" "p_cmd pkt \<noteq> WriteClean" "p_cmd pkt \<noteq> LockedRMWWriteReq" "p_cmd pkt \<noteq> HardPFReq"
    "Packet_needsWritable pkt = Inr (p_cmd pkt = WriteReq)" "allocOnFill (p_cmd pkt)"
  using assms
  by (auto simp: Packet_isRequest_def Packet_isRead_def Packet_isWrite_def Packet_needsResponse_def Packet_isEviction_def
      Packet_isWriteback_def Packet_isLLSC_def Packet_isLockedRMW_def Packet_needsWritable_def allocOnFill_def
      MemCmd_query_defs MemCmd_table)

text \<open>
  The store after a lookup that counts the reference, and the whole cache after a hit: the reference is
  counted, with a prefetcher the prefetch mark is taken off and the send event notified, and the response
  is given. Nothing else differs.
\<close>

definition touched :: "nat option \<Rightarrow> BaseSetAssoc \<Rightarrow> BaseSetAssoc" where
  "touched l T = (case l of None \<Rightarrow> T | Some i \<Rightarrow> upd_blk i (CacheBlk_increaseRefCount (bt_blks T ! i)) T)"

definition hit_latency :: "Packet \<Rightarrow> ('u, 'm) BaseCache \<Rightarrow> Cycles" where
  "hit_latency pkt c = (if Packet_isWrite pkt then bt_lookupLatency (c_tags c) else 0)"

definition hit_block :: "nat \<Rightarrow> ('u, 'm) BaseCache \<Rightarrow> CacheBlk" where
  "hit_block i c =
     (let b = CacheBlk_increaseRefCount (bt_blks (c_tags c) ! i)
      in if c_prefetcher c \<noteq> None \<and> CacheBlk_wasPrefetched b then CacheBlk_clearPrefetched b else b)"

definition after_hit :: "nat \<Rightarrow> Packet \<Rightarrow> Packet \<Rightarrow> ('u, 'm) BaseCache \<Rightarrow> ('u, 'm) BaseCache" where
  "after_hit i pkt r c =
     (let c' = c\<lparr>c_tags := upd_blk i (hit_block i c) (c_tags c), c_answered := c_answered c @ [r]\<rparr>
      in if c_prefetcher c \<noteq> None \<and> hit_latency pkt c \<noteq> MaxTick then schedMemSideSendEvent (hit_latency pkt c) c' else c')"

text \<open>Stores that differ at most in replacement data, prefetch marks and reference counts.\<close>

definition same_store :: "BaseSetAssoc \<Rightarrow> BaseSetAssoc \<Rightarrow> bool" where
  "same_store T T' \<longleftrightarrow> bt_indexingPolicy T' = bt_indexingPolicy T \<and> length (bt_blks T') = length (bt_blks T) \<and>
     (\<forall>a s. tag_lookup T' a s = tag_lookup T a s) \<and>
     (\<forall>i < length (bt_blks T). b_coherence (bt_blks T' ! i) = b_coherence (bt_blks T ! i) \<and>
        t_valid (bt_blks T' ! i) = t_valid (bt_blks T ! i))"

lemma same_store_refl: "same_store T T"
  by (simp add: same_store_def)

lemma same_store_trans: "same_store T1 T2 \<Longrightarrow> same_store T2 T3 \<Longrightarrow> same_store T1 T3"
  by (simp add: same_store_def)

lemma same_store_findBlock:
  "tags_inv T \<Longrightarrow> tags_inv T' \<Longrightarrow> same_store T T' \<Longrightarrow> findBlock a s T' = findBlock a s T"
  by (simp add: findBlock_Inr same_store_def)

lemma access_demand:
  assumes inv: "cache_inv c" and p: "demand_pkt c pkt"
  shows "\<exists>T. T = touched (tag_lookup (c_tags c) (p_addr pkt) (p_isSecure pkt)) (c_tags c) \<and> cache_access env pkt c =
      bindR (blk_print env (map_option TagBlk (tag_lookup (c_tags c) (p_addr pkt) (p_isSecure pkt))) (c\<lparr>c_tags := T\<rparr>)) (\<lambda>_.
      Inr (\<lparr>ar_satisfied = (case tag_lookup (c_tags c) (p_addr pkt) (p_isSecure pkt) of
              None \<Rightarrow> False | Some i \<Rightarrow> CacheBlk_isSet (hit_bit pkt) (bt_blks (c_tags c) ! i)),
            ar_blk = map_option TagBlk (tag_lookup (c_tags c) (p_addr pkt) (p_isSecure pkt)), ar_lat = hit_latency pkt c,
            ar_pkt = pkt\<rparr>,
           c\<lparr>c_tags := T\<rparr>)) \<and>
    cache_inv (c\<lparr>c_tags := T\<rparr>) \<and> same_store (c_tags c) T"
proof -
  let ?l = "tag_lookup (c_tags c) (p_addr pkt) (p_isSecure pkt)"
  have t: "tags_inv (c_tags c)" using inv by (simp add: cache_inv_def)
  have ok: "pkt_ok (c_blkSize c) pkt" and cmd: "p_cmd pkt = ReadReq \<or> p_cmd pkt = WriteReq"
    and ro: "\<not> (c_isReadOnly c \<and> Packet_isWrite pkt)" using p by (simp_all add: demand_pkt_def)
  note d = demand_cmd [OF cmd] and a = cache_block_addr [OF inv ok]
  obtain T where T: "accessBlock pkt (c_tags c) = Inr (?l, bt_lookupLatency (c_tags c), T)" "tags_inv T"
    "bt_indexingPolicy T = bt_indexingPolicy (c_tags c)" "\<And>a s. tag_lookup T a s = tag_lookup (c_tags c) a s"
    "\<And>i. i < length (bt_blks (c_tags c)) \<Longrightarrow> b_coherence (bt_blks T ! i) = b_coherence (bt_blks (c_tags c) ! i) \<and>
       t_valid (bt_blks T ! i) = t_valid (bt_blks (c_tags c) ! i)"
    "T = touched ?l (c_tags c)"
    using accessBlock_spec [OF t a(2,3)] unfolding touched_def by blast
  have len: "length (bt_blks T) = length (bt_blks (c_tags c))" using t T(2,3) by (simp add: tags_inv_def)
  have v: "isSet (p_flags pkt) PKT_VALID_ADDR" "isSet (p_flags pkt) PKT_VALID_SIZE" using ok by (simp_all add: pkt_ok_def)
  have "cache_access env pkt c =
      bindR (blk_print env (map_option TagBlk ?l) (c\<lparr>c_tags := T\<rparr>)) (\<lambda>_.
      Inr (\<lparr>ar_satisfied = (case ?l of None \<Rightarrow> False | Some i \<Rightarrow> CacheBlk_isSet (hit_bit pkt) (bt_blks (c_tags c) ! i)),
            ar_blk = map_option TagBlk ?l, ar_lat = hit_latency pkt c, ar_pkt = pkt\<rparr>, c\<lparr>c_tags := T\<rparr>))"
  proof (cases ?l)
    case None
    then show ?thesis using d T(1) ro v by (simp add: cache_access_def BaseCache_access_def Let_def hit_latency_def)
  next
    case (Some i)
    then have i: "i < length (bt_blks (c_tags c))" using tag_lookup_less [OF t] by blast
    have "CacheBlk_isSet f (bt_blks T ! i) = CacheBlk_isSet f (bt_blks (c_tags c) ! i)" for f
      using T(5) [OF i] by (simp add: CacheBlk_isSet_def TaggedEntry_isValid_def)
    then show ?thesis using d T(1) ro Some i len v
      by (cases "blk_print env (Some (TagBlk i)) (c\<lparr>c_tags := T\<rparr>)")
        (simp_all add: cache_access_def BaseCache_access_def Let_def hit_bit_def satisfyRequest_def
          BaseCache_satisfyRequest_def maintainClusivity_def hit_latency_def)
  qed
  with cache_inv_tags [OF inv T(2,3)] T(3-6) len show ?thesis
    by (intro exI [of _ T]) (simp add: same_store_def)
qed

lemma schedMemSideSendEvent_simps [simp]:
  "c_tags (schedMemSideSendEvent t c) = c_tags c" "c_mshrQueue (schedMemSideSendEvent t c) = c_mshrQueue c"
  "c_answered (schedMemSideSendEvent t c) = c_answered c" "c_blocked (schedMemSideSendEvent t c) = c_blocked c"
  "c_below (schedMemSideSendEvent t c) = c_below c" "c_noTargetMSHR (schedMemSideSendEvent t c) = c_noTargetMSHR c"
  "cache_inv (schedMemSideSendEvent t c) = cache_inv c" "c_prefetcher (schedMemSideSendEvent t c) = c_prefetcher c"
  "pq_notifications (c_reqPacketQueue (schedMemSideSendEvent t c)) = pq_notifications (c_reqPacketQueue c) + 1"
  "c_writeAllocator (schedMemSideSendEvent t c) = c_writeAllocator c" "c_isReadOnly (schedMemSideSendEvent t c) = c_isReadOnly c"
  "pq_waitingOnRetry (c_reqPacketQueue (schedMemSideSendEvent t c)) = pq_waitingOnRetry (c_reqPacketQueue c)"
  "c_blkSize (schedMemSideSendEvent t c) = c_blkSize c" "c_numTarget (schedMemSideSendEvent t c) = c_numTarget c"
  by (simp_all add: schedMemSideSendEvent_def schedSendEvent_def cache_inv_def)

text \<open>What a demand access leaves alone.\<close>

definition access_frame :: "('u, 'm) BaseCache \<Rightarrow> ('u, 'm) BaseCache \<Rightarrow> bool" where
  "access_frame c c' \<longleftrightarrow> same_store (c_tags c) (c_tags c') \<and> c_below c' = c_below c \<and>
     c_blkSize c' = c_blkSize c \<and> c_prefetcher c' = c_prefetcher c \<and> c_isReadOnly c' = c_isReadOnly c \<and>
     pq_waitingOnRetry (c_reqPacketQueue c') = pq_waitingOnRetry (c_reqPacketQueue c) \<and>
     q_numReserve (c_mshrQueue c') = q_numReserve (c_mshrQueue c) \<and>
     (c_writeAllocator c = None \<longrightarrow> c_writeAllocator c' = None)"

lemma recvTimingReq_demand:
  assumes p: "demand_pkt c pkt" and a: "cache_access env pkt c = Inr (r, c1)" and r: "ar_pkt r = pkt"
  shows "recvTimingReq env pkt c =
    bindR (if ar_satisfied r then
             bindR (case (c_prefetcher c1, ar_blk r) of
                      (Some pf, Some p) \<Rightarrow>
                        bindR (get_blk p c1) (\<lambda>b.
                          Inr (if CacheBlk_wasPrefetched b then put_blk p (CacheBlk_clearPrefetched b) c1 else c1))
                    | _ \<Rightarrow> Inr c1) (\<lambda>c.
               handleTimingReqHit env pkt (ar_blk r) (ar_lat r) c)
           else handleTimingReqMiss env pkt (ar_blk r) 0 (ar_lat r) c1) (\<lambda>c.
      Inr (if c_prefetcher c \<noteq> None \<and> ar_lat r \<noteq> MaxTick then schedMemSideSendEvent (ar_lat r) c else c))"
proof -
  have cmd: "p_cmd pkt = ReadReq \<or> p_cmd pkt = WriteReq" and n: "\<not> Packet_cacheResponding pkt"
    using p by (simp_all add: demand_pkt_def)
  note d = demand_cmd [OF cmd]
  show ?thesis using d(2,10) n a r by (simp add: recvTimingReq_def BaseCache_recvTimingReq_def Let_def)
qed

text \<open>The hit handler on a demand request: the request becomes its own response.\<close>

lemma handleTimingReqHit_demand:
  assumes "p_cmd pkt = ReadReq \<or> p_cmd pkt = WriteReq"
  shows "\<exists>r. Packet_makeTimingResponse pkt = Inr r \<and>
    handleTimingReqHit env pkt blk t c = Inr (c\<lparr>c_answered := c_answered c @ [r]\<rparr>)"
  using demand_cmd(3,7) [OF assms] by (simp add: handleTimingReqHit_def Packet_makeTimingResponse_def Packet_makeResponse_Inr)

lemma hit_unmark:
  assumes i: "i < length (bt_blks (c_tags c))" and c': "c' = c\<lparr>c_tags := touched (Some i) (c_tags c)\<rparr>"
  shows "(case (c_prefetcher c', Some (TagBlk i)) of
        (Some pf, Some p) \<Rightarrow>
          bindR (get_blk p c') (\<lambda>b.
            Inr (if CacheBlk_wasPrefetched b then put_blk p (CacheBlk_clearPrefetched b) c' else c'))
      | _ \<Rightarrow> Inr c') = Inr (c\<lparr>c_tags := upd_blk i (hit_block i c) (c_tags c)\<rparr>)"
  using i by (cases "c_prefetcher c") (simp_all add: c' touched_def hit_block_def upd_blk_def Let_def)

lemma hit_block_keeps:
  assumes inv: "cache_inv c" and i: "i < length (bt_blks (c_tags c))"
  shows "cache_inv (c\<lparr>c_tags := upd_blk i (hit_block i c) (c_tags c)\<rparr>)" "same_store (c_tags c) (upd_blk i (hit_block i c) (c_tags c))"
proof -
  have t: "tags_inv (c_tags c)" using inv by (simp add: cache_inv_def)
  have k: "same_identity (bt_blks (c_tags c) ! i) (hit_block i c)" "b_coherence (hit_block i c) = b_coherence (bt_blks (c_tags c) ! i)"
    "t_valid (hit_block i c) = t_valid (bt_blks (c_tags c) ! i)"
    by (simp_all add: same_identity_def hit_block_def Let_def CacheBlk_clearPrefetched_def CacheBlk_increaseRefCount_def)
  note u = upd_blk_identity [OF t i k(1)]
  show "cache_inv (c\<lparr>c_tags := upd_blk i (hit_block i c) (c_tags c)\<rparr>)" using cache_inv_tags [OF inv u(1)] by simp
  show "same_store (c_tags c) (upd_blk i (hit_block i c) (c_tags c))" using u(2) i k(2,3) by (simp add: same_store_def nth_list_update upd_blk_def)
qed

lemma after_hit_simps [simp]:
  "c_tags (after_hit i pkt r c) = upd_blk i (hit_block i c) (c_tags c)" "c_answered (after_hit i pkt r c) = c_answered c @ [r]"
  "c_mshrQueue (after_hit i pkt r c) = c_mshrQueue c" "c_blocked (after_hit i pkt r c) = c_blocked c"
  "c_below (after_hit i pkt r c) = c_below c"
  "c_prefetcher c = None \<Longrightarrow> c_reqPacketQueue (after_hit i pkt r c) = c_reqPacketQueue c"
  by (simp_all add: after_hit_def Let_def)

lemma after_hit_keeps:
  assumes "cache_inv c" "i < length (bt_blks (c_tags c))"
  shows "cache_inv (after_hit i pkt r c)" "access_frame c (after_hit i pkt r c)"
proof -
  have "cache_inv (c\<lparr>c_tags := upd_blk i (hit_block i c) (c_tags c), c_answered := c_answered c @ [r]\<rparr>)"
    using hit_block_keeps(1) [OF assms] by (simp add: cache_inv_def)
  then show "cache_inv (after_hit i pkt r c)" by (simp add: after_hit_def Let_def)
  show "access_frame c (after_hit i pkt r c)" using hit_block_keeps(2) [OF assms] by (simp add: after_hit_def Let_def access_frame_def)
qed

section \<open>Misses\<close>

lemma findMatch_loop_Some:
  "findMatch_loop P ign es js = Inr (Some i) \<Longrightarrow> i \<in> set js \<and> P (es ! i) = Inr True"
  by (induction js) (auto split: if_splits)

lemma mshr_findMatch_Some:
  assumes "mshr_findMatch a s ign c = Inr (Some i)"
  shows "i \<in> set (q_allocatedList (c_mshrQueue c))" "MSHR_hasTargets (get_mshr i c)" "qe_blkAddr (get_mshr i c) = a"
    "qe_isSecure (get_mshr i c) = s"
  using findMatch_loop_Some [of "\<lambda>e. MSHR_matchBlockAddr e a s" ign "q_entries (c_mshrQueue c)" "q_allocatedList (c_mshrQueue c)" i]
    assms by (auto simp: mshr_findMatch_def findMatch_def MSHR_matchBlockAddr_def get_mshr_def)

lemma cache_inv_mshr:
  assumes "cache_inv c" "mq_inv (c_blkSize c) q" "q_numReserve q = q_numReserve (c_mshrQueue c)"
  shows "cache_inv (c\<lparr>c_mshrQueue := q\<rparr>)"
  using assms by (auto simp: cache_inv_def)

lemma setBlocked_simps [simp]:
  "c_tags (setBlocked b c) = c_tags c" "c_mshrQueue (setBlocked b c) = c_mshrQueue c"
  "c_answered (setBlocked b c) = c_answered c" "c_below (setBlocked b c) = c_below c"
  "cache_inv (setBlocked b c) = cache_inv c" "c_reqPacketQueue (setBlocked b c) = c_reqPacketQueue c"
  "c_blkSize (setBlocked b c) = c_blkSize c" "c_noTargetMSHR (setBlocked b c) = c_noTargetMSHR c"
  "c_prefetcher (setBlocked b c) = c_prefetcher c" "c_isReadOnly (setBlocked b c) = c_isReadOnly c"
  "c_writeAllocator (setBlocked b c) = c_writeAllocator c"
  by (simp_all add: setBlocked_def cache_inv_def)

text \<open>
  A miss without a register: one more register holds the request, and the send event is notified. Such
  a register is ready at once, will allocate a block, and has no deferred targets.
\<close>

definition plain_register :: "MSHR \<Rightarrow> bool" where
  "plain_register m \<longleftrightarrow> \<not> qe_inService m \<and> qe_readyTime m = 0 \<and> \<not> m_wasWholeLineWrite m \<and>
     tl_allocOnFill (m_targets m) \<and> tl_targets (m_deferredTargets m) = []"

definition new_register :: "Packet \<Rightarrow> Addr \<Rightarrow> ('u, 'm) BaseCache \<Rightarrow> ('u, 'm) BaseCache \<Rightarrow> bool" where
  "new_register pkt a c c' \<longleftrightarrow> (\<exists>i t.
     q_allocatedList (c_mshrQueue c') = q_allocatedList (c_mshrQueue c) @ [i] \<and> all_targets (get_mshr i c') = [t] \<and>
     tg_pkt t = pkt \<and> mt_source t = FromCPU \<and> plain_register (get_mshr i c') \<and> qe_blkAddr (get_mshr i c') = a \<and> qe_isSecure (get_mshr i c') = p_isSecure pkt \<and>
     i \<in> set (q_readyList (c_mshrQueue c')) \<and> (\<forall>j. j \<noteq> i \<longrightarrow> get_mshr j c' = get_mshr j c)) \<and>
   (bit (c_blocked c') 0 \<longleftrightarrow> bit (c_blocked c) 0 \<or> Queue_isFull (c_mshrQueue c')) \<and>
   pq_notifications (c_reqPacketQueue c') > pq_notifications (c_reqPacketQueue c)"

lemma allocateMissBuffer_ok:
  assumes inv: "cache_inv c" and p: "pkt_ok (c_blkSize c) pkt" and room: "\<not> Queue_isFull (c_mshrQueue c)"
    and u: "up_ready (env_up env) pkt (c_up c)" and cmd: "allocOnFill (p_cmd pkt)" "p_cmd pkt \<noteq> HardPFReq"
  shows "\<exists>i c'. allocateMissBuffer env pkt 0 True c = Inr (i, c') \<and> cache_inv c' \<and> access_frame c c' \<and> c_answered c' = c_answered c \<and>
    new_register pkt (blk_align (bt_indexingPolicy (c_tags c)) (p_addr pkt)) c c'"
proof -
  have m: "mq_inv (c_blkSize c) (c_mshrQueue c)" and "0 \<le> q_numReserve (c_mshrQueue c)" using inv by (simp_all add: cache_inv_def)
  then have r: "q_allocated (c_mshrQueue c) < q_numEntries (c_mshrQueue c)" using room by (simp add: Queue_isFull_def)
  let ?a = "blk_align (bt_indexingPolicy (c_tags c)) (p_addr pkt)"
  obtain i q' u' tt where q: "MSHRQueue_allocate (env_up env) curTick ?a (c_blkSize c) pkt 0 (c_order c) (allocOnFill (p_cmd pkt))
      (c_mshrQueue c) (c_up c) = Inr (i, q', u')" "mq_inv (c_blkSize c) q'"
    "q_allocatedList q' = q_allocatedList (c_mshrQueue c) @ [i]" "i \<in> set (q_readyList q')"
    "all_targets (entry_at q' i) = [tt]" "tg_pkt tt = pkt" "qe_blkAddr (entry_at q' i) = ?a"
    "qe_isSecure (entry_at q' i) = p_isSecure pkt" "q_numReserve q' = q_numReserve (c_mshrQueue c)"
    "\<forall>j. j \<noteq> i \<longrightarrow> entry_at q' j = entry_at (c_mshrQueue c) j"
    "qe_readyTime (entry_at q' i) = 0" "\<not> m_wasWholeLineWrite (entry_at q' i)"
    "tl_allocOnFill (m_targets (entry_at q' i)) = allocOnFill (p_cmd pkt)" "\<not> qe_inService (entry_at q' i)"
    "mt_source tt = (if p_cmd pkt = HardPFReq then FromPrefetcher else FromCPU)"
    "tl_targets (m_targets (entry_at q' i)) = [tt]"
    using MSHRQueue_allocate_ok [OF m r p u, of curTick ?a 0 "c_order c" "allocOnFill (p_cmd pkt)"] by blast
  let ?c1 = "c\<lparr>c_mshrQueue := q', c_up := u', c_order := c_order c + 1\<rparr>"
  let ?c = "schedMemSideSendEvent 0 (if Queue_isFull q' then setBlocked Blocked_NoMSHRs ?c1 else ?c1)"
  have r: "allocateMissBuffer env pkt 0 True c = Inr (i, ?c)"
    using q(1) cache_block_addr(1) [OF inv p] by (simp add: allocateMissBuffer_def Let_def)
  have "cache_inv ?c1" using cache_inv_mshr [OF inv q(2,9)] by (simp add: cache_inv_def)
  then have ci: "cache_inv ?c" by simp
  have b: "bit (c_blocked ?c) 0 \<longleftrightarrow> bit (c_blocked c) 0 \<or> Queue_isFull q'"
    using blocked_bits(3) [of Blocked_NoMSHRs ?c1 Blocked_NoMSHRs] by simp
  have "tl_targets (m_deferredTargets (entry_at q' i)) = []" using q(5,16) by (simp add: all_targets_def)
  then have "plain_register (entry_at q' i)" using q(11-14) cmd(1) by (simp add: plain_register_def)
  then have "new_register pkt ?a c ?c"
    unfolding new_register_def using q(3-8,10,15) b cmd(2)
    by (intro conjI exI [of _ i] exI [of _ tt]) (auto simp: get_mshr_def)
  moreover have "access_frame c ?c" "c_answered ?c = c_answered c" using q(9) by (simp_all add: access_frame_def same_store_refl)
  ultimately show ?thesis using r ci by blast
qed

text \<open>A miss with a register: the request becomes its last target.\<close>

definition more_targets :: "Packet \<Rightarrow> nat \<Rightarrow> ('u, 'm) BaseCache \<Rightarrow> ('u, 'm) BaseCache \<Rightarrow> bool" where
  "more_targets pkt i c c' \<longleftrightarrow>
     q_allocatedList (c_mshrQueue c') = q_allocatedList (c_mshrQueue c) \<and>
     (\<exists>t. all_targets (get_mshr i c') = all_targets (get_mshr i c) @ [t] \<and> tg_pkt t = pkt \<and> mt_source t = FromCPU) \<and>
     qe_blkAddr (get_mshr i c') = qe_blkAddr (get_mshr i c) \<and> qe_isSecure (get_mshr i c') = qe_isSecure (get_mshr i c) \<and>
     (plain_register (get_mshr i c) \<and>
      (\<forall>p \<in> set (pkt # map tg_pkt (all_targets (get_mshr i c))). \<not> Request_isCacheMaintenance (p_req p)) \<longrightarrow>
      plain_register (get_mshr i c')) \<and>
     (\<forall>j. j \<noteq> i \<longrightarrow> get_mshr j c' = get_mshr j c) \<and>
     (if c_numTarget c \<le> int (length (all_targets (get_mshr i c'))) then bit (c_blocked c') 2 \<and> c_noTargetMSHR c' = Some i
      else c_blocked c' = c_blocked c \<and> c_noTargetMSHR c' = c_noTargetMSHR c)"

lemma coalesce_target_ok:
  assumes inv: "cache_inv c" and p: "pkt_ok (c_blkSize c) pkt" and cmd: "p_cmd pkt \<noteq> HardPFReq"
    and i: "i \<in> set (q_allocatedList (c_mshrQueue c))" and h: "MSHR_hasTargets (get_mshr i c)"
    and u: "up_ready (env_up env) pkt (c_up c)"
  shows "\<exists>c'. coalesce_target env pkt i t c = Inr c' \<and> cache_inv c' \<and> access_frame c c' \<and> c_answered c' = c_answered c \<and>
    more_targets pkt i c c'"
proof -
  have m: "mq_inv (c_blkSize c) (c_mshrQueue c)" using inv by (simp add: cache_inv_def)
  note e = mq_inv_entry [OF m i]
  obtain m' u' mark where m': "MSHR_allocateTarget (env_up env) curTick (snd (snd (env_junk env))) (c_heap c) pkt t (c_order c)
      (allocOnFill (p_cmd pkt)) (get_mshr i c) (c_up c) = Inr (c_heap c, m', u')" "MSHR_wf (c_blkSize c) m'" "MSHR_live (c_blkSize c) m'"
    "qe_inService m' = qe_inService (get_mshr i c)"
    "all_targets m' = all_targets (get_mshr i c) @ [Target_new curTick pkt t (c_order c) FromCPU mark (allocOnFill (p_cmd pkt))]"
    "qe_blkAddr m' = qe_blkAddr (get_mshr i c)" "qe_isSecure m' = qe_isSecure (get_mshr i c)"
    "qe_readyTime m' = qe_readyTime (get_mshr i c)" "m_wasWholeLineWrite m' = m_wasWholeLineWrite (get_mshr i c)"
    "tl_allocOnFill (m_targets (get_mshr i c)) \<longrightarrow> tl_allocOnFill (m_targets m')"
    "\<not> qe_inService (get_mshr i c) \<and> tl_targets (m_deferredTargets (get_mshr i c)) = [] \<and>
     (\<forall>p \<in> set (pkt # map tg_pkt (all_targets (get_mshr i c))). \<not> Request_isCacheMaintenance (p_req p)) \<longrightarrow>
     tl_targets (m_deferredTargets m') = []"
    using MSHR_allocateTarget_ok [OF e(1,2) h [unfolded get_mshr_def] p cmd u, of curTick "snd (snd (env_junk env))" "c_heap c" t "c_order c"
        "allocOnFill (p_cmd pkt)"] unfolding get_mshr_def by blast
  let ?q = "set_entry i m' (c_mshrQueue c)"
  have q: "mq_inv (c_blkSize c) ?q" using mq_inv_set_entry [OF m i m'(2,3)] m'(4) by (simp add: get_mshr_def)
  let ?c1 = "c\<lparr>c_mshrQueue := ?q, c_up := u', c_order := c_order c + 1\<rparr>"
  let ?full = "c_numTarget c \<le> int (MSHR_getNumTargets m')"
  let ?c = "if ?full then setBlocked Blocked_NoTargets (?c1\<lparr>c_noTargetMSHR := Some i\<rparr>) else ?c1"
  have r: "coalesce_target env pkt i t c = Inr ?c"
    using m'(1) e(3) by (simp add: coalesce_target_def put_mshr_def get_mshr_def Let_def)
  have "cache_inv ?c1" using cache_inv_mshr [OF inv q] by (simp add: cache_inv_def)
  then have "cache_inv (?c1\<lparr>c_noTargetMSHR := Some i\<rparr>)" by (simp add: cache_inv_def)
  with \<open>cache_inv ?c1\<close> have ci: "cache_inv ?c" by (cases ?full) (simp_all only: setBlocked_simps if_True if_False)
  have "plain_register m'" if "plain_register (get_mshr i c)"
    "\<forall>p \<in> set (pkt # map tg_pkt (all_targets (get_mshr i c))). \<not> Request_isCacheMaintenance (p_req p)"
    using that m'(4,8-11) by (auto simp: plain_register_def)
  then have "more_targets pkt i c ?c"
    using m'(5-7) e(3) blocked_bits(3) [of Blocked_NoTargets "?c1\<lparr>c_noTargetMSHR := Some i\<rparr>" Blocked_NoTargets]
    by (simp add: more_targets_def get_mshr_def MSHR_getNumTargets_all)
  moreover have "access_frame c ?c" "c_answered ?c = c_answered c" by (simp_all add: access_frame_def same_store_refl)
  ultimately show ?thesis using r ci by blast
qed

text \<open>Both kinds of miss depend only on the miss queue, the blocked causes and the send event.\<close>

lemma miss_cong:
  assumes "c_mshrQueue c1 = c_mshrQueue c" "c_blocked c1 = c_blocked c" "c_reqPacketQueue c1 = c_reqPacketQueue c"
    and "c_noTargetMSHR c1 = c_noTargetMSHR c" "c_numTarget c1 = c_numTarget c"
  shows "new_register pkt a c1 c' = new_register pkt a c c'" "more_targets pkt i c1 c' = more_targets pkt i c c'"
  using assms by (simp_all add: new_register_def more_targets_def get_mshr_def)

lemma miss_sched:
  "new_register pkt a c c' \<Longrightarrow> new_register pkt a c (schedMemSideSendEvent t c')"
  "more_targets pkt i c (schedMemSideSendEvent t c') = more_targets pkt i c c'"
  by (auto simp: new_register_def more_targets_def get_mshr_def)

lemma handleTimingReqMiss_demand:
  assumes inv: "cache_inv c" and p: "demand_pkt c pkt" and u: "up_ready (env_up env) pkt (c_up c)"
    and a: "Packet_getBlockAddr (c_blkSize c) pkt = Inr a" and m: "mshr_findMatch a (p_isSecure pkt) False c = Inr m"
    and room: "m = None \<Longrightarrow> \<not> Queue_isFull (c_mshrQueue c)"
  shows "\<exists>c'. handleTimingReqMiss env pkt None 0 t' c = Inr c' \<and> cache_inv c' \<and> access_frame c c' \<and> c_answered c' = c_answered c \<and>
    (case m of None \<Rightarrow> new_register pkt a c c' | Some i \<Rightarrow> more_targets pkt i c c')"
proof -
  have ok: "pkt_ok (c_blkSize c) pkt" and cmd: "p_cmd pkt = ReadReq \<or> p_cmd pkt = WriteReq" using p by (simp_all add: demand_pkt_def)
  note d = demand_cmd [OF cmd] and ad = cache_block_addr [OF inv ok]
  have sz: "\<exists>sz. Packet_getSize pkt = Inr sz" using ok by (simp add: pkt_ok_def Packet_getSize_def)
  obtain w where w: "(case c_writeAllocator c of
        None \<Rightarrow> Inr c
      | Some w \<Rightarrow>
          if Packet_isWrite pkt \<and> \<not> Request_isUncacheable (p_req pkt) then
            bindR (Packet_getAddr pkt) (\<lambda>a. bindR (Packet_getSize pkt) (\<lambda>sz. bindR (Packet_getBlockAddr (c_blkSize c) pkt) (\<lambda>ba.
              Inr (c\<lparr>c_writeAllocator := Some (updateMode a sz ba w)\<rparr>))))
          else Inr c) = Inr (c\<lparr>c_writeAllocator := w\<rparr>)" "c_writeAllocator c = None \<longrightarrow> w = None"
  proof (cases "c_writeAllocator c")
    case None
    then show ?thesis by (intro that [of None]) simp_all
  next
    case (Some w0)
    then show ?thesis using ad sz
      by (cases "Packet_isWrite pkt \<and> \<not> Request_isUncacheable (p_req pkt)") (auto intro: that [of "Some w0"] that)
  qed
  let ?c = "c\<lparr>c_writeAllocator := w\<rparr>"
  have ci: "cache_inv ?c" using inv by (simp add: cache_inv_def)
  have eq: "access_frame c c'" if "access_frame ?c c'" for c' using that w(2) by (simp add: access_frame_def)
  have s: "handleTimingReqMiss env pkt None 0 t' c = BaseCache_handleTimingReqMiss env pkt m None 0 t' c"
    using a ad(3) m by (simp add: handleTimingReqMiss_def)
  show ?thesis
  proof (cases m)
    case None
    obtain i c' where c': "allocateMissBuffer env pkt 0 True ?c = Inr (i, c')" "cache_inv c'" "access_frame ?c c'"
      "new_register pkt a ?c c'" "c_answered c' = c_answered c"
      using allocateMissBuffer_ok [OF ci, of pkt env] d(11,13) ok u room [OF None] a ad(1) by auto
    have "handleTimingReqMiss env pkt None 0 t' c = Inr c'"
      unfolding s BaseCache_handleTimingReqMiss_def w(1) using None d(4) c'(1) by simp
    with c' None show ?thesis using miss_cong(1) [of ?c c] by (auto intro: eq)
  next
    case (Some i)
    note f = mshr_findMatch_Some [OF m [unfolded Some]]
    obtain c' where c': "coalesce_target env pkt i 0 ?c = Inr c'" "cache_inv c'" "access_frame ?c c'" "more_targets pkt i ?c c'"
      "c_answered c' = c_answered c"
      using coalesce_target_ok [OF ci, of pkt i env 0] ok d(11) f(1,2) u by (auto simp: get_mshr_def)
    have "handleTimingReqMiss env pkt None 0 t' c = Inr c'"
      unfolding s BaseCache_handleTimingReqMiss_def w(1) using Some d(5,8,9) c'(1) ok by (simp add: pkt_ok_def)
    with c' Some show ?thesis using miss_cong(2) [of ?c c] by (auto intro: eq)
  qed
qed

section \<open>Requests\<close>

text \<open>A demand request that finds its block with the permission it needs.\<close>

lemma demand_hit:
  assumes inv: "cache_inv c" and p: "demand_pkt c pkt"
    and l: "tag_lookup (c_tags c) (p_addr pkt) (p_isSecure pkt) = Some i"
    and b: "CacheBlk_isSet (hit_bit pkt) (bt_blks (c_tags c) ! i)"
  shows "\<exists>r. Packet_makeTimingResponse pkt = Inr r \<and> recvTimingReq env pkt c =
      bindR (CacheBlk_print_over (env_overrun env) (CacheBlk_increaseRefCount (bt_blks (c_tags c) ! i))) (\<lambda>_. Inr (after_hit i pkt r c)) \<and>
    cache_inv (after_hit i pkt r c) \<and> access_frame c (after_hit i pkt r c)"
proof -
  have t: "tags_inv (c_tags c)" using inv by (simp add: cache_inv_def)
  have i: "i < length (bt_blks (c_tags c))" using tag_lookup_less [OF t l] .
  let ?c1 = "c\<lparr>c_tags := touched (Some i) (c_tags c)\<rparr>" and ?c2 = "c\<lparr>c_tags := upd_blk i (hit_block i c) (c_tags c)\<rparr>"
    and ?b = "CacheBlk_increaseRefCount (bt_blks (c_tags c) ! i)" and ?lat = "hit_latency pkt c"
  let ?ar = "\<lparr>ar_satisfied = True, ar_blk = Some (TagBlk i), ar_lat = ?lat, ar_pkt = pkt\<rparr>"
  have "blk_print env (Some (TagBlk i)) ?c1 = CacheBlk_print_over (env_overrun env) ?b"
    using i by (simp add: touched_def upd_blk_def)
  then have a: "cache_access env pkt c = bindR (CacheBlk_print_over (env_overrun env) ?b) (\<lambda>_. Inr (?ar, ?c1))"
    using access_demand [OF inv p, of env] l b by auto
  have cmd: "p_cmd pkt = ReadReq \<or> p_cmd pkt = WriteReq" using p by (simp add: demand_pkt_def)
  obtain r where r: "Packet_makeTimingResponse pkt = Inr r"
    "handleTimingReqHit env pkt (Some (TagBlk i)) ?lat ?c2 = Inr (?c2\<lparr>c_answered := c_answered c @ [r]\<rparr>)"
    using handleTimingReqHit_demand [OF cmd, of env "Some (TagBlk i)" ?lat ?c2] by auto
  have "recvTimingReq env pkt c = bindR (CacheBlk_print_over (env_overrun env) ?b) (\<lambda>_. Inr (after_hit i pkt r c))"
  proof (cases "CacheBlk_print_over (env_overrun env) ?b")
    case (Inl e)
    then have "cache_access env pkt c = Inl e" using a by simp
    then show ?thesis using demand_cmd(2,10) [OF cmd] p Inl by (simp add: recvTimingReq_def BaseCache_recvTimingReq_def demand_pkt_def)
  next
    case (Inr s)
    then have a': "cache_access env pkt c = Inr (?ar, ?c1)" using a by simp
    show ?thesis
      unfolding recvTimingReq_demand [OF p a' access_result.select_convs(4)] access_result.select_convs
        hit_unmark [OF i refl] if_True bindR.simps r(2) Inr by (simp add: after_hit_def Let_def)
  qed
  with r(1) after_hit_keeps [OF inv i] show ?thesis by blast
qed

text \<open>A demand request whose block is absent.\<close>

lemma demand_miss:
  assumes inv: "cache_inv c" and p: "demand_pkt c pkt" and u: "up_ready (env_up env) pkt (c_up c)"
    and l: "tag_lookup (c_tags c) (p_addr pkt) (p_isSecure pkt) = None"
    and a: "Packet_getBlockAddr (c_blkSize c) pkt = Inr a" and m: "mshr_findMatch a (p_isSecure pkt) False c = Inr m"
    and room: "m = None \<Longrightarrow> \<not> Queue_isFull (c_mshrQueue c)"
  shows "\<exists>c'. recvTimingReq env pkt c = Inr c' \<and> cache_inv c' \<and> c_answered c' = c_answered c \<and> access_frame c c' \<and>
    (case m of None \<Rightarrow> new_register pkt a c c' | Some i \<Rightarrow> more_targets pkt i c c')"
proof -
  obtain T lat where T: "cache_access env pkt c = Inr (\<lparr>ar_satisfied = False, ar_blk = None, ar_lat = lat,
      ar_pkt = pkt\<rparr>, c\<lparr>c_tags := T\<rparr>)" "cache_inv (c\<lparr>c_tags := T\<rparr>)" "same_store (c_tags c) T"
    using access_demand [OF inv p, of env] l by auto
  let ?c = "c\<lparr>c_tags := T\<rparr>"
  obtain c1 where c1: "handleTimingReqMiss env pkt None 0 lat ?c = Inr c1" "cache_inv c1" "access_frame ?c c1"
    "case m of None \<Rightarrow> new_register pkt a ?c c1 | Some i \<Rightarrow> more_targets pkt i ?c c1" "c_answered c1 = c_answered c"
    using handleTimingReqMiss_demand [OF T(2), of pkt env a m lat] p u a m room
    by (auto simp: demand_pkt_def mshr_findMatch_def)
  let ?c' = "if c_prefetcher c1 \<noteq> None \<and> lat \<noteq> MaxTick then schedMemSideSendEvent lat c1 else c1"
  have r: "recvTimingReq env pkt c = Inr ?c'"
    unfolding recvTimingReq_demand [OF p T(1) access_result.select_convs(4)] access_result.select_convs
      if_False c1(1) bindR.simps ..
  have "case m of None \<Rightarrow> new_register pkt a c ?c' | Some i \<Rightarrow> more_targets pkt i c ?c'"
    using c1(4) by (cases m) (auto simp: miss_sched(2) miss_cong [of ?c c] intro: miss_sched(1))
  moreover have "cache_inv ?c'" "c_answered ?c' = c_answered c" "access_frame c ?c'"
    using c1(2,3,5) same_store_trans [OF T(3)] by (simp_all add: access_frame_def)
  ultimately show ?thesis using r by blast
qed

section \<open>Properties\<close>

text \<open>
  C2: a demand request that finds its block with the permission it needs writes the text of the block for
  the log and is then answered at once with its own response. The state after it is the state before with
  the reference counted and the response given; only with a prefetcher the prefetch mark is taken off
  the block and the send event notified as well. The block stays where it is and the invariant holds
  again. But the text does not fit its buffer: with fewer than 3 characters to spare behind the
  buffer, as the source has it, every hit is undefined, and with 45 none is.
\<close>

theorem cache_hit:
  assumes "cache_inv c" "demand_pkt c pkt"
    and "findBlock (p_addr pkt) (p_isSecure pkt) (c_tags c) = Inr (Some i)"
    and "CacheBlk_isSet (hit_bit pkt) (bt_blks (c_tags c) ! i)"
  shows "\<exists>r. Packet_makeTimingResponse pkt = Inr r \<and>
    recvTimingReq env pkt c =
      bindR (CacheBlk_print_over (env_overrun env) (CacheBlk_increaseRefCount (bt_blks (c_tags c) ! i))) (\<lambda>_. Inr (after_hit i pkt r c)) \<and>
    (env_overrun env < 3 \<longrightarrow> recvTimingReq env pkt c = Inl (Undef ''sprintf'')) \<and>
    (45 \<le> env_overrun env \<longrightarrow> recvTimingReq env pkt c = Inr (after_hit i pkt r c)) \<and>
    (c_prefetcher c = None \<longrightarrow> after_hit i pkt r c =
       c\<lparr>c_tags := (c_tags c)\<lparr>bt_blks := (bt_blks (c_tags c))[i := CacheBlk_increaseRefCount (bt_blks (c_tags c) ! i)]\<rparr>,
         c_answered := c_answered c @ [r]\<rparr>) \<and>
    cache_inv (after_hit i pkt r c) \<and> (\<forall>a s. findBlock a s (c_tags (after_hit i pkt r c)) = findBlock a s (c_tags c))"
proof -
  have t: "tags_inv (c_tags c)" using assms(1) by (simp add: cache_inv_def)
  then have l: "tag_lookup (c_tags c) (p_addr pkt) (p_isSecure pkt) = Some i" using assms(3) by (simp add: findBlock_Inr)
  let ?b = "CacheBlk_increaseRefCount (bt_blks (c_tags c) ! i)"
  obtain r where r: "Packet_makeTimingResponse pkt = Inr r"
    "recvTimingReq env pkt c = bindR (CacheBlk_print_over (env_overrun env) ?b) (\<lambda>_. Inr (after_hit i pkt r c))"
    "cache_inv (after_hit i pkt r c)" "access_frame c (after_hit i pkt r c)"
    using demand_hit [OF assms(1,2) l assms(4), of env] by blast
  have "tags_inv (c_tags (after_hit i pkt r c))" using r(3) unfolding cache_inv_def by blast
  moreover have "same_store (c_tags c) (c_tags (after_hit i pkt r c))" using r(4) unfolding access_frame_def by blast
  ultimately have f: "\<forall>a s. findBlock a s (c_tags (after_hit i pkt r c)) = findBlock a s (c_tags c)"
    using same_store_findBlock [OF t] by blast
  have "recvTimingReq env pkt c = Inl (Undef ''sprintf'') \<and> env_overrun env < 45 \<or>
      recvTimingReq env pkt c = Inr (after_hit i pkt r c) \<and> 3 \<le> env_overrun env"
    using CacheBlk_print_over_cases [of "env_overrun env" ?b] r(2) by auto
  then have "env_overrun env < 3 \<longrightarrow> recvTimingReq env pkt c = Inl (Undef ''sprintf'')"
    "45 \<le> env_overrun env \<longrightarrow> recvTimingReq env pkt c = Inr (after_hit i pkt r c)" by auto
  with r f show ?thesis by (intro exI [of _ r]) (simp add: after_hit_def hit_block_def upd_blk_def)
qed

lemma sample_demand:
  assumes "p_cmd pkt = cmd" "pkt = sample_packet cmd (Request_new 0x48 8 0 1)" "cmd = ReadReq \<or> cmd = WriteReq"
    and "c_blkSize c = 64" "\<not> c_isReadOnly c"
  shows "demand_pkt c pkt" "p_addr pkt = 0x48" "\<not> p_isSecure pkt"
proof -
  have "MemCmd_isRequest cmd" using assms(3) by (auto simp: MemCmd_query_defs MemCmd_table)
  then have "pkt_ok 64 pkt" using sample_pkt_ok assms(2) by blast
  then show "demand_pkt c pkt" "p_addr pkt = 0x48" "\<not> p_isSecure pkt"
    using assms by (auto simp: demand_pkt_def sample_packet_def Packet_cacheResponding_def Request_new_plain_fields isSet_def
        flag_defs)
qed

lemma sample_filled:
  assumes inv: "cache_inv c" and e: "\<And>a s. tag_lookup (c_tags c) a s = None"
    and p: "pkt_ok (c_blkSize c) pkt"
  shows "\<exists>i b. cache_inv (c\<lparr>c_tags := upd_blk i b (c_tags c)\<rparr>) \<and> i < length (bt_blks (c_tags c)) \<and>
    CacheBlk_isSet ReadableBit b \<and> tag_lookup (upd_blk i b (c_tags c)) (p_addr pkt) (p_isSecure pkt) = Some i"
proof -
  let ?T = "c_tags c"
  have t: "tags_inv ?T" using inv by (simp add: cache_inv_def)
  obtain i where i: "i \<in> set (set_ways ?T (p_addr pkt))" using findVictim_spec [OF t tags_inv_assoc [OF t]] by blast
  have free: "\<not> t_valid (bt_blks ?T ! i)" using sets.occupied [OF t i] e by fastforce
  note l = set_ways_less(1) [OF t i]
  obtain b where b: "tags_inv (upd_blk i b ?T)" "t_valid b"
    "tag_lookup (upd_blk i b ?T) (p_addr pkt) (p_isSecure pkt) = Some i"
    using insertBlock_spec [OF t cache_block_addr(2,3) [OF inv p] e i free, of 0] by auto
  let ?b = "b\<lparr>b_coherence := ReadableBit\<rparr>"
  have "same_identity (bt_blks (upd_blk i b ?T) ! i) ?b" using l by (simp add: same_identity_def)
  note u = upd_blk_identity [OF b(1) _ this]
  have up: "upd_blk i ?b (upd_blk i b ?T) = upd_blk i ?b ?T" by (simp add: upd_blk_def)
  have "tags_inv (upd_blk i ?b ?T)" "tag_lookup (upd_blk i ?b ?T) (p_addr pkt) (p_isSecure pkt) = Some i"
    using u l b(3) by (simp_all add: up)
  moreover have "CacheBlk_isSet ReadableBit ?b" using b(2) by (simp add: CacheBlk_isSet_def TaggedEntry_isValid_def flag_defs)
  ultimately show ?thesis using cache_inv_tags [OF inv] l by (intro exI [of _ i] exI [of _ ?b]) simp
qed

theorem cache_hit_witness:
  "\<exists>c c' r. recvTimingReq \<lparr>env_up = no_upstream, env_sendTimingReq = (\<lambda>p h u. Inr (True, h, ())), env_junk = ((0, 0), 0, \<lambda>_. 0),
       env_list_junk = (0, 0, False), env_rnd = 0, env_clone = id, env_overrun = 45\<rparr> (sample_packet ReadReq (Request_new 0x48 8 0 1)) c = Inr c' \<and>
     c_answered c' = c_answered c @ [r] \<and> cache_inv c' \<and> p_cmd r = ReadResp"
proof -
  let ?p = "sample_packet ReadReq (Request_new 0x48 8 0 1)"
  let ?env = "\<lparr>env_up = no_upstream, env_sendTimingReq = (\<lambda>p h u. Inr (True, h, ())), env_junk = ((0, 0), 0, \<lambda>_. 0),
       env_list_junk = (0, 0, False), env_rnd = 0, env_clone = id, env_overrun = 45\<rparr>"
  obtain c :: "(unit, unit) BaseCache" where c: "cache_inv c" "\<And>a s. tag_lookup (c_tags c) a s = None" "c_blkSize c = 64"
    "\<not> c_isReadOnly c"
    using sample_cache [of "()" "()"] by blast
  have d: "demand_pkt c ?p" "p_cmd ?p = ReadReq" using sample_demand [of ?p ReadReq c] c(3,4) by simp_all
  then have "pkt_ok (c_blkSize c) ?p" by (simp add: demand_pkt_def)
  from sample_filled [OF c(1,2) this]
  obtain i b where i: "cache_inv (c\<lparr>c_tags := upd_blk i b (c_tags c)\<rparr>)" "i < length (bt_blks (c_tags c))"
    "CacheBlk_isSet ReadableBit b" "tag_lookup (upd_blk i b (c_tags c)) (p_addr ?p) (p_isSecure ?p) = Some i"
    by blast
  let ?c = "c\<lparr>c_tags := upd_blk i b (c_tags c)\<rparr>"
  have t: "tags_inv (c_tags ?c)" using i(1) by (simp only: cache_inv_def)
  have dc: "demand_pkt ?c ?p" using d(1) by (simp add: demand_pkt_def)
  have f: "findBlock (p_addr ?p) (p_isSecure ?p) (c_tags ?c) = Inr (Some i)" unfolding findBlock_Inr [OF t] using i(4) by simp
  have s: "CacheBlk_isSet (hit_bit ?p) (bt_blks (c_tags ?c) ! i)" using i(2,3) by (simp add: hit_bit_def)
  from cache_hit [OF i(1) dc f s, of ?env]
  obtain r where r: "Packet_makeTimingResponse ?p = Inr r" "45 \<le> env_overrun ?env \<longrightarrow> recvTimingReq ?env ?p ?c = Inr (after_hit i ?p r ?c)"
    "cache_inv (after_hit i ?p r ?c)" by blast
  have "recvTimingReq ?env ?p ?c = Inr (after_hit i ?p r ?c)" using r(2) by simp
  moreover have "c_answered (after_hit i ?p r ?c) = c_answered ?c @ [r]" by simp
  moreover have "p_cmd r = ReadResp"
    using r(1) by (auto simp: Packet_makeTimingResponse_def Packet_makeResponse_def MemCmd_query_defs MemCmd_table)
  ultimately show ?thesis using r(3) by (intro exI [of _ ?c] exI [of _ "after_hit i ?p r ?c"] exI [of _ r] conjI)
qed

text \<open>
  C3: a demand request that misses is recorded exactly once and not answered. If no register holds
  its block and one is free, a new register holds it as its only target, is ready to be sent and the
  send event is notified, and the cache blocks further requests exactly when the queue has become
  full; if a register holds the block, the request is its last target, and the cache blocks when
  that register has no room left. Blocks, memory and other registers are unchanged.
\<close>

theorem cache_miss:
  assumes "cache_inv c" "demand_pkt c pkt" "up_ready (env_up env) pkt (c_up c)"
    and "findBlock (p_addr pkt) (p_isSecure pkt) (c_tags c) = Inr None"
    and "Packet_getBlockAddr (c_blkSize c) pkt = Inr a" "mshr_findMatch a (p_isSecure pkt) False c = Inr m"
    and "m = None \<Longrightarrow> \<not> Queue_isFull (c_mshrQueue c)"
  shows "\<exists>c'. recvTimingReq env pkt c = Inr c' \<and> cache_inv c' \<and> c_answered c' = c_answered c \<and> c_below c' = c_below c \<and>
    (\<forall>a s. findBlock a s (c_tags c') = findBlock a s (c_tags c)) \<and>
    (case m of None \<Rightarrow> new_register pkt a c c' | Some i \<Rightarrow> more_targets pkt i c c')"
proof -
  have t: "tags_inv (c_tags c)" using assms(1) by (simp add: cache_inv_def)
  then have l: "tag_lookup (c_tags c) (p_addr pkt) (p_isSecure pkt) = None" using assms(4) by (simp add: findBlock_Inr)
  obtain c' where c': "recvTimingReq env pkt c = Inr c'" "cache_inv c'" "c_answered c' = c_answered c" "access_frame c c'"
    "case m of None \<Rightarrow> new_register pkt a c c' | Some i \<Rightarrow> more_targets pkt i c c'"
    using demand_miss [OF assms(1-3) l assms(5-7)] by blast
  then have "tags_inv (c_tags c')" by (simp add: cache_inv_def)
  then show ?thesis using c' same_store_findBlock [OF t] by (auto simp: access_frame_def)
qed

theorem cache_miss_witness:
  "\<exists>c c'. recvTimingReq \<lparr>env_up = no_upstream, env_sendTimingReq = (\<lambda>p h u. Inr (True, h, ())), env_junk = ((0, 0), 0, \<lambda>_. 0),
       env_list_junk = (0, 0, False), env_rnd = 0, env_clone = id, env_overrun = 0\<rparr> (sample_packet ReadReq (Request_new 0x48 8 0 1)) c = Inr c' \<and>
     new_register (sample_packet ReadReq (Request_new 0x48 8 0 1)) 0x40 c c'"
proof -
  let ?p = "sample_packet ReadReq (Request_new 0x48 8 0 1)"
  let ?env = "\<lparr>env_up = no_upstream, env_sendTimingReq = (\<lambda>p h u. Inr (True, h, ())), env_junk = ((0, 0), 0, \<lambda>_. 0),
       env_list_junk = (0, 0, False), env_rnd = 0, env_clone = id, env_overrun = 0\<rparr>"
  obtain c :: "(unit, unit) BaseCache" where c: "cache_inv c" "\<And>a s. tag_lookup (c_tags c) a s = None" "c_blkSize c = 64"
    "\<not> c_isReadOnly c" "c_mshrQueue c = MSHRQueue_new (0, 0, False) 2 0"
    using sample_cache [of "()" "()"] by blast
  have d: "demand_pkt c ?p" "p_addr ?p = 0x48" using sample_demand [of ?p ReadReq c] c(3,4) by simp_all
  have t: "tags_inv (c_tags c)" using c(1) by (simp add: cache_inv_def)
  have ok: "pkt_ok (c_blkSize c) ?p" using d(1) by (simp add: demand_pkt_def)
  have a: "Packet_getBlockAddr (c_blkSize c) ?p = Inr 0x40"
    using d(2) cache_block_addr(2) [OF c(1) ok] c(3) by (simp add: Packet_getBlockAddr_def)
  have f: "findBlock (p_addr ?p) (p_isSecure ?p) (c_tags c) = Inr None" using c(2) by (simp add: findBlock_Inr [OF t])
  have m: "mshr_findMatch 0x40 (p_isSecure ?p) False c = Inr None" "\<not> Queue_isFull (c_mshrQueue c)"
    by (simp_all add: mshr_findMatch_def findMatch_def c(5) MSHRQueue_new_def Queue_new_simps Queue_isFull_def)
  show ?thesis using cache_miss [OF c(1) d(1) _ f a m(1), of ?env] m(2) by auto
qed

end
