(* ===== verification/Cache_Service.thy ===== *)
theory Cache_Service
  imports Cache_Access
begin

text \<open>
  How a miss is served: what a cache whose processor sends reads and writes does between the
  notification of its send event and the answers to the targets of a register. The interface to what
  is below the cache is the locale \<open>lower_level\<close>, interpreted on the initiator of the L0 cache and the
  global memory; a run of the cache is a sequence of requests, send events and retries.
\<close>

section \<open>The interface to what is below\<close>

text \<open>
  A read of a block either fills the buffer of the packet and is accepted, or fails; what is below
  does not change.
\<close>

locale lower_level =
  fixes send :: "Packet \<Rightarrow> heap \<Rightarrow> 'm \<Rightarrow> (bool \<times> heap \<times> 'm) result"
    and wf_below :: "'m \<Rightarrow> bool"
    and serves :: "'m \<Rightarrow> Addr \<Rightarrow> nat \<Rightarrow> bool"
  assumes read_served: "p_cmd pkt = ReadReq \<Longrightarrow> Packet_getAddr pkt = Inr a \<Longrightarrow> Packet_getSize pkt = Inr sz \<Longrightarrow>
      Packet_getPtr pkt = Inr (Ptr b 0) \<Longrightarrow> b < length h \<Longrightarrow> h ! b = Some bs \<Longrightarrow> length bs = unat sz \<Longrightarrow> wf_below m \<Longrightarrow>
      if serves m a (unat sz) then \<exists>bs'. send pkt h m = Inr (True, h[b := Some bs'], m)
      else \<exists>e. send pkt h m = Inl e"

interpretation initiator: lower_level "Initiator_sendTimingReq tr" memory_wf
  "\<lambda>m a n. unat a + n < unat (gm_memory_size m)" for tr
proof unfold_locales
  fix pkt :: Packet and a :: Addr and sz :: u32 and b :: nat and h :: heap and bs :: "u8 list" and m :: Memory
  assume p: "p_cmd pkt = ReadReq" "Packet_getAddr pkt = Inr a" "Packet_getSize pkt = Inr sz"
    "Packet_getPtr pkt = Inr (Ptr b 0)" and b: "b < length h" "h ! b = Some bs" "length bs = unat sz" and m: "memory_wf m"
  have c: "Packet_isRead pkt" "\<not> Packet_isWrite pkt"
    using p(1) by (simp_all add: Packet_isRead_def Packet_isWrite_def MemCmd_query_defs MemCmd_table)
  let ?gp = "tr\<lparr>gp_command := TLM_READ_COMMAND, gp_address := a, gp_length := sz, gp_data := Ptr b 0,
      gp_streaming_width := sz, gp_byte_enable := (a \<noteq> 0)\<rparr>"
  have s: "Initiator_sendTimingReq tr pkt h m =
      bindR (b_transport ?gp 0 h m) (\<lambda>(tr, delay, h, m).
        check ''from downstream read response invalid'' (gp_response tr = TLM_OK_RESPONSE) (Inr (True, h, m)))"
    using c p by (simp add: Initiator_sendTimingReq_def Initiator_Read_def)
  show "if unat a + unat sz < unat (gm_memory_size m)
      then \<exists>bs'. Initiator_sendTimingReq tr pkt h m = Inr (True, h[b := Some bs'], m)
      else \<exists>e. Initiator_sendTimingReq tr pkt h m = Inl e"
  proof (cases "unat a + unat sz < unat (gm_memory_size m)")
    case True
    let ?bs = "take (unat sz) (drop (unat a) (gm_memory m))"
    have "store_bytes h (Ptr b 0) ?bs = Inr (h[b := Some ?bs])"
      using b True m by (simp add: store_bytes_Inr memory_wf_def)
    from b_transport_read [OF m, of ?gp h _ 0] this True show ?thesis by (auto simp: s)
  next
    case False
    from b_transport_reject [OF m, of ?gp 0 h] False show ?thesis by (auto simp: s)
  qed
qed

section \<open>Fills\<close>

text \<open>The response to a read of a whole block, and the block address of a packet.\<close>

definition fill_resp :: "('u, 'm) BaseCache \<Rightarrow> Packet \<Rightarrow> Addr \<Rightarrow> bool \<Rightarrow> bool" where
  "fill_resp c p a s \<longleftrightarrow> p_cmd p = ReadExResp \<and> Packet_getAddr p = Inr a \<and> Packet_isSecure p = Inr s \<and>
     Packet_getSize p = Inr (c_blkSize c) \<and> \<not> Packet_hasSharers p \<and> \<not> Packet_cacheResponding p \<and>
     blk_align (bt_indexingPolicy (c_tags c)) a = a"

lemma getBlockAddr_align:
  assumes "cache_inv c" "Packet_getAddr p = Inr a"
  shows "Packet_getBlockAddr (c_blkSize c) p = Inr (blk_align (bt_indexingPolicy (c_tags c)) a)"
  using assms block_mask [of "c_blkSize c" "ip_setShift (bt_indexingPolicy (c_tags c))"]
  by (simp add: cache_inv_def Packet_getBlockAddr_def blk_align_def)

lemma fill_resp_cmd:
  assumes "p_cmd p = ReadExResp"
  shows "Packet_isResponse p" "Packet_isRead p" "\<not> Packet_isWrite p" "Packet_hasData p" "\<not> Packet_isError p"
    "\<not> Packet_isInvalidate p" "\<not> Packet_isClean p"
  using assms by (simp_all add: Packet_isResponse_def Packet_isRead_def Packet_isWrite_def Packet_hasData_def
      Packet_isError_def Packet_isInvalidate_def Packet_isClean_def MemCmd_query_defs MemCmd_table)

lemma coherence_bits [simp]:
  "((x OR ReadableBit) OR WritableBit) AND ReadableBit = ReadableBit"
  "((x OR ReadableBit) OR WritableBit) AND WritableBit = WritableBit" "ReadableBit \<noteq> 0" "WritableBit \<noteq> 0"
  by (intro bit_word_eqI, auto simp: bit_and_iff bit_or_iff)+ (simp_all add: flag_defs)

lemma upd_blk_twice [simp]: "upd_blk i b (upd_blk i b' T) = upd_blk i b T"
  by (simp add: upd_blk_def)

lemma handleFill_fills:
  assumes inv: "cache_inv c" and p: "fill_resp c p a s" and miss: "tag_lookup (c_tags c) a s = None"
    and rnd: "env_rnd env < tassoc (c_tags c)"
    and free: "\<exists>j \<in> set (set_ways (c_tags c) a). \<not> t_valid (bt_blks (c_tags c) ! j)"
  shows "\<exists>k b. handleFill env p None [] True c = Inr (TagBlk k, c\<lparr>c_tags := upd_blk k b (c_tags c)\<rparr>) \<and>
    cache_inv (c\<lparr>c_tags := upd_blk k b (c_tags c)\<rparr>) \<and> k < length (bt_blks (c_tags c)) \<and>
    CacheBlk_isSet ReadableBit b \<and> CacheBlk_isSet WritableBit b \<and>
    (\<forall>a' s'. tag_lookup (upd_blk k b (c_tags c)) a' s' =
      (if blk_align (bt_indexingPolicy (c_tags c)) a' = a \<and> s' = s then Some k else tag_lookup (c_tags c) a' s'))"
proof -
  let ?T = "c_tags c"
  have t: "tags_inv ?T" and wb: "q_allocatedList (c_writeBuffer c) = []" using inv by (simp_all add: cache_inv_def)
  have pk: "Packet_getAddr p = Inr a" "Packet_isSecure p = Inr s" "p_cmd p = ReadExResp" "Packet_getSize p = Inr (c_blkSize c)"
    "\<not> Packet_hasSharers p" "\<not> Packet_cacheResponding p" and al: "blk_align (bt_indexingPolicy ?T) a = a"
    using p by (simp_all add: fill_resp_def)
  note cmd = fill_resp_cmd [OF pk(3)]
  obtain k where k: "findVictim (env_rnd env) a s (unat (c_blkSize c * 8)) ?T [] = Inr (Some k, [Some k])"
    "k \<in> set (set_ways ?T a)" "\<not> t_valid (bt_blks ?T ! k)"
    using findVictim_spec [OF t rnd, of a s "unat (c_blkSize c * 8)" "[]"] free by auto
  note kl = set_ways_less(1) [OF t k(2)]
  obtain b where b: "insertBlock curTick p k ?T = Inr (upd_blk k b ?T)" "tags_inv (upd_blk k b ?T)" "t_valid b"
    "\<And>a' s'. tag_lookup (upd_blk k b ?T) a' s' =
      (if blk_align (bt_indexingPolicy ?T) a' = blk_align (bt_indexingPolicy ?T) a \<and> s' = s then Some k
       else tag_lookup ?T a' s')"
    using insertBlock_spec [OF t pk(1,2) miss k(2,3), of curTick] by blast
  have "resident (upd_blk k b ?T) k a s" using b(4) [of a s] by (simp add: tag_lookup_iff [OF b(2)])
  then have res: "t_secure b = s" "regenerateBlkAddr k (upd_blk k b ?T) = Inr a"
    using kl al by (simp_all add: resident_address [OF b(2)])
  let ?b = "b\<lparr>b_coherence := (b_coherence b OR ReadableBit) OR WritableBit\<rparr>"
  have "handleFill env p None [] True c = Inr (TagBlk k, c\<lparr>c_tags := upd_blk k ?b ?T\<rparr>)"
    using getBlockAddr_align [OF inv pk(1)] al pk cmd wb k(1) b(1,3) res kl
    by (simp add: handleFill_def fill_target_def allocateBlock_def handleEvictions_def TaggedEntry_isValid_def
        TaggedEntry_isSecure_def cache_regenerateBlkAddr_def blk_setCoherenceBits_def CacheBlk_setCoherenceBits_def
        updateBlockData_def)
  moreover have "tags_inv (upd_blk k ?b ?T)" "tag_lookup (upd_blk k ?b ?T) a' s' =
      (if blk_align (bt_indexingPolicy ?T) a' = a \<and> s' = s then Some k else tag_lookup ?T a' s')" for a' s'
    using upd_blk_identity [OF b(2), of k ?b] kl b(4) al by (simp_all add: same_identity_def)
  moreover have "CacheBlk_isSet ReadableBit ?b" "CacheBlk_isSet WritableBit ?b"
    using b(3) by (simp_all add: CacheBlk_isSet_def TaggedEntry_isValid_def)
  ultimately show ?thesis using kl cache_inv_tags [OF inv] by (intro exI [of _ k] exI [of _ ?b]) simp
qed

lemma handleFill_full:
  assumes inv: "cache_inv c" and p: "fill_resp c p a s" and rnd: "env_rnd env < tassoc (c_tags c)"
    and full: "\<forall>j \<in> set (set_ways (c_tags c) a). t_valid (bt_blks (c_tags c) ! j)"
  shows "handleFill env p None [] True c = Inl (AssertFail ''!blk->isValid()'')"
proof -
  let ?T = "c_tags c"
  have t: "tags_inv ?T" and wb: "q_allocatedList (c_writeBuffer c) = []" using inv by (simp_all add: cache_inv_def)
  have pk: "Packet_getAddr p = Inr a" "Packet_isSecure p = Inr s" "p_cmd p = ReadExResp"
    and al: "blk_align (bt_indexingPolicy ?T) a = a" using p by (simp_all add: fill_resp_def)
  note cmd = fill_resp_cmd [OF pk(3)]
  obtain k where k: "findVictim (env_rnd env) a s (unat (c_blkSize c * 8)) ?T [] = Inr (Some k, [Some k])"
    "k \<in> set (set_ways ?T a)"
    using findVictim_spec [OF t rnd, of a s "unat (c_blkSize c * 8)" "[]"] by auto
  then have "insertBlock curTick p k ?T = Inl (AssertFail ''!blk->isValid()'')"
    using insertBlock_occupied set_ways_less(1) [OF t] full by blast
  then show ?thesis
    using getBlockAddr_align [OF inv pk(1)] al pk cmd wb k(1)
    by (simp add: handleFill_def fill_target_def allocateBlock_def handleEvictions_def)
qed

section \<open>Registers of demand requests\<close>

text \<open>
  The requests of a processor carry the physical address of their packet and are no maintenance
  operations. A register that only such requests have used is ready to be sent and holds requests
  for its own block.
\<close>

definition demand_req :: "('u, 'm) BaseCache \<Rightarrow> Packet \<Rightarrow> bool" where
  "demand_req c pkt \<longleftrightarrow> demand_pkt c pkt \<and> Request_hasPaddr (p_req pkt) \<and> r_paddr (p_req pkt) = p_addr pkt \<and>
     Request_isSecure (p_req pkt) = p_isSecure pkt \<and> \<not> Request_isCacheMaintenance (p_req pkt)"

definition demand_reg :: "('u, 'm) BaseCache \<Rightarrow> MSHR \<Rightarrow> bool" where
  "demand_reg c m \<longleftrightarrow> plain_register m \<and> tl_targets (m_targets m) \<noteq> [] \<and>
     (\<forall>t \<in> set (tl_targets (m_targets m)). mt_source t = FromCPU \<and> demand_req c (tg_pkt t) \<and>
        blk_align (bt_indexingPolicy (c_tags c)) (p_addr (tg_pkt t)) = qe_blkAddr m \<and>
        p_isSecure (tg_pkt t) = qe_isSecure m)"

lemma demand_reg_served:
  assumes "demand_reg c m" "p_cmd p = ReadExResp"
  shows "served_targets p (tl_targets (m_targets m)) = (tl_targets (m_targets m), [])" "\<not> hasLockedRMWReadTarget m"
proof -
  let ?ts = "tl_targets (m_targets m)" and ?P = "\<lambda>t. p_cmd (tg_pkt t) \<noteq> LockedRMWReadReq"
  have n: "\<forall>t \<in> set ?ts. ?P t"
    using assms(1) by (auto simp: demand_reg_def demand_req_def demand_pkt_def)
  then have k: "dropWhile ?P ?ts = []" "takeWhile ?P ?ts = ?ts"
    by (simp_all add: dropWhile_eq_Nil_conv takeWhile_eq_all_conv)
  show "served_targets p ?ts = (?ts, [])" unfolding served_targets_def Let_def k using assms(2) by simp
  show "\<not> hasLockedRMWReadTarget m" using n by (auto simp: hasLockedRMWReadTarget_def)
qed

text \<open>A response that a cache gives to a target: the response of the request with no delays.\<close>

definition answers :: "Packet \<Rightarrow> Packet \<Rightarrow> bool" where
  "answers pkt r \<longleftrightarrow> (\<exists>q. Packet_makeTimingResponse pkt = Inr q \<and> r = q\<lparr>p_headerDelay := 0, p_payloadDelay := 0\<rparr>)"

lemma service_loop_demand:
  assumes "\<forall>t \<in> set ts. mt_source t = FromCPU \<and> demand_pkt c (tg_pkt t)" "\<not> Packet_isError pkt" "cache_inv c"
  shows "\<exists>rs. service_loop pkt blk ts from c =
      Inr ((fst from \<or> ts \<noteq> [], snd from), c\<lparr>c_answered := c_answered c @ rs\<rparr>) \<and> list_all2 answers (map tg_pkt ts) rs"
  using assms
proof (induction ts arbitrary: "from" c)
  case Nil
  then show ?case by (intro exI [of _ "[]"]) (simp add: prod_eq_iff)
next
  case (Cons t ts)
  have p: "demand_pkt c (tg_pkt t)" "mt_source t = FromCPU" using Cons.prems(1) by simp_all
  then have ok: "pkt_ok (c_blkSize c) (tg_pkt t)" and cmd: "p_cmd (tg_pkt t) = ReadReq \<or> p_cmd (tg_pkt t) = WriteReq"
    by (simp_all add: demand_pkt_def)
  note d = demand_cmd [OF cmd] and off = cache_block_addr(4) [OF Cons.prems(3) ok]
  obtain q where q: "Packet_makeTimingResponse (tg_pkt t) = Inr q"
    using Packet_makeResponse_Inr [OF d(3)] by (simp add: Packet_makeTimingResponse_def)
  let ?r = "q\<lparr>p_headerDelay := 0, p_payloadDelay := 0\<rparr>"
  let ?c = "c\<lparr>c_answered := c_answered c @ [?r]\<rparr>"
  have "cache_inv ?c" using Cons.prems(3) by (simp add: cache_inv_def)
  moreover have "\<forall>t \<in> set ts. mt_source t = FromCPU \<and> demand_pkt ?c (tg_pkt t)"
    using Cons.prems(1) by (simp add: demand_pkt_def)
  ultimately obtain rs where rs: "service_loop pkt blk ts (True, snd from) ?c =
      Inr ((fst (True, snd from) \<or> ts \<noteq> [], snd (True, snd from)), ?c\<lparr>c_answered := c_answered ?c @ rs\<rparr>)"
    "list_all2 answers (map tg_pkt ts) rs"
    using Cons.IH [OF _ Cons.prems(2)] by blast
  have "satisfyRequest (tg_pkt t) blk c = Inr c" using d(2) by (auto simp: satisfyRequest_def BaseCache_satisfyRequest_def)
  moreover have "answer pkt (tg_pkt t) c = Inr ?c" using q Cons.prems(2) by (simp add: answer_def)
  ultimately have e: "service_loop pkt blk (t # ts) from c = service_loop pkt blk ts (True, snd from) ?c"
    by (simp only: service_loop.simps(2) p(2) Source.case bindR.simps off requestor_small check_True)
  have l: "service_loop pkt blk (t # ts) from c =
      Inr ((fst from \<or> t # ts \<noteq> [], snd from), c\<lparr>c_answered := c_answered c @ ?r # rs\<rparr>)"
    unfolding e rs(1) by simp
  have "answers (tg_pkt t) ?r" using q by (simp only: answers_def) blast
  then have "list_all2 answers (map tg_pkt (t # ts)) (?r # rs)" using rs(2) by simp
  with l show ?case by (rule exI [of _ "?r # rs", OF conjI])
qed

lemma put_mshr_id [simp]: "put_mshr i (get_mshr i c) c = c"
  by (simp add: put_mshr_def get_mshr_def set_entry_def)

lemma cache_inv_entry:
  assumes "cache_inv c" "i \<in> set (q_allocatedList (c_mshrQueue c))"
  shows "MSHR_wf (c_blkSize c) (get_mshr i c)" "MSHR_live (c_blkSize c) (get_mshr i c)" "i < length (q_entries (c_mshrQueue c))"
  using assms mq_inv_entry [of "c_blkSize c" "c_mshrQueue c" i] by (simp_all add: cache_inv_def get_mshr_def)

lemma cache_inv_put_mshr:
  assumes "cache_inv c" "i \<in> set (q_allocatedList (c_mshrQueue c))" "MSHR_wf (c_blkSize c) m" "MSHR_live (c_blkSize c) m"
    and "qe_inService m = qe_inService (get_mshr i c)"
  shows "cache_inv (put_mshr i m c)"
proof -
  have "mq_inv (c_blkSize c) (set_entry i m (c_mshrQueue c))"
    using assms by (intro mq_inv_set_entry) (simp_all add: cache_inv_def get_mshr_def)
  then show ?thesis unfolding put_mshr_def by (intro cache_inv_mshr [OF assms(1)]) simp_all
qed

text \<open>All targets of a register are answered, in order, and none is left.\<close>

lemma serviceMSHRTargets_demand:
  assumes inv: "cache_inv c" and i: "i \<in> set (q_allocatedList (c_mshrQueue c))" and r: "demand_reg c (get_mshr i c)"
    and p: "p_cmd p = ReadExResp"
  shows "\<exists>m rs. serviceMSHRTargets env i p (Some blk) c = Inr ((put_mshr i m c)\<lparr>c_answered := c_answered c @ rs\<rparr>) \<and>
    list_all2 answers (map tg_pkt (all_targets (get_mshr i c))) rs \<and> all_targets m = [] \<and>
    cache_inv ((put_mshr i m c)\<lparr>c_answered := c_answered c @ rs\<rparr>)"
proof -
  let ?m = "get_mshr i c" and ?ts = "tl_targets (m_targets (get_mshr i c))"
  note e = cache_inv_entry [OF inv i]
  have ts: "?ts \<noteq> []" "tl_targets (m_deferredTargets ?m) = []" "\<forall>t \<in> set ?ts. mt_source t = FromCPU \<and> demand_pkt c (tg_pkt t)"
    using r by (simp_all add: demand_reg_def plain_register_def demand_req_def)
  then have h: "MSHR_hasTargets ?m" "pkt_ok (c_blkSize c) (tg_pkt (hd ?ts))" by (simp_all add: MSHR_hasTargets_def demand_pkt_def)
  obtain rt m' where m': "extractServiceableTargets (env_list_junk env) p ?m = Inr (rt, m')" "MSHR_wf (c_blkSize c) m'"
    "MSHR_live (c_blkSize c) m'" "tl_targets rt = ?ts" "tl_targets (m_targets m') = []"
    "m_deferredTargets m' = m_deferredTargets ?m" "qe_inService m' = qe_inService ?m"
    using extract_ok [OF e(1,2) h(1) demand_reg_served(1) [OF r p], of "env_list_junk env"] by blast
  let ?c = "put_mshr i m' c"
  have ci: "cache_inv ?c" by (rule cache_inv_put_mshr [OF inv i m'(2,3,7)])
  have f: "demand_pkt ?c = demand_pkt c" "c_answered ?c = c_answered c" by (simp_all add: demand_pkt_def put_mshr_def fun_eq_iff)
  obtain rs where rs: "service_loop p (Some blk) ?ts (False, False) ?c = Inr ((True, False), ?c\<lparr>c_answered := c_answered c @ rs\<rparr>)"
    "list_all2 answers (map tg_pkt ?ts) rs"
    using service_loop_demand [of ?ts ?c p "Some blk" "(False, False)"] ts fill_resp_cmd(5) [OF p] ci by (auto simp: f)
  have "get_mshr i (?c\<lparr>c_answered := c_answered c @ rs\<rparr>) = m'" using e(3) by (simp add: get_mshr_def put_mshr_def)
  moreover have "all_targets m' = []" using m'(5,6) ts(2) by (simp add: all_targets_def)
  ultimately have "serviceMSHRTargets env i p (Some blk) c = Inr (?c\<lparr>c_answered := c_answered c @ rs\<rparr>)"
    using h(1) cache_block_addr(4) [OF inv h(2)] m'(1,4) rs(1)
    by (simp add: serviceMSHRTargets_def MSHR_getTarget_def MSHR_getNumTargets_all)
  moreover have "cache_inv (?c\<lparr>c_answered := c_answered c @ rs\<rparr>)" using ci by (simp add: cache_inv_def)
  moreover have "all_targets ?m = ?ts" using ts(2) by (simp add: all_targets_def)
  ultimately show ?thesis using rs(2) \<open>all_targets m' = []\<close> by (intro exI [of _ m'] exI [of _ rs]) simp
qed

text \<open>A register without targets is released.\<close>

lemma resp_release_empty:
  assumes inv: "cache_inv c" and i: "i \<in> set (q_allocatedList (c_mshrQueue c))" and e: "all_targets (get_mshr i c) = []"
    and pf: "c_prefetcher c = None"
  shows "\<exists>q bl. resp_release i blk c = Inr (c\<lparr>c_mshrQueue := q, c_blocked := bl\<rparr>) \<and>
    cache_inv (c\<lparr>c_mshrQueue := q, c_blocked := bl\<rparr>) \<and> set (q_allocatedList q) = set (q_allocatedList (c_mshrQueue c)) - {i} \<and>
    (\<forall>j. j \<noteq> i \<longrightarrow> entry_at q j = get_mshr j c) \<and> q_numReserve q = q_numReserve (c_mshrQueue c)"
proof -
  have m: "mq_inv (c_blkSize c) (c_mshrQueue c)" using inv by (simp add: cache_inv_def)
  obtain q where q: "MSHRQueue_deallocate i (c_mshrQueue c) = Inr q" "mq_inv (c_blkSize c) q"
    "set (q_allocatedList q) = set (q_allocatedList (c_mshrQueue c)) - {i}" "q_numReserve q = q_numReserve (c_mshrQueue c)"
    "\<forall>j. j \<noteq> i \<longrightarrow> entry_at q j = entry_at (c_mshrQueue c) j"
    using MSHRQueue_deallocate_ok [OF m i] e by (auto simp: get_mshr_def)
  have "promoteDeferredTargets curTick (get_mshr i c) = Inr (False, get_mshr i c)"
    using promoteDeferred_ok [OF cache_inv_entry(1,2) [OF inv i], of curTick] e by simp
  moreover define bl where "bl = (if Queue_isFull (c_mshrQueue c) \<and> \<not> Queue_isFull q
    then c_blocked (clearBlocked Blocked_NoMSHRs c) else c_blocked c)"
  ultimately have bl: "resp_release i blk c = Inr (c\<lparr>c_mshrQueue := q, c_blocked := bl\<rparr>)"
    using q(1) pf by (simp add: resp_release_def Let_def clearBlocked_def)
  have "cache_inv (c\<lparr>c_mshrQueue := q, c_blocked := bl\<rparr>)"
    using cache_inv_mshr [OF inv q(2,4)] by (simp add: cache_inv_def)
  with bl q(3-5) show ?thesis by (intro exI [of _ q] exI [of _ bl]) (simp add: get_mshr_def)
qed

text \<open>
  A register has been served: its block is present, readable and writable, in one of the ways, its
  targets have been answered in order, and the register is no longer allocated.
\<close>

definition served :: "nat \<Rightarrow> ('u, 'm) BaseCache \<Rightarrow> ('u, 'm) BaseCache \<Rightarrow> bool" where
  "served i c c' \<longleftrightarrow>
     (\<exists>k b. c_tags c' = upd_blk k b (c_tags c) \<and> k < length (bt_blks (c_tags c)) \<and>
        CacheBlk_isSet ReadableBit b \<and> CacheBlk_isSet WritableBit b \<and>
        (\<forall>a s. tag_lookup (c_tags c') a s =
           (if blk_align (bt_indexingPolicy (c_tags c)) a = qe_blkAddr (get_mshr i c) \<and> s = qe_isSecure (get_mshr i c)
            then Some k else tag_lookup (c_tags c) a s))) \<and>
     (\<exists>rs. c_answered c' = c_answered c @ rs \<and> list_all2 answers (map tg_pkt (all_targets (get_mshr i c))) rs) \<and>
     set (q_allocatedList (c_mshrQueue c')) = set (q_allocatedList (c_mshrQueue c)) - {i} \<and>
     (\<forall>j. j \<noteq> i \<longrightarrow> get_mshr j c' = get_mshr j c) \<and> c_below c' = c_below c"

definition serve_frame :: "('u, 'm) BaseCache \<Rightarrow> ('u, 'm) BaseCache \<Rightarrow> bool" where
  "serve_frame c c' \<longleftrightarrow> c_blkSize c' = c_blkSize c \<and> c_prefetcher c' = c_prefetcher c \<and> c_isReadOnly c' = c_isReadOnly c \<and>
     c_writeAllocator c' = c_writeAllocator c \<and> c_reqPacketQueue c' = c_reqPacketQueue c \<and>
     q_numReserve (c_mshrQueue c') = q_numReserve (c_mshrQueue c)"

lemma demand_reg_cong:
  "c_blkSize c' = c_blkSize c \<Longrightarrow> c_isReadOnly c' = c_isReadOnly c \<Longrightarrow>
   bt_indexingPolicy (c_tags c') = bt_indexingPolicy (c_tags c) \<Longrightarrow> demand_reg c' m = demand_reg c m"
  "c_blkSize c' = c_blkSize c \<Longrightarrow> c_isReadOnly c' = c_isReadOnly c \<Longrightarrow> demand_req c' p = demand_req c p"
  by (simp_all add: demand_reg_def demand_req_def demand_pkt_def)

lemma resp_fill_demand:
  assumes "demand_reg c (get_mshr i c)" "\<not> m_isForward (get_mshr i c)" "fill_resp c p a s" "cache_inv c"
    and "tag_lookup (c_tags c) a s = None" "c_writeAllocator c = None"
  shows "resp_fill env p i c = bindR (handleFill env p None [] True c) (\<lambda>(b, c). Inr (Some b, c))"
proof -
  have "tags_inv (c_tags c)" using assms(4) by (simp add: cache_inv_def)
  note f = cache_findBlock_Inr [OF this, of a s]
  have p: "p_cmd p = ReadExResp" "Packet_getAddr p = Inr a" "Packet_isSecure p = Inr s"
    using assms(3) by (simp_all add: fill_resp_def)
  show ?thesis
    using fill_resp_cmd [OF p(1)] p f assms(1,2,5,6)
    by (simp add: resp_fill_def demand_reg_def plain_register_def MSHR_allocOnFill_def)
qed

lemma resp_promote_demand:
  assumes "demand_reg c (get_mshr i c)" "p_cmd p = ReadExResp" "k < length (bt_blks (c_tags c))"
  shows "resp_promote env p i (Some (TagBlk k)) c = Inr c"
proof -
  have "promoteWritable (env_up env) (get_mshr i c) (c_up c) = Inr (get_mshr i c, c_up c)"
    using assms(1) by (simp add: demand_reg_def plain_register_def promoteWritable_def)
  then show ?thesis
    using fill_resp_cmd [OF assms(2)] demand_reg_served(2) [OF assms(1,2)] assms(3)
    by (simp add: resp_promote_def)
qed

text \<open>The cache when a response for register \<open>i\<close> has been taken in, before its block is filled.\<close>

definition received :: "nat \<Rightarrow> ('u, 'm) BaseCache \<Rightarrow> ('u, 'm) BaseCache" where
  "received i c = (let c = c\<lparr>c_links := (c_links c)(i := None)\<rparr> in
    if c_noTargetMSHR c = Some i then (clearBlocked Blocked_NoTargets c)\<lparr>c_noTargetMSHR := None\<rparr> else c)"

lemma received_frame [simp]:
  "c_tags (received i c) = c_tags c" "c_mshrQueue (received i c) = c_mshrQueue c" "c_blkSize (received i c) = c_blkSize c"
  "c_isReadOnly (received i c) = c_isReadOnly c" "c_answered (received i c) = c_answered c" "c_heap (received i c) = c_heap c"
  "c_writeAllocator (received i c) = c_writeAllocator c" "c_prefetcher (received i c) = c_prefetcher c"
  "c_below (received i c) = c_below c" "c_reqPacketQueue (received i c) = c_reqPacketQueue c"
  "c_writeBuffer (received i c) = c_writeBuffer c" "get_mshr j (received i c) = get_mshr j c"
  by (simp_all add: received_def clearBlocked_def Let_def get_mshr_def)

text \<open>The stages after the fill: promotion, the answers, the release of the register and of the packet.\<close>

definition after_fill :: "('u, 'm) cache_env \<Rightarrow> Packet \<Rightarrow> nat \<Rightarrow> blkptr option \<Rightarrow> ('u, 'm) BaseCache \<Rightarrow> ('u, 'm) BaseCache result" where
  "after_fill env p i blk c =
     bindR (resp_promote env p i blk c) (\<lambda>c.
     bindR (serviceMSHRTargets env i p blk c) (\<lambda>c.
     bindR (if \<not> hasLockedRMWReadTarget (get_mshr i c) then
              bindR (resp_release i blk c) (\<lambda>c.
                if blk = Some TempBlk \<and> TaggedEntry_isValid (c_tempBlock c)
                then bindR (evictBlock_to env TempBlk [] c) (\<lambda>(_, c). Inr c) else Inr c)
            else Inr c) (\<lambda>c. cache_delete (Some p) c)))"

lemma recvTimingResp_stages:
  assumes inv: "cache_inv c" and i: "i \<in> set (q_allocatedList (c_mshrQueue c))" and r: "demand_reg c (get_mshr i c)"
    and p: "p_cmd p = ReadExResp" "\<not> Packet_hasSharers p" "p_senderState p = Some i"
    and v: "isSet (p_flags p) PKT_VALID_ADDR" "isSet (p_flags p) PKT_VALID_SIZE"
  shows "recvTimingResp env p c =
    bindR (resp_fill env (p\<lparr>p_senderState := c_links c i\<rparr>) i (received i c)) (\<lambda>(blk, c').
      after_fill env (p\<lparr>p_senderState := c_links c i\<rparr>) i blk c')"
proof -
  have g: "MSHR_getTarget (get_mshr i c) = Inr (hd (tl_targets (m_targets (get_mshr i c))))"
    using r by (simp add: MSHR_getTarget_def MSHR_hasTargets_def demand_reg_def)
  show ?thesis
    using fill_resp_cmd [OF p(1)] p v cache_inv_entry(3) [OF inv i] g
    by (cases "c_noTargetMSHR c = Some i")
      (simp_all add: recvTimingResp_def BaseCache_recvTimingResp_def Packet_popSenderState_def Let_def received_def after_fill_def
        get_mshr_def clearBlocked_def)
qed

lemma after_fill_demand:
  assumes inv: "cache_inv c" and i: "i \<in> set (q_allocatedList (c_mshrQueue c))" and r: "demand_reg c (get_mshr i c)"
    and p: "p_cmd p = ReadExResp" "isSet (p_flags p) PKT_STATIC_DATA" and k: "k < length (bt_blks (c_tags c))" and pf: "c_prefetcher c = None"
  shows "\<exists>m rs q bl. after_fill env p i (Some (TagBlk k)) c =
      Inr ((put_mshr i m c)\<lparr>c_answered := c_answered c @ rs, c_mshrQueue := q, c_blocked := bl\<rparr>) \<and>
    cache_inv ((put_mshr i m c)\<lparr>c_answered := c_answered c @ rs, c_mshrQueue := q, c_blocked := bl\<rparr>) \<and>
    list_all2 answers (map tg_pkt (all_targets (get_mshr i c))) rs \<and>
    set (q_allocatedList q) = set (q_allocatedList (c_mshrQueue c)) - {i} \<and> (\<forall>j. j \<noteq> i \<longrightarrow> entry_at q j = get_mshr j c) \<and>
    q_numReserve q = q_numReserve (c_mshrQueue c)"
proof -
  note il = cache_inv_entry(3) [OF inv i]
  obtain m rs where s: "serviceMSHRTargets env i p (Some (TagBlk k)) c = Inr ((put_mshr i m c)\<lparr>c_answered := c_answered c @ rs\<rparr>)"
    "list_all2 answers (map tg_pkt (all_targets (get_mshr i c))) rs" "all_targets m = []"
    "cache_inv ((put_mshr i m c)\<lparr>c_answered := c_answered c @ rs\<rparr>)"
    using serviceMSHRTargets_demand [OF inv i r p(1), of env "TagBlk k"] by auto
  let ?c = "(put_mshr i m c)\<lparr>c_answered := c_answered c @ rs\<rparr>"
  have c: "get_mshr j ?c = (if j = i then m else get_mshr j c)" "c_mshrQueue ?c = set_entry i m (c_mshrQueue c)" for j
    using il by (simp_all add: get_mshr_def put_mshr_def)
  have i4: "i \<in> set (q_allocatedList (c_mshrQueue ?c))" "all_targets (get_mshr i ?c) = []"
    using i s(3) by (simp_all only: c set_entry_simps simp_thms if_True)
  have "c_prefetcher ?c = None" using pf by (simp add: put_mshr_def)
  then obtain q bl where l: "resp_release i (Some (TagBlk k)) ?c = Inr (?c\<lparr>c_mshrQueue := q, c_blocked := bl\<rparr>)"
    "cache_inv (?c\<lparr>c_mshrQueue := q, c_blocked := bl\<rparr>)"
    "set (q_allocatedList q) = set (q_allocatedList (c_mshrQueue ?c)) - {i}" "\<forall>j. j \<noteq> i \<longrightarrow> entry_at q j = get_mshr j ?c"
    "q_numReserve q = q_numReserve (c_mshrQueue ?c)"
    using resp_release_empty [OF s(4) i4, of "Some (TagBlk k)"] by blast
  have "\<not> hasLockedRMWReadTarget (get_mshr i ?c)" using s(3) by (simp add: c hasLockedRMWReadTarget_def all_targets_def)
  moreover have "cache_delete (Some p) (?c\<lparr>c_mshrQueue := q, c_blocked := bl\<rparr>) = Inr (?c\<lparr>c_mshrQueue := q, c_blocked := bl\<rparr>)"
    using p(2) by (simp add: cache_delete_def delete_pkt_def Packet_deleteData_def)
  ultimately have e: "after_fill env p i (Some (TagBlk k)) c = Inr (?c\<lparr>c_mshrQueue := q, c_blocked := bl\<rparr>)"
    using resp_promote_demand [OF r p(1) k, of env] s(1) l(1) by (simp add: after_fill_def)
  have q: "set (q_allocatedList q) = set (q_allocatedList (c_mshrQueue c)) - {i}" "\<forall>j. j \<noteq> i \<longrightarrow> entry_at q j = get_mshr j c"
    "q_numReserve q = q_numReserve (c_mshrQueue c)"
    using l(3-5) by (simp_all add: c)
  show ?thesis
  proof (intro exI conjI)
    show "after_fill env p i (Some (TagBlk k)) c = Inr (?c\<lparr>c_mshrQueue := q, c_blocked := bl\<rparr>)" by (rule e)
  qed (use l(2) s(2) q in simp_all)
qed

lemma recvTimingResp_demand:
  assumes inv: "cache_inv c" and i: "i \<in> set (q_allocatedList (c_mshrQueue c))" and r: "demand_reg c (get_mshr i c)"
    and fw: "\<not> m_isForward (get_mshr i c)" and p: "fill_resp c p (qe_blkAddr (get_mshr i c)) (qe_isSecure (get_mshr i c))"
    and ss: "p_senderState p = Some i" and st: "isSet (p_flags p) PKT_STATIC_DATA"
    and miss: "tag_lookup (c_tags c) (qe_blkAddr (get_mshr i c)) (qe_isSecure (get_mshr i c)) = None"
    and rnd: "env_rnd env < tassoc (c_tags c)" and pf: "c_prefetcher c = None" and wa: "c_writeAllocator c = None"
  shows "if \<exists>j \<in> set (set_ways (c_tags c) (qe_blkAddr (get_mshr i c))). \<not> t_valid (bt_blks (c_tags c) ! j)
    then \<exists>c'. recvTimingResp env p c = Inr c' \<and> cache_inv c' \<and> served i c c' \<and> serve_frame c c' \<and> c_heap c' = c_heap c
    else recvTimingResp env p c = Inl (AssertFail ''!blk->isValid()'')"
proof -
  let ?m = "get_mshr i c" and ?T = "c_tags c" and ?c2 = "received i c" and ?p = "p\<lparr>p_senderState := c_links c i\<rparr>"
  let ?a = "qe_blkAddr ?m" and ?s = "qe_isSecure ?m"
  have cmd: "p_cmd p = ReadExResp" "\<not> Packet_hasSharers p" using p by (simp_all add: fill_resp_def)
  have "isSet (p_flags p) PKT_VALID_ADDR" "isSet (p_flags p) PKT_VALID_SIZE"
    using p by (auto simp: fill_resp_def Packet_getAddr_def Packet_getSize_def check_def split: if_splits)
  note e = recvTimingResp_stages [OF inv i r cmd ss this, of env]
  have inv2: "cache_inv ?c2" using inv by (simp add: cache_inv_def)
  have r2: "demand_reg ?c2 (get_mshr i ?c2)" using r demand_reg_cong(1) [of ?c2 c] by simp
  have p2: "fill_resp ?c2 ?p ?a ?s" "p_cmd ?p = ReadExResp" "isSet (p_flags ?p) PKT_STATIC_DATA"
    using p st by (simp_all add: fill_resp_def Packet_getAddr_def Packet_isSecure_def Packet_getSize_def
        Packet_hasSharers_def Packet_cacheResponding_def)
  have "c_writeAllocator ?c2 = None" using wa by simp
  note fl = resp_fill_demand [OF r2 _ p2(1) inv2 _ this, of env, unfolded received_frame, OF fw miss]
  show ?thesis
  proof (cases "\<exists>j \<in> set (set_ways ?T ?a). \<not> t_valid (bt_blks ?T ! j)")
    case False
    then have "handleFill env ?p None [] True ?c2 = Inl (AssertFail ''!blk->isValid()'')"
      using handleFill_full [OF inv2 p2(1), of env] rnd by auto
    with False show ?thesis by (simp add: e fl)
  next
    case True
    then obtain k b where kb: "handleFill env ?p None [] True ?c2 = Inr (TagBlk k, ?c2\<lparr>c_tags := upd_blk k b ?T\<rparr>)"
      "cache_inv (?c2\<lparr>c_tags := upd_blk k b ?T\<rparr>)" "k < length (bt_blks ?T)" "CacheBlk_isSet ReadableBit b"
      "CacheBlk_isSet WritableBit b"
      "\<And>a' s'. tag_lookup (upd_blk k b ?T) a' s' =
        (if blk_align (bt_indexingPolicy ?T) a' = ?a \<and> s' = ?s then Some k else tag_lookup ?T a' s')"
      using handleFill_fills [OF inv2 p2(1), of env] rnd miss unfolding received_frame by blast
    let ?c3 = "?c2\<lparr>c_tags := upd_blk k b ?T\<rparr>"
    have m3: "get_mshr j ?c3 = get_mshr j c" for j by (simp add: get_mshr_def)
    have r3: "demand_reg ?c3 (get_mshr i ?c3)" using r demand_reg_cong(1) [of ?c3 c] by (simp add: m3)
    obtain m rs q bl where a: "after_fill env ?p i (Some (TagBlk k)) ?c3 =
        Inr ((put_mshr i m ?c3)\<lparr>c_answered := c_answered c @ rs, c_mshrQueue := q, c_blocked := bl\<rparr>)"
      "cache_inv ((put_mshr i m ?c3)\<lparr>c_answered := c_answered c @ rs, c_mshrQueue := q, c_blocked := bl\<rparr>)"
      "list_all2 answers (map tg_pkt (all_targets ?m)) rs"
      "set (q_allocatedList q) = set (q_allocatedList (c_mshrQueue c)) - {i}" "\<forall>j. j \<noteq> i \<longrightarrow> entry_at q j = get_mshr j c"
      "q_numReserve q = q_numReserve (c_mshrQueue c)"
      using after_fill_demand [OF kb(2) _ r3 p2(2,3), of k env] i kb(3) pf by (auto simp: m3)
    let ?c' = "(put_mshr i m ?c3)\<lparr>c_answered := c_answered c @ rs, c_mshrQueue := q, c_blocked := bl\<rparr>"
    have "recvTimingResp env p c = Inr ?c'" using a(1) by (simp add: e fl kb(1))
    moreover have "served i c ?c'"
      unfolding served_def using kb(3-6) a(3-5)
      by (intro conjI exI [of _ k] exI [of _ b] exI [of _ rs]) (simp_all add: put_mshr_def get_mshr_def)
    moreover have "serve_frame c ?c'" "c_heap ?c' = c_heap c" using a(6) by (simp_all add: serve_frame_def put_mshr_def)
    ultimately show ?thesis using True a(2) by (simp only: if_True) blast
  qed
qed

section \<open>Packets for a block\<close>

lemma block_not_mask:
  assumes "bs = (2 :: u32) ^ k" "k < 31"
  shows "(a :: u64) AND scast (NOT (bs - 1)) = a AND NOT (mask k)"
proof -
  have "bs - 1 = mask k" using assms(1) by (simp add: mask_eq_exp_minus_1)
  moreover have "(scast (NOT (mask k :: u32)) :: u64) = NOT (mask k)"
    using assms(2) by (intro bit_word_eqI) (auto simp: bit_simps)
  ultimately show ?thesis by simp
qed

definition block_flags :: u32 where
  "block_flags = PKT_VALID_ADDR OR PKT_VALID_SIZE"

lemma Packet_new_block:
  assumes "cache_inv c" "Request_hasPaddr req"
  shows "\<exists>p. Packet_new_blk junk rp req cmd (c_blkSize c) pid = Inr p \<and> p_cmd p = cmd \<and> p_req p = req \<and>
    p_addr p = blk_align (bt_indexingPolicy (c_tags c)) (r_paddr req) \<and> p_size p = c_blkSize c \<and>
    p_isSecure p = Request_isSecure req \<and> p_flags p = block_flags \<and> p_senderState p = None"
proof -
  have "r_paddr req AND scast (NOT (c_blkSize c - 1)) = blk_align (bt_indexingPolicy (c_tags c)) (r_paddr req)"
    using assms(1) block_not_mask [of "c_blkSize c" "ip_setShift (bt_indexingPolicy (c_tags c))" "r_paddr req"]
    by (simp add: cache_inv_def blk_align_def)
  then show ?thesis
    using assms(2) by (simp add: Packet_new_blk_def Let_def Request_getPaddr_def block_flags_def flag_ops)
qed

lemma blk_align_idem [simp]: "blk_align p (blk_align p a) = blk_align p a"
  by (simp add: blk_align_def and.assoc)

text \<open>The packet of a miss, and the response that is made of it.\<close>

definition miss_pkt :: "('u, 'm) BaseCache \<Rightarrow> Addr \<Rightarrow> bool \<Rightarrow> nat \<Rightarrow> Packet \<Rightarrow> bool" where
  "miss_pkt c a s b p \<longleftrightarrow> p_cmd p = ReadReq \<and> p_addr p = a \<and> p_isSecure p = s \<and> p_size p = c_blkSize c \<and>
     p_flags p = block_flags OR PKT_DYNAMIC_DATA \<and> p_data p = Ptr b 0 \<and> Request_hasPaddr (p_req p) \<and>
     blk_align (bt_indexingPolicy (c_tags c)) (r_paddr (p_req p)) = a \<and> Request_isSecure (p_req p) = s"

lemma miss_pkt_reads:
  assumes "miss_pkt c a s b p"
  shows "Packet_getAddr p = Inr a" "Packet_getSize p = Inr (c_blkSize c)" "Packet_getPtr p = Inr (Ptr b 0)"
    "\<not> Packet_hasSharers p" "\<not> Packet_isClean p" "Packet_isRead p" "\<not> isSet (p_flags p) PKT_STATIC_DATA"
  using assms
  by (simp_all add: miss_pkt_def Packet_getAddr_def Packet_getSize_def Packet_getPtr_def Packet_hasSharers_def
      Packet_isClean_def Packet_isRead_def Packet_isMaskedWrite_def isSet_def block_flags_def MemCmd_query_defs MemCmd_table)
    (simp_all add: flag_defs)

lemma createMissPacket_demand:
  assumes inv: "cache_inv c" and p: "demand_req c pkt"
  shows "\<exists>P bs. createMissPacket env pkt None nw wl c = Inr (Some P, c_heap c @ [Some bs]) \<and> length bs = unat (c_blkSize c) \<and>
    miss_pkt c (blk_align (bt_indexingPolicy (c_tags c)) (p_addr pkt)) (p_isSecure pkt) (length (c_heap c)) P \<and>
    p_senderState P = None"
proof -
  let ?a = "blk_align (bt_indexingPolicy (c_tags c)) (p_addr pkt)"
  have q: "p_cmd pkt = ReadReq \<or> p_cmd pkt = WriteReq" "Request_hasPaddr (p_req pkt)" "r_paddr (p_req pkt) = p_addr pkt"
    "Request_isSecure (p_req pkt) = p_isSecure pkt" using p by (simp_all add: demand_req_def demand_pkt_def)
  obtain P where P: "Packet_new_blk (fst (env_junk env)) (fst (snd (env_junk env))) (p_req pkt) ReadReq (c_blkSize c) 0 = Inr P"
    "p_cmd P = ReadReq" "p_req P = p_req pkt" "p_addr P = ?a" "p_size P = c_blkSize c" "p_isSecure P = p_isSecure pkt"
    "p_flags P = block_flags" "p_senderState P = None"
    using Packet_new_block [OF inv q(2), of "fst (env_junk env)" "fst (snd (env_junk env))" ReadReq 0] q(3,4) by auto
  have fl: "Packet_getAddr P = Inr ?a" "noneSet (p_flags P) (PKT_STATIC_DATA OR PKT_DYNAMIC_DATA)" "Packet_hasRespData P"
    using P(2,4,7) by (simp_all add: Packet_getAddr_def isSet_def noneSet_def block_flags_def Packet_hasRespData_def
        MemCmd_query_defs MemCmd_table) (simp_all add: flag_defs)
  let ?P = "P\<lparr>p_flags := block_flags OR PKT_DYNAMIC_DATA, p_data := Ptr (length (c_heap c)) 0\<rparr>"
  let ?bs = "map (snd (snd (env_junk env))) [0..<unat (c_blkSize c)]"
  have m: "miss_pkt c ?a (p_isSecure pkt) (length (c_heap c)) ?P" using P q(2-4) by (simp add: miss_pkt_def)
  have "Packet_getSize (P\<lparr>p_flags := setf (p_flags P) PKT_DYNAMIC_DATA\<rparr>) = Inr (c_blkSize c)"
    using miss_pkt_reads(2) [OF m] P(7) by (simp add: Packet_getSize_def setf_def)
  moreover have "log_pkt ?P (log_pkt pkt k) = k" for k :: "(Packet option \<times> heap) result"
  proof -
    have "isSet (p_flags pkt) PKT_VALID_ADDR" "isSet (p_flags pkt) PKT_VALID_SIZE"
      using p by (simp_all add: demand_req_def demand_pkt_def pkt_ok_def)
    moreover have "isSet (p_flags ?P) PKT_VALID_ADDR" "isSet (p_flags ?P) PKT_VALID_SIZE"
      by (simp_all add: isSet_def block_flags_def flag_defs)
    ultimately show ?thesis by simp
  qed
  ultimately have "createMissPacket env pkt None nw wl c = Inr (Some ?P, c_heap c @ [Some ?bs])"
    using demand_cmd(3) [OF q(1)] P(1,7) getBlockAddr_align [OF inv fl(1)] fl
    by (simp add: createMissPacket_def Packet_allocate_def new_bytes_def setf_def)
  with m P(8) show ?thesis by (intro exI [of _ ?P] exI [of _ ?bs]) simp
qed

lemma handleTimingRes_demand:
  assumes inv: "cache_inv c" and p: "miss_pkt c a s b P"
  shows "\<exists>R. handleTimingRes env P c = recvTimingResp env R c \<and> fill_resp c R a s \<and> p_senderState R = p_senderState P \<and>
    isSet (p_flags R) PKT_STATIC_DATA"
proof -
  note r = miss_pkt_reads [OF p]
  have q: "Request_hasPaddr (p_req P)" "blk_align (bt_indexingPolicy (c_tags c)) (r_paddr (p_req P)) = a"
    "Request_isSecure (p_req P) = s" using p by (simp_all add: miss_pkt_def)
  obtain R where R: "Packet_new_blk (fst (env_junk env)) (fst (snd (env_junk env))) (p_req P) ReadExResp (c_blkSize c) (p_id P) = Inr R"
    "p_cmd R = ReadExResp" "p_addr R = a" "p_size R = c_blkSize c" "p_isSecure R = s" "p_flags R = block_flags"
    using Packet_new_block [OF inv q(1), of "fst (env_junk env)" "fst (snd (env_junk env))" ReadExResp "p_id P"] q(2,3) by auto
  have n: "noneSet (p_flags R) (PKT_STATIC_DATA OR PKT_DYNAMIC_DATA)" using R(6) by (simp add: noneSet_def block_flags_def flag_defs)
  let ?R = "R\<lparr>p_data := Ptr b 0, p_flags := block_flags OR PKT_STATIC_DATA, p_senderState := p_senderState P\<rparr>"
  have "handleTimingRes env P c = recvTimingResp env ?R c"
    using r R(1,6) n by (simp add: handleTimingRes_def Packet_dataStatic_def setf_def)
  moreover have "fill_resp c ?R a s"
    using R q(2) blk_align_idem [of "bt_indexingPolicy (c_tags c)" "r_paddr (p_req P)"]
    by (simp add: fill_resp_def Packet_getAddr_def Packet_isSecure_def Packet_getSize_def Packet_hasSharers_def
        Packet_cacheResponding_def isSet_def block_flags_def) (simp add: flag_defs)
  moreover have "isSet (p_flags ?R) PKT_STATIC_DATA" by (simp add: isSet_def block_flags_def flag_defs)
  ultimately show ?thesis by (intro exI [of _ ?R]) simp
qed

section \<open>Sending\<close>

definition free_way :: "('u, 'm) BaseCache \<Rightarrow> Addr \<Rightarrow> bool" where
  "free_way c a \<longleftrightarrow> (\<exists>j \<in> set (set_ways (c_tags c) a). \<not> t_valid (bt_blks (c_tags c) ! j))"

lemma served_cong:
  assumes "served i c1 c'" "c_tags c1 = c_tags c" "c_answered c1 = c_answered c" "c_below c1 = c_below c"
    and "q_allocatedList (c_mshrQueue c1) = q_allocatedList (c_mshrQueue c)" "\<And>j. j \<noteq> i \<Longrightarrow> get_mshr j c1 = get_mshr j c"
    and "qe_blkAddr (get_mshr i c1) = qe_blkAddr (get_mshr i c)" "qe_isSecure (get_mshr i c1) = qe_isSecure (get_mshr i c)"
    and "all_targets (get_mshr i c1) = all_targets (get_mshr i c)"
  shows "served i c c'"
  using assms unfolding served_def by metis

lemma miss_packet_demand:
  assumes inv: "cache_inv c" and i: "i \<in> set (q_allocatedList (c_mshrQueue c))" and r: "demand_reg c (get_mshr i c)"
  shows "\<exists>P bs m. miss_packet env i (tg_pkt (hd (tl_targets (m_targets (get_mshr i c))))) None c =
      Inr (P, (put_mshr i m c)\<lparr>c_heap := c_heap c @ [Some bs]\<rparr>) \<and> length bs = unat (c_blkSize c) \<and>
    m = (get_mshr i c)\<lparr>m_isForward := False\<rparr> \<and> p_senderState P = None \<and>
    miss_pkt c (qe_blkAddr (get_mshr i c)) (qe_isSecure (get_mshr i c)) (length (c_heap c)) P"
proof -
  let ?m = "get_mshr i c"
  let ?pkt = "tg_pkt (hd (tl_targets (m_targets ?m)))"
  have p: "demand_req c ?pkt" "blk_align (bt_indexingPolicy (c_tags c)) (p_addr ?pkt) = qe_blkAddr ?m"
    "p_isSecure ?pkt = qe_isSecure ?m" using r by (simp_all add: demand_reg_def)
  obtain P bs where P: "createMissPacket env ?pkt None (MSHR_needsWritable ?m) (MSHR_isWholeLineWrite ?m) c =
      Inr (Some P, c_heap c @ [Some bs])" "length bs = unat (c_blkSize c)" "p_senderState P = None"
    "miss_pkt c (qe_blkAddr ?m) (qe_isSecure ?m) (length (c_heap c)) P"
    using createMissPacket_demand [OF inv p(1), unfolded p(2,3), of env "MSHR_needsWritable ?m" "MSHR_isWholeLineWrite ?m"] by blast
  then show ?thesis
    by (intro exI [of _ P] exI [of _ bs] exI [of _ "?m\<lparr>m_isForward := False\<rparr>"]) (simp add: miss_packet_def Let_def)
qed

text \<open>The cache when the packet for the first target of register \<open>i\<close> is on its way.\<close>

definition sending :: "nat \<Rightarrow> ('u, 'm) BaseCache \<Rightarrow> heap \<Rightarrow> ('u, 'm) BaseCache" where
  "sending i c h = (put_mshr i ((get_mshr i c)\<lparr>m_isForward := False\<rparr>) c)\<lparr>c_links := (c_links c)(i := None), c_heap := h\<rparr>"

lemma sending_frame:
  assumes "cache_inv c" "i \<in> set (q_allocatedList (c_mshrQueue c))"
  shows "c_tags (sending i c h) = c_tags c" "c_blkSize (sending i c h) = c_blkSize c" "c_isReadOnly (sending i c h) = c_isReadOnly c"
    "c_answered (sending i c h) = c_answered c" "c_prefetcher (sending i c h) = c_prefetcher c"
    "c_writeAllocator (sending i c h) = c_writeAllocator c" "c_below (sending i c h) = c_below c"
    "c_reqPacketQueue (sending i c h) = c_reqPacketQueue c" "c_writeBuffer (sending i c h) = c_writeBuffer c"
    "q_allocatedList (c_mshrQueue (sending i c h)) = q_allocatedList (c_mshrQueue c)" "c_heap (sending i c h) = h"
    "get_mshr j (sending i c h) = (if j = i then (get_mshr i c)\<lparr>m_isForward := False\<rparr> else get_mshr j c)"
    "c_below_update (\<lambda>_. c_below c) (sending i c h) = sending i c h"
    "q_numReserve (c_mshrQueue (sending i c h)) = q_numReserve (c_mshrQueue c)"
  using cache_inv_entry(3) [OF assms] by (simp_all add: sending_def put_mshr_def get_mshr_def)

lemma sending_inv:
  assumes inv: "cache_inv c" and i: "i \<in> set (q_allocatedList (c_mshrQueue c))"
  shows "cache_inv (sending i c h)"
proof -
  let ?m = "(get_mshr i c)\<lparr>m_isForward := False\<rparr>"
  have "MSHR_wf (c_blkSize c) ?m" "MSHR_live (c_blkSize c) ?m" "qe_inService ?m = qe_inService (get_mshr i c)"
    using cache_inv_entry(1,2) [OF inv i] by (simp_all add: MSHR_wf_def MSHR_live_def)
  from cache_inv_put_mshr [OF inv i this] show ?thesis by (simp add: sending_def cache_inv_def)
qed

text \<open>What is sent, and what is done with the result.\<close>

lemma sendMSHRQueuePacket_sends:
  assumes inv: "cache_inv c" and i: "i \<in> set (q_allocatedList (c_mshrQueue c))" and r: "demand_reg c (get_mshr i c)"
    and miss: "tag_lookup (c_tags c) (qe_blkAddr (get_mshr i c)) (qe_isSecure (get_mshr i c)) = None"
    and wa: "c_writeAllocator c = None"
  shows "\<exists>P bs. miss_pkt c (qe_blkAddr (get_mshr i c)) (qe_isSecure (get_mshr i c)) (length (c_heap c)) P \<and>
    p_senderState P = Some i \<and> length bs = unat (c_blkSize c) \<and>
    sendMSHRQueuePacket env i c =
      bindR (env_sendTimingReq env P (c_heap c @ [Some bs]) (c_below c)) (\<lambda>(sent, h, below).
        let c = (sending i c h)\<lparr>c_below := below\<rparr>
        in if sent then
             bindR (handleTimingRes env P c) (\<lambda>c. bindR (cache_delete (Some P) c) (\<lambda>c. Inr (True, c)))
           else
             let pending_modified_resp = (\<not> Packet_hasSharers P \<and> Packet_cacheResponding P)
             in bindR (markInService_mshr env i pending_modified_resp c) (\<lambda>c. Inr (False, c)))"
proof -
  let ?m = "get_mshr i c" and ?b = "length (c_heap c)"
  let ?a = "qe_blkAddr ?m" and ?s = "qe_isSecure ?m"
  obtain P0 bs m where P0: "miss_packet env i (tg_pkt (hd (tl_targets (m_targets ?m)))) None c =
      Inr (P0, (put_mshr i m c)\<lparr>c_heap := c_heap c @ [Some bs]\<rparr>)" "length bs = unat (c_blkSize c)"
    "m = ?m\<lparr>m_isForward := False\<rparr>" "p_senderState P0 = None" "miss_pkt c ?a ?s ?b P0"
    using miss_packet_demand [OF inv i r] by blast
  define P where "P = P0\<lparr>p_senderState := Some i\<rparr>"
  have mp: "miss_pkt c ?a ?s ?b P" using P0(5) by (simp add: miss_pkt_def P_def)
  have f: "cache_findBlock ?a ?s c = Inr None"
    using cache_findBlock_Inr [of c ?a ?s] miss inv by (simp add: cache_inv_def)
  have g: "MSHR_getTarget ?m = Inr (hd (tl_targets (m_targets ?m)))"
    using r by (simp add: MSHR_getTarget_def MSHR_hasTargets_def demand_reg_def)
  have "hd (tl_targets (m_targets ?m)) \<in> set (tl_targets (m_targets ?m))" using r by (simp add: demand_reg_def)
  then have "demand_req c (tg_pkt (hd (tl_targets (m_targets ?m))))" using r unfolding demand_reg_def by blast
  then have v: "isSet (p_flags (tg_pkt (hd (tl_targets (m_targets ?m))))) PKT_VALID_ADDR"
    "isSet (p_flags (tg_pkt (hd (tl_targets (m_targets ?m))))) PKT_VALID_SIZE"
    by (simp_all add: demand_req_def demand_pkt_def pkt_ok_def)
  note simps = sendMSHRQueuePacket_def write_coalescing_def Packet_pushSenderState_def Let_def put_mshr_def sending_def
  have "sendMSHRQueuePacket env i c =
      bindR (env_sendTimingReq env P (c_heap c @ [Some bs]) (c_below c)) (\<lambda>(sent, h, below).
        let c = (sending i c h)\<lparr>c_below := below\<rparr>
        in if sent then
             bindR (handleTimingRes env P c) (\<lambda>c. bindR (cache_delete (Some P) c) (\<lambda>c. Inr (True, c)))
           else
             let pending_modified_resp = (\<not> Packet_hasSharers P \<and> Packet_cacheResponding P)
             in bindR (markInService_mshr env i pending_modified_resp c) (\<lambda>c. Inr (False, c)))"
  proof (cases "env_sendTimingReq env P (c_heap c @ [Some bs]) (c_below c)")
    case (Inl x)
    then show ?thesis using g P0(1,3,4) miss_pkt_reads(5) [OF mp] f wa v by (simp add: simps P_def)
  next
    case (Inr x)
    obtain sent h below where "x = (sent, h, below)" by (cases x)
    with Inr show ?thesis using g P0(1,3,4) miss_pkt_reads(5) [OF mp] f wa v by (cases sent) (simp_all add: simps P_def)
  qed
  with mp P0(2) show ?thesis by (intro exI [of _ P] exI [of _ bs]) (simp add: P_def)
qed

text \<open>An accepted packet is answered at once by the response that \<open>handleTimingRes\<close> makes of it.\<close>

lemma accepted_miss:
  assumes inv: "cache_inv c" and i: "i \<in> set (q_allocatedList (c_mshrQueue c))" and r: "demand_reg c (get_mshr i c)"
    and miss: "tag_lookup (c_tags c) (qe_blkAddr (get_mshr i c)) (qe_isSecure (get_mshr i c)) = None"
    and rnd: "env_rnd env < tassoc (c_tags c)" and pf: "c_prefetcher c = None" and wa: "c_writeAllocator c = None"
    and mp: "miss_pkt c (qe_blkAddr (get_mshr i c)) (qe_isSecure (get_mshr i c)) b P" "p_senderState P = Some i"
    and h: "b < length h" "h ! b \<noteq> None"
  shows "if free_way c (qe_blkAddr (get_mshr i c))
    then \<exists>c'. bindR (handleTimingRes env P (sending i c h)) (cache_delete (Some P)) = Inr c' \<and> cache_inv c' \<and> served i c c' \<and> serve_frame c c'
    else \<exists>e. handleTimingRes env P (sending i c h) = Inl e"
proof -
  let ?m = "get_mshr i c" and ?c = "sending i c h"
  let ?a = "qe_blkAddr ?m" and ?s = "qe_isSecure ?m"
  note f = sending_frame [OF inv i]
  have mp1: "miss_pkt ?c ?a ?s b P" using mp(1) by (simp add: miss_pkt_def f)
  obtain R where R: "handleTimingRes env P ?c = recvTimingResp env R ?c" "fill_resp ?c R ?a ?s"
    "p_senderState R = Some i" "isSet (p_flags R) PKT_STATIC_DATA"
    using handleTimingRes_demand [OF sending_inv [OF inv i] mp1, of env] mp(2) by auto
  have fm: "all_targets (?m\<lparr>m_isForward := False\<rparr>) = all_targets ?m" by (simp add: all_targets_def)
  have "demand_reg c (?m\<lparr>m_isForward := False\<rparr>)" using r by (simp add: demand_reg_def plain_register_def)
  then have "demand_reg ?c (?m\<lparr>m_isForward := False\<rparr>)" using demand_reg_cong(1) [of ?c c] by (simp add: f)
  then have pre: "i \<in> set (q_allocatedList (c_mshrQueue ?c))" "demand_reg ?c (get_mshr i ?c)" "\<not> m_isForward (get_mshr i ?c)"
    "fill_resp ?c R (qe_blkAddr (get_mshr i ?c)) (qe_isSecure (get_mshr i ?c))"
    "tag_lookup (c_tags ?c) (qe_blkAddr (get_mshr i ?c)) (qe_isSecure (get_mshr i ?c)) = None"
    "env_rnd env < tassoc (c_tags ?c)" "c_prefetcher ?c = None" "c_writeAllocator ?c = None"
    using i R(2) miss rnd pf wa by (simp_all add: f)
  note rr = recvTimingResp_demand [OF sending_inv [OF inv i] pre(1-4) R(3,4) pre(5-8)]
  have fw: "free_way c ?a \<longleftrightarrow> (\<exists>j \<in> set (set_ways (c_tags ?c) (qe_blkAddr (get_mshr i ?c))). \<not> t_valid (bt_blks (c_tags ?c) ! j))"
    by (simp add: free_way_def f)
  show ?thesis
  proof (cases "free_way c ?a")
    case False
    with rr show ?thesis unfolding fw R(1) by (simp only: if_False) blast
  next
    case True
    then obtain c' where c': "recvTimingResp env R ?c = Inr c'" "cache_inv c'" "served i ?c c'" "serve_frame ?c c'" "c_heap c' = c_heap ?c"
      using rr unfolding fw [symmetric] by (simp only: if_True) blast
    let ?c' = "c'\<lparr>c_heap := (c_heap c')[b := None]\<rparr>"
    have "delete_pkt (Some P) (c_heap c') = Inr ((c_heap c')[b := None])"
      using miss_pkt_reads(7) [OF mp(1)] mp(1) c'(5) h by (simp add: delete_pkt_def Packet_deleteData_def miss_pkt_def f)
    then have "bindR (handleTimingRes env P ?c) (cache_delete (Some P)) = Inr ?c'" using c'(1) by (simp add: R(1) cache_delete_def)
    moreover have "served i ?c ?c'" using c'(3) by (simp add: served_def get_mshr_def)
    then have "served i c ?c'" by (rule served_cong) (simp_all add: f fm)
    moreover have "cache_inv ?c'" using c'(2) by (simp add: cache_inv_def)
    moreover have "serve_frame c ?c'" using c'(4) by (simp add: serve_frame_def f)
    ultimately show ?thesis using True by (simp only: if_True) blast
  qed
qed

context lower_level
begin

lemma sendMSHRQueuePacket_demand:
  assumes inv: "cache_inv c" and i: "i \<in> set (q_allocatedList (c_mshrQueue c))" and r: "demand_reg c (get_mshr i c)"
    and miss: "tag_lookup (c_tags c) (qe_blkAddr (get_mshr i c)) (qe_isSecure (get_mshr i c)) = None"
    and rnd: "env_rnd env < tassoc (c_tags c)" and pf: "c_prefetcher c = None" and wa: "c_writeAllocator c = None"
    and env: "env_sendTimingReq env = send" and wf: "wf_below (c_below c)"
  shows "if serves (c_below c) (qe_blkAddr (get_mshr i c)) (unat (c_blkSize c)) \<and> free_way c (qe_blkAddr (get_mshr i c))
    then \<exists>c'. sendMSHRQueuePacket env i c = Inr (True, c') \<and> cache_inv c' \<and> served i c c' \<and> serve_frame c c'
    else \<exists>e. sendMSHRQueuePacket env i c = Inl e"
proof -
  let ?m = "get_mshr i c" and ?b = "length (c_heap c)"
  let ?a = "qe_blkAddr ?m" and ?s = "qe_isSecure ?m"
  obtain P bs where P: "miss_pkt c ?a ?s ?b P" "p_senderState P = Some i" "length bs = unat (c_blkSize c)"
    and e: "sendMSHRQueuePacket env i c =
      bindR (send P (c_heap c @ [Some bs]) (c_below c)) (\<lambda>(sent, h, below).
        let c = (sending i c h)\<lparr>c_below := below\<rparr>
        in if sent then
             bindR (handleTimingRes env P c) (\<lambda>c. bindR (cache_delete (Some P) c) (\<lambda>c. Inr (True, c)))
           else
             let pending_modified_resp = (\<not> Packet_hasSharers P \<and> Packet_cacheResponding P)
             in bindR (markInService_mshr env i pending_modified_resp c) (\<lambda>c. Inr (False, c)))"
    using sendMSHRQueuePacket_sends [OF inv i r miss wa, of env] unfolding env by blast
  let ?h = "c_heap c @ [Some bs]"
  have sv: "if serves (c_below c) ?a (unat (c_blkSize c)) then \<exists>bs'. send P ?h (c_below c) = Inr (True, ?h[?b := Some bs'], c_below c)
      else \<exists>e. send P ?h (c_below c) = Inl e"
    using read_served [OF _ miss_pkt_reads(1-3) [OF P(1)] _ _ P(3) wf, of ?h] P(1) by (simp add: miss_pkt_def)
  show ?thesis
  proof (cases "serves (c_below c) ?a (unat (c_blkSize c))")
    case False
    with sv show ?thesis by (auto simp: e)
  next
    case True
    with sv obtain bs' where "send P ?h (c_below c) = Inr (True, ?h[?b := Some bs'], c_below c)" by auto
    moreover define h where "h = ?h[?b := Some bs']"
    ultimately have "sendMSHRQueuePacket env i c =
      bindR (handleTimingRes env P (sending i c h)) (\<lambda>c. bindR (cache_delete (Some P) c) (\<lambda>c. Inr (True, c)))"
      by (simp add: e Let_def sending_frame(13) [OF inv i])
    then have s: "sendMSHRQueuePacket env i c =
      bindR (bindR (handleTimingRes env P (sending i c h)) (cache_delete (Some P))) (\<lambda>c. Inr (True, c))" by (simp add: bindR_assoc)
    have "?b < length h" "h ! ?b \<noteq> None" by (simp_all add: h_def)
    from accepted_miss [OF inv i r miss rnd pf wa P(1,2) this] show ?thesis
      using True unfolding s by (cases "free_way c ?a") (auto simp: bindR_assoc)
  qed
qed

end

end
