(* ===== verification/Cache_Run.thy ===== *)
theory Cache_Run
  imports Cache_Service "HOL-Library.Multiset"
begin

text \<open>
  Runs of the L0 cache on the global memory: requests of a processor, notifications of the send event
  and retries, in any order. \<open>demand_inv\<close> is the invariant of a cache that only such requests have
  reached, and \<open>pending\<close> lists the requests that its registers hold. Requests are compared by what
  their owner sees of them, so that an answer can be told from its request: \<open>request_key\<close> is the key
  of the response a request expects.
\<close>

section \<open>Invariant\<close>

definition demand_inv :: "('u, 'm) BaseCache \<Rightarrow> bool" where
  "demand_inv c \<longleftrightarrow> cache_inv c \<and> c_prefetcher c = None \<and> c_writeAllocator c = None \<and> q_numReserve (c_mshrQueue c) = 0 \<and>
     (\<forall>i \<in> set (q_allocatedList (c_mshrQueue c)). demand_reg c (get_mshr i c) \<and>
        tag_lookup (c_tags c) (qe_blkAddr (get_mshr i c)) (qe_isSecure (get_mshr i c)) = None) \<and>
     (\<forall>i \<in> set (q_allocatedList (c_mshrQueue c)). \<forall>j \<in> set (q_allocatedList (c_mshrQueue c)).
        qe_blkAddr (get_mshr i c) = qe_blkAddr (get_mshr j c) \<and> qe_isSecure (get_mshr i c) = qe_isSecure (get_mshr j c) \<longrightarrow> i = j) \<and>
     (\<forall>k < length (bt_blks (c_tags c)). t_valid (bt_blks (c_tags c) ! k) \<longrightarrow>
        CacheBlk_isSet ReadableBit (bt_blks (c_tags c) ! k) \<and> CacheBlk_isSet WritableBit (bt_blks (c_tags c) ! k))"

definition pending :: "('u, 'm) BaseCache \<Rightarrow> Packet list" where
  "pending c = concat (map (\<lambda>i. map tg_pkt (all_targets (get_mshr i c))) (q_allocatedList (c_mshrQueue c)))"

type_synonym reply_key = "u64 \<times> Request \<times> Addr \<times> u32 \<times> Command"

definition request_key :: "Packet \<Rightarrow> reply_key" where
  "request_key p = (p_id p, p_req p, p_addr p, p_size p, MemCmd_responseCommand (p_cmd p))"

definition response_key :: "Packet \<Rightarrow> reply_key" where
  "response_key p = (p_id p, p_req p, p_addr p, p_size p, p_cmd p)"

text \<open>The requests a cache has answered or still holds.\<close>

definition accounted :: "('u, 'm) BaseCache \<Rightarrow> reply_key multiset" where
  "accounted c = mset (map response_key (c_answered c)) + mset (map request_key (pending c))"

lemma makeTimingResponse_key: "Packet_makeTimingResponse p = Inr r \<Longrightarrow> response_key r = request_key p"
  by (auto simp: Packet_makeTimingResponse_def Packet_makeResponse_def response_key_def request_key_def)

lemma answers_key: "list_all2 answers ps rs \<Longrightarrow> map response_key rs = map request_key ps"
proof (induction rule: list_all2_induct)
  case (Cons p ps r rs)
  then obtain q where "Packet_makeTimingResponse p = Inr q" "r = q\<lparr>p_headerDelay := 0, p_payloadDelay := 0\<rparr>"
    by (auto simp: answers_def)
  then have "response_key r = request_key p" using makeTimingResponse_key [of p q] by (simp add: response_key_def)
  with Cons show ?case by simp
qed simp

lemma alloc_distinct: "cache_inv c \<Longrightarrow> distinct (q_allocatedList (c_mshrQueue c))"
  by (simp add: cache_inv_def mq_inv_def mshr_entry.pool_inv_def queue_inv_def)

lemma mset_map_concat: "mset (map f (concat (map g xs))) = (\<Sum>i \<in># mset xs. mset (map f (g i)))"
  by (induction xs) simp_all

lemma mset_pending:
  "mset (map f (pending c)) =
     (\<Sum>i \<in># mset (q_allocatedList (c_mshrQueue c)). mset (map f (map tg_pkt (all_targets (get_mshr i c)))))"
  unfolding pending_def by (rule mset_map_concat)

section \<open>Serving a register\<close>

lemma demand_reg_aligned: "demand_reg c m \<Longrightarrow> blk_align (bt_indexingPolicy (c_tags c)) (qe_blkAddr m) = qe_blkAddr m"
  unfolding demand_reg_def by (metis blk_align_idem list.set_sel(1))

lemma demand_inv_served:
  assumes inv: "demand_inv c" and i: "i \<in> set (q_allocatedList (c_mshrQueue c))" and ci: "cache_inv c'" and s: "served i c c'"
    and f: "c_blkSize c' = c_blkSize c" "c_isReadOnly c' = c_isReadOnly c" "c_prefetcher c' = None" "c_writeAllocator c' = None"
      "q_numReserve (c_mshrQueue c') = 0"
  shows "demand_inv c'" "accounted c' = accounted c"
proof -
  obtain k b rs where k: "c_tags c' = upd_blk k b (c_tags c)" "k < length (bt_blks (c_tags c))"
    "CacheBlk_isSet ReadableBit b" "CacheBlk_isSet WritableBit b"
    "\<And>a s. tag_lookup (c_tags c') a s =
      (if blk_align (bt_indexingPolicy (c_tags c)) a = qe_blkAddr (get_mshr i c) \<and> s = qe_isSecure (get_mshr i c)
       then Some k else tag_lookup (c_tags c) a s)"
    and rs: "c_answered c' = c_answered c @ rs" "list_all2 answers (map tg_pkt (all_targets (get_mshr i c))) rs"
    and al: "set (q_allocatedList (c_mshrQueue c')) = set (q_allocatedList (c_mshrQueue c)) - {i}"
    and o: "\<And>j. j \<noteq> i \<Longrightarrow> get_mshr j c' = get_mshr j c"
    using s unfolding served_def by blast
  have reg: "demand_reg c' m = demand_reg c m" for m using demand_reg_cong(1) [of c' c] f k(1) by simp
  have "demand_reg c' (get_mshr j c') \<and> tag_lookup (c_tags c') (qe_blkAddr (get_mshr j c')) (qe_isSecure (get_mshr j c')) = None"
    if j: "j \<in> set (q_allocatedList (c_mshrQueue c'))" for j
  proof -
    have ji: "j \<noteq> i" "j \<in> set (q_allocatedList (c_mshrQueue c))" using j al by auto
    then have r: "demand_reg c (get_mshr j c)" "tag_lookup (c_tags c) (qe_blkAddr (get_mshr j c)) (qe_isSecure (get_mshr j c)) = None"
      "\<not> (qe_blkAddr (get_mshr j c) = qe_blkAddr (get_mshr i c) \<and> qe_isSecure (get_mshr j c) = qe_isSecure (get_mshr i c))"
      using inv i unfolding demand_inv_def by blast+
    then show ?thesis by (auto simp: o [OF ji(1)] reg k(5) demand_reg_aligned [OF r(1)])
  qed
  moreover have "j = l" if "j \<in> set (q_allocatedList (c_mshrQueue c'))" "l \<in> set (q_allocatedList (c_mshrQueue c'))"
    "qe_blkAddr (get_mshr j c') = qe_blkAddr (get_mshr l c')" "qe_isSecure (get_mshr j c') = qe_isSecure (get_mshr l c')" for j l
    using that inv al o [of j] o [of l] unfolding demand_inv_def by auto
  moreover have "CacheBlk_isSet ReadableBit (bt_blks (c_tags c') ! l) \<and> CacheBlk_isSet WritableBit (bt_blks (c_tags c') ! l)"
    if "l < length (bt_blks (c_tags c'))" "t_valid (bt_blks (c_tags c') ! l)" for l
    using that inv k(1-4) unfolding demand_inv_def by (cases "l = k") auto
  ultimately show "demand_inv c'" using ci f unfolding demand_inv_def by blast
  have d: "distinct (q_allocatedList (c_mshrQueue c))" "distinct (q_allocatedList (c_mshrQueue c'))"
    using inv ci alloc_distinct by (auto simp: demand_inv_def)
  let ?A = "set (q_allocatedList (c_mshrQueue c))"
  have sum: "mset (map request_key (pending c)) =
      mset (map request_key (map tg_pkt (all_targets (get_mshr i c)))) + mset (map request_key (pending c'))"
  proof -
    have "mset (q_allocatedList (c_mshrQueue c)) = mset_set ?A" "mset (q_allocatedList (c_mshrQueue c')) = mset_set (?A - {i})"
      using mset_set_set [OF d(1)] mset_set_set [OF d(2)] al by simp_all
    then have m: "mset (q_allocatedList (c_mshrQueue c)) = add_mset i (mset (q_allocatedList (c_mshrQueue c')))"
      using i by (simp add: mset_set.remove)
    have "image_mset (\<lambda>j. mset (map request_key (map tg_pkt (all_targets (get_mshr j c))))) (mset (q_allocatedList (c_mshrQueue c'))) =
        image_mset (\<lambda>j. mset (map request_key (map tg_pkt (all_targets (get_mshr j c'))))) (mset (q_allocatedList (c_mshrQueue c')))"
      using al o by (intro image_mset_cong) auto
    then show ?thesis unfolding mset_pending m by simp
  qed
  show "accounted c' = accounted c"
    unfolding accounted_def rs(1) sum map_append mset_append answers_key [OF rs(2)] by (rule add.assoc)
qed

section \<open>Send events and retries\<close>

lemma reqPacketQueue_simps [simp]:
  "get_mshr i (c\<lparr>c_reqPacketQueue := q\<rparr>) = get_mshr i c" "cache_inv (c\<lparr>c_reqPacketQueue := q\<rparr>) = cache_inv c"
  "demand_reg (c\<lparr>c_reqPacketQueue := q\<rparr>) m = demand_reg c m" "free_way (c\<lparr>c_reqPacketQueue := q\<rparr>) a = free_way c a"
  by (simp_all add: get_mshr_def cache_inv_def demand_reg_def demand_req_def demand_pkt_def free_way_def)

lemma reqPacketQueue_run [simp]:
  "demand_inv (c\<lparr>c_reqPacketQueue := q\<rparr>) = demand_inv c" "accounted (c\<lparr>c_reqPacketQueue := q\<rparr>) = accounted c"
  "served i (c\<lparr>c_reqPacketQueue := q\<rparr>) c' = served i c c'" "served i c (c'\<lparr>c_reqPacketQueue := q\<rparr>) = served i c c'"
  by (simp_all add: demand_inv_def accounted_def pending_def served_def)

lemma getNextQueueEntry_demand:
  assumes inv: "demand_inv c"
  shows "getNextQueueEntry env c =
    (case q_readyList (c_mshrQueue c) of [] \<Rightarrow> Inr (None, c) | i # _ \<Rightarrow> Inr (Some (MissEntry i), c))"
proof (cases "q_readyList (c_mshrQueue c)")
  case Nil
  then show ?thesis
    using inv by (simp add: getNextQueueEntry_def getNext_def prefetch_entry_def demand_inv_def cache_inv_def)
next
  case (Cons i js)
  then have "i \<in> set (q_allocatedList (c_mshrQueue c))"
    using mq_ready(1) [of "c_blkSize c" "c_mshrQueue c" i] inv by (simp add: demand_inv_def cache_inv_def)
  then have "qe_readyTime (get_mshr i c) = 0" using inv by (simp add: demand_inv_def demand_reg_def plain_register_def)
  with Cons show ?thesis
    using inv by (simp add: getNextQueueEntry_def getNext_def findPending_def demand_inv_def cache_inv_def get_mshr_def)
qed

context lower_level
begin

lemma sendDeferredPacket_demand:
  assumes inv: "demand_inv c" and w: "\<not> pq_waitingOnRetry (c_reqPacketQueue c)" and rnd: "env_rnd env < tassoc (c_tags c)"
    and env: "env_sendTimingReq env = send" and wf: "wf_below (c_below c)"
  shows "case q_readyList (c_mshrQueue c) of
      [] \<Rightarrow> cache_sendDeferredPacket env c = Inr (schedMemSideSendEvent (nextQueueReadyTime c) c)
    | i # _ \<Rightarrow>
        if serves (c_below c) (qe_blkAddr (get_mshr i c)) (unat (c_blkSize c)) \<and> free_way c (qe_blkAddr (get_mshr i c))
        then \<exists>c'. cache_sendDeferredPacket env c = Inr c' \<and> demand_inv c' \<and> accounted c' = accounted c \<and> served i c c' \<and>
          pq_waitingOnRetry (c_reqPacketQueue c') \<and> c_blkSize c' = c_blkSize c \<and> c_isReadOnly c' = c_isReadOnly c
        else \<exists>e. cache_sendDeferredPacket env c = Inl e"
proof (cases "q_readyList (c_mshrQueue c)")
  case Nil
  then show ?thesis using w getNextQueueEntry_demand [OF inv, of env] by (simp add: cache_sendDeferredPacket_def)
next
  case (Cons i js)
  then have i: "i \<in> set (q_allocatedList (c_mshrQueue c))"
    using mq_ready(1) [of "c_blkSize c" "c_mshrQueue c" i] inv by (simp add: demand_inv_def cache_inv_def)
  have d: "cache_inv c" "demand_reg c (get_mshr i c)" "c_prefetcher c = None" "c_writeAllocator c = None"
    "tag_lookup (c_tags c) (qe_blkAddr (get_mshr i c)) (qe_isSecure (get_mshr i c)) = None" "q_numReserve (c_mshrQueue c) = 0"
    using inv i by (simp_all add: demand_inv_def)
  let ?ok = "serves (c_below c) (qe_blkAddr (get_mshr i c)) (unat (c_blkSize c)) \<and> free_way c (qe_blkAddr (get_mshr i c))"
  note s = sendMSHRQueuePacket_demand [OF d(1) i d(2,5) rnd d(3,4) env wf]
  have e: "cache_sendDeferredPacket env c =
      bindR (sendMSHRQueuePacket env i c) (\<lambda>(r, c).
        let c = c\<lparr>c_reqPacketQueue := (c_reqPacketQueue c)\<lparr>pq_waitingOnRetry := r\<rparr>\<rparr>
        in Inr (if \<not> r then schedMemSideSendEvent (nextQueueReadyTime c) c else c))"
    using w getNextQueueEntry_demand [OF inv, of env] Cons
    by (cases "sendMSHRQueuePacket env i c") (auto simp: cache_sendDeferredPacket_def sendPacket_def Let_def)
  show ?thesis
  proof (cases ?ok)
    case False
    with s Cons e show ?thesis by auto
  next
    case True
    then obtain c' where c': "sendMSHRQueuePacket env i c = Inr (True, c')" "cache_inv c'" "served i c c'" "serve_frame c c'"
      using s by auto
    let ?c = "c'\<lparr>c_reqPacketQueue := (c_reqPacketQueue c')\<lparr>pq_waitingOnRetry := True\<rparr>\<rparr>"
    have "demand_inv c'" "accounted c' = accounted c"
      using demand_inv_served [OF inv i c'(2,3)] c'(4) d by (simp_all add: serve_frame_def)
    moreover have "cache_sendDeferredPacket env c = Inr ?c" using e c'(1) by simp
    ultimately show ?thesis using True Cons c'(3,4) by (simp add: serve_frame_def)
  qed
qed

end

section \<open>Requests\<close>

lemma findMatch_loop_total:
  assumes "\<forall>i \<in> set js. \<exists>b. P (es ! i) = Inr b"
  shows "\<exists>m. findMatch_loop P False es js = Inr m \<and> (m = None \<longrightarrow> (\<forall>i \<in> set js. P (es ! i) = Inr False))"
  using assms
proof (induction js)
  case (Cons j js)
  obtain m where m: "findMatch_loop P False es js = Inr m" "m = None \<longrightarrow> (\<forall>i \<in> set js. P (es ! i) = Inr False)"
    using Cons by auto
  obtain b where b: "P (es ! j) = Inr b" using Cons.prems by auto
  show ?case using m b by (intro exI [of _ "if b then Some j else m"]) simp
qed simp

lemma mshr_findMatch_demand:
  assumes "demand_inv c"
  shows "\<exists>m. mshr_findMatch a s False c = Inr m \<and> (m = None \<longrightarrow> (\<forall>i \<in> set (q_allocatedList (c_mshrQueue c)).
    \<not> (qe_blkAddr (get_mshr i c) = a \<and> qe_isSecure (get_mshr i c) = s)))"
proof -
  let ?P = "\<lambda>e. MSHR_matchBlockAddr e a s"
  have "?P (get_mshr i c) = Inr (qe_blkAddr (get_mshr i c) = a \<and> qe_isSecure (get_mshr i c) = s)"
    if "i \<in> set (q_allocatedList (c_mshrQueue c))" for i
    using that assms by (simp add: demand_inv_def demand_reg_def MSHR_matchBlockAddr_def MSHR_hasTargets_def)
  then show ?thesis
    using findMatch_loop_total [of "q_allocatedList (c_mshrQueue c)" ?P "q_entries (c_mshrQueue c)"]
    by (auto simp: mshr_findMatch_def findMatch_def get_mshr_def)
qed

text \<open>What an access keeps of the invariant, apart from the registers.\<close>

lemma access_frame_keeps:
  assumes "demand_inv c" "access_frame c c'"
  shows "demand_reg c' m = demand_reg c m" "demand_req c' p = demand_req c p"
    "tag_lookup (c_tags c') a s = tag_lookup (c_tags c) a s"
    "c_prefetcher c' = None" "c_writeAllocator c' = None" "q_numReserve (c_mshrQueue c') = 0"
    "\<forall>k < length (bt_blks (c_tags c')). t_valid (bt_blks (c_tags c') ! k) \<longrightarrow>
       CacheBlk_isSet ReadableBit (bt_blks (c_tags c') ! k) \<and> CacheBlk_isSet WritableBit (bt_blks (c_tags c') ! k)"
  using assms demand_reg_cong [of c' c]
  by (simp_all add: access_frame_def same_store_def demand_inv_def CacheBlk_isSet_def TaggedEntry_isValid_def)

lemma demand_inv_hit:
  assumes "demand_inv c" "cache_inv c'" "access_frame c c'" "c_mshrQueue c' = c_mshrQueue c"
  shows "demand_inv c'" "pending c' = pending c"
proof -
  have g: "get_mshr i c' = get_mshr i c" for i using assms(4) by (simp add: get_mshr_def)
  show "demand_inv c'"
    using assms(1,2) access_frame_keeps [OF assms(1,3)] unfolding demand_inv_def [of c'] assms(4) g demand_inv_def [of c] by simp
  show "pending c' = pending c" by (simp add: pending_def g assms(4))
qed

lemma demand_inv_new:
  assumes inv: "demand_inv c" and ci: "cache_inv c'" and fr: "access_frame c c'" and n: "new_register pkt a c c'"
    and p: "demand_req c pkt" "blk_align (bt_indexingPolicy (c_tags c)) (p_addr pkt) = a"
    and l: "tag_lookup (c_tags c) a (p_isSecure pkt) = None"
    and u: "\<forall>i \<in> set (q_allocatedList (c_mshrQueue c)). \<not> (qe_blkAddr (get_mshr i c) = a \<and> qe_isSecure (get_mshr i c) = p_isSecure pkt)"
  shows "demand_inv c'" "pending c' = pending c @ [pkt]"
proof -
  obtain i t where i: "q_allocatedList (c_mshrQueue c') = q_allocatedList (c_mshrQueue c) @ [i]" "all_targets (get_mshr i c') = [t]"
    "tg_pkt t = pkt" "mt_source t = FromCPU" "plain_register (get_mshr i c')" "qe_blkAddr (get_mshr i c') = a"
    "qe_isSecure (get_mshr i c') = p_isSecure pkt" and o: "\<And>j. j \<noteq> i \<Longrightarrow> get_mshr j c' = get_mshr j c"
    using n unfolding new_register_def by blast
  note k = access_frame_keeps [OF inv fr]
  have ni: "i \<notin> set (q_allocatedList (c_mshrQueue c))" using alloc_distinct [OF ci] i(1) by simp
  have old: "get_mshr j c' = get_mshr j c" if "j \<in> set (q_allocatedList (c_mshrQueue c))" for j using that ni o by metis
  have "tl_targets (m_targets (get_mshr i c')) = [t]" using i(2,5) by (simp add: all_targets_def plain_register_def)
  then have "demand_reg c (get_mshr i c')" using i p by (simp add: demand_reg_def)
  then have "demand_reg c' (get_mshr j c') \<and> tag_lookup (c_tags c') (qe_blkAddr (get_mshr j c')) (qe_isSecure (get_mshr j c')) = None"
    if "j \<in> set (q_allocatedList (c_mshrQueue c'))" for j
    using that i(1,6,7) l inv old [of j] unfolding demand_inv_def by (cases "j = i") (simp_all add: k)
  moreover have "j = m" if "j \<in> set (q_allocatedList (c_mshrQueue c'))" "m \<in> set (q_allocatedList (c_mshrQueue c'))"
    "qe_blkAddr (get_mshr j c') = qe_blkAddr (get_mshr m c')" "qe_isSecure (get_mshr j c') = qe_isSecure (get_mshr m c')" for j m
  proof (cases "j = i \<or> m = i")
    case True
    then show ?thesis using that i(1,6,7) u old [of j] old [of m] by auto
  next
    case False
    then show ?thesis using that i(1) inv old [of j] old [of m] unfolding demand_inv_def by simp
  qed
  ultimately show "demand_inv c'" using ci k(4-7) unfolding demand_inv_def by blast
  have "map (\<lambda>j. map tg_pkt (all_targets (get_mshr j c'))) (q_allocatedList (c_mshrQueue c)) =
    map (\<lambda>j. map tg_pkt (all_targets (get_mshr j c))) (q_allocatedList (c_mshrQueue c))" using old by simp
  then show "pending c' = pending c @ [pkt]"
    unfolding pending_def i(1) map_append concat_append by (simp only:) (simp add: i)
qed

lemma demand_inv_more:
  assumes inv: "demand_inv c" and ci: "cache_inv c'" and fr: "access_frame c c'" and n: "more_targets pkt i c c'"
    and i: "i \<in> set (q_allocatedList (c_mshrQueue c))"
    and p: "demand_req c pkt" "blk_align (bt_indexingPolicy (c_tags c)) (p_addr pkt) = qe_blkAddr (get_mshr i c)"
      "p_isSecure pkt = qe_isSecure (get_mshr i c)"
  shows "demand_inv c'" "mset (map f (pending c')) = add_mset (f pkt) (mset (map f (pending c)))"
proof -
  let ?m = "get_mshr i c" and ?m' = "get_mshr i c'"
  obtain t where al: "q_allocatedList (c_mshrQueue c') = q_allocatedList (c_mshrQueue c)"
    and t: "all_targets ?m' = all_targets ?m @ [t]" "tg_pkt t = pkt" "mt_source t = FromCPU"
    and m: "qe_blkAddr ?m' = qe_blkAddr ?m" "qe_isSecure ?m' = qe_isSecure ?m"
      "plain_register ?m \<and> (\<forall>p \<in> set (pkt # map tg_pkt (all_targets ?m)). \<not> Request_isCacheMaintenance (p_req p)) \<longrightarrow>
       plain_register ?m'"
    and o: "\<And>j. j \<noteq> i \<Longrightarrow> get_mshr j c' = get_mshr j c"
    using n unfolding more_targets_def by blast
  note k = access_frame_keeps [OF inv fr]
  have r: "demand_reg c ?m" using inv i by (simp add: demand_inv_def)
  then have "plain_register ?m'" using m(3) p(1) by (auto simp: demand_reg_def demand_req_def all_targets_def plain_register_def)
  then have "tl_targets (m_targets ?m') = tl_targets (m_targets ?m) @ [t]"
    using t(1) r by (simp add: all_targets_def plain_register_def demand_reg_def)
  then have "demand_reg c ?m'" using r m(1,2) t(2,3) p \<open>plain_register ?m'\<close> by (simp add: demand_reg_def)
  then have "demand_reg c' (get_mshr j c') \<and> tag_lookup (c_tags c') (qe_blkAddr (get_mshr j c')) (qe_isSecure (get_mshr j c')) = None"
    if "j \<in> set (q_allocatedList (c_mshrQueue c'))" for j
    using that al m(1,2) inv o [of j] unfolding demand_inv_def by (cases "j = i") (simp_all add: k)
  moreover have ks: "qe_blkAddr (get_mshr j c') = qe_blkAddr (get_mshr j c)" "qe_isSecure (get_mshr j c') = qe_isSecure (get_mshr j c)" for j
    using m(1,2) o [of j] by (cases "j = i", simp, simp)+
  ultimately show "demand_inv c'" using ci k(4-7) inv unfolding demand_inv_def ks al by blast
  obtain xs ys where s: "q_allocatedList (c_mshrQueue c) = xs @ i # ys" using i by (auto simp: in_set_conv_decomp)
  have "i \<notin> set xs" "i \<notin> set ys" using alloc_distinct [of c] inv s by (auto simp: demand_inv_def)
  then have "get_mshr j c' = get_mshr j c" if "j \<in> set xs \<union> set ys" for j using that o [of j] by auto
  then have "map (\<lambda>j. map tg_pkt (all_targets (get_mshr j c'))) xs = map (\<lambda>j. map tg_pkt (all_targets (get_mshr j c))) xs"
    "map (\<lambda>j. map tg_pkt (all_targets (get_mshr j c'))) ys = map (\<lambda>j. map tg_pkt (all_targets (get_mshr j c))) ys"
    by simp_all
  then show "mset (map f (pending c')) = add_mset (f pkt) (mset (map f (pending c)))"
    unfolding pending_def al s by (simp only: map_append concat_append list.map concat.simps) (simp add: t)
qed

text \<open>A miss that needs a register when none is free aborts.\<close>

lemma demand_full:
  assumes inv: "demand_inv c" and p: "demand_pkt c pkt" and l: "tag_lookup (c_tags c) (p_addr pkt) (p_isSecure pkt) = None"
    and a: "Packet_getBlockAddr (c_blkSize c) pkt = Inr a" and m: "mshr_findMatch a (p_isSecure pkt) False c = Inr None"
    and full: "Queue_isFull (c_mshrQueue c)"
  shows "\<exists>e. recvTimingReq env pkt c = Inl e"
proof -
  have ci: "cache_inv c" using inv by (simp add: demand_inv_def)
  obtain T lat where T: "cache_access env pkt c = Inr (\<lparr>ar_satisfied = False, ar_blk = None, ar_lat = lat,
      ar_pkt = pkt\<rparr>, c\<lparr>c_tags := T\<rparr>)"
    using access_demand [OF ci p, of env] l by auto
  have ok: "pkt_ok (c_blkSize c) pkt" and cmd: "p_cmd pkt = ReadReq \<or> p_cmd pkt = WriteReq" using p by (simp_all add: demand_pkt_def)
  have q: "queue_inv (c_mshrQueue c)" "q_numReserve (c_mshrQueue c) = 0"
    using inv by (simp_all add: demand_inv_def cache_inv_def mq_inv_def mshr_entry.pool_inv_def)
  have "length (q_allocatedList (c_mshrQueue c)) + length (q_freeList (c_mshrQueue c)) = length (q_entries (c_mshrQueue c))"
    using q(1) distinct_card [of "q_allocatedList (c_mshrQueue c) @ q_freeList (c_mshrQueue c)"] by (simp add: queue_inv_def)
  moreover have "length (q_entries (c_mshrQueue c)) \<le> length (q_allocatedList (c_mshrQueue c))"
    using full q by (simp add: Queue_isFull_def queue_inv_def)
  ultimately have "length (q_freeList (c_mshrQueue c)) = 0" by linarith
  then have "q_freeList (c_mshrQueue c) = []" by simp
  then have "\<exists>e. allocateMissBuffer env pkt 0 True (c\<lparr>c_tags := T\<rparr>) = Inl e"
    using a by (simp add: allocateMissBuffer_def MSHRQueue_allocate_def allocate_entry_def)
  moreover have "c_writeAllocator c = None" using inv by (simp add: demand_inv_def)
  moreover have "mshr_findMatch a (p_isSecure pkt) False (c\<lparr>c_tags := T\<rparr>) = Inr None" using m by (simp add: mshr_findMatch_def)
  ultimately have "\<exists>e. handleTimingReqMiss env pkt None 0 lat (c\<lparr>c_tags := T\<rparr>) = Inl e"
    using a cache_block_addr(3) [OF ci ok] demand_cmd(4) [OF cmd]
    by (auto simp: handleTimingReqMiss_def BaseCache_handleTimingReqMiss_def)
  then show ?thesis
    unfolding recvTimingReq_demand [OF p T access_result.select_convs(4)] by auto
qed

text \<open>
  A request to a cache in the invariant either aborts the cache, when it needs a register and none is
  free, or is answered at once, or is held by a register.
\<close>

lemma recvTimingReq_run:
  assumes inv: "demand_inv c" and p: "demand_req c pkt" and u: "up_ready (env_up env) pkt (c_up c)"
    and r: "recvTimingReq env pkt c = Inr c'"
  shows "demand_inv c'" "accounted c' = add_mset (request_key pkt) (accounted c)" "access_frame c c'"
proof -
  have d: "demand_pkt c pkt" and ci: "cache_inv c" using inv p by (simp_all add: demand_inv_def demand_req_def)
  then have ok: "pkt_ok (c_blkSize c) pkt" by (simp add: demand_pkt_def)
  have t: "tags_inv (c_tags c)" using ci by (simp add: cache_inv_def)
  let ?a = "blk_align (bt_indexingPolicy (c_tags c)) (p_addr pkt)"
  note ba = cache_block_addr(1) [OF ci ok]
  have "demand_inv c' \<and> accounted c' = add_mset (request_key pkt) (accounted c) \<and> access_frame c c'"
  proof (cases "tag_lookup (c_tags c) (p_addr pkt) (p_isSecure pkt)")
    case (Some k)
    have "k < length (bt_blks (c_tags c))" "t_valid (bt_blks (c_tags c) ! k)"
      using Some by (simp_all add: tag_lookup_iff [OF t] resident_def)
    then have "CacheBlk_isSet (hit_bit pkt) (bt_blks (c_tags c) ! k)" using inv by (simp add: demand_inv_def hit_bit_def)
    from demand_hit [OF ci d Some this, of env] r
    obtain x where x: "Packet_makeTimingResponse pkt = Inr x" "c_answered c' = c_answered c @ [x]" "cache_inv c'"
      "c_mshrQueue c' = c_mshrQueue c" "access_frame c c'"
      by (cases "CacheBlk_print_over (env_overrun env) (CacheBlk_increaseRefCount (bt_blks (c_tags c) ! k))") auto
    with demand_inv_hit [OF inv x(3,5,4)] makeTimingResponse_key [OF x(1)] show ?thesis by (simp add: accounted_def)
  next
    case None
    have la: "tag_lookup (c_tags c) ?a (p_isSecure pkt) = None"
      using None same_block_tag_set [OF t, of ?a "p_addr pkt"]
      by (intro option_eqI) (simp add: tag_lookup_iff [OF t] resident_def, metis option.distinct(1) resident_def tag_lookup_iff [OF t] None)
    obtain m where m: "mshr_findMatch ?a (p_isSecure pkt) False c = Inr m" "m = None \<longrightarrow>
      (\<forall>i \<in> set (q_allocatedList (c_mshrQueue c)). \<not> (qe_blkAddr (get_mshr i c) = ?a \<and> qe_isSecure (get_mshr i c) = p_isSecure pkt))"
      using mshr_findMatch_demand [OF inv] by blast
    have room: "\<not> Queue_isFull (c_mshrQueue c)" if "m = None" using demand_full [OF inv d None ba, of env] m(1) r that by auto
    from demand_miss [OF ci d u None ba m(1) room] r
    have c': "cache_inv c'" "c_answered c' = c_answered c" "access_frame c c'"
      "case m of None \<Rightarrow> new_register pkt ?a c c' | Some i \<Rightarrow> more_targets pkt i c c'" by auto
    show ?thesis
    proof (cases m)
      case None
      then show ?thesis
        using demand_inv_new [OF inv c'(1,3) _ p _ la] m(2) c'(2-4) by (simp add: accounted_def)
    next
      case (Some i)
      note f = mshr_findMatch_Some [OF m(1) [unfolded Some]]
      have mt: "more_targets pkt i c c'" using c'(4) Some by simp
      note n = demand_inv_more [OF inv c'(1,3) mt f(1) p]
      show ?thesis using n(1) n(2) [of request_key] f(3,4) c'(2,3) by (simp add: accounted_def)
    qed
  qed
  then show "demand_inv c'" "accounted c' = add_mset (request_key pkt) (accounted c)" "access_frame c c'" by simp_all
qed

lemma heap_run [simp]:
  "demand_inv (c\<lparr>c_heap := h\<rparr>) = demand_inv c" "pending (c\<lparr>c_heap := h\<rparr>) = pending c"
  "demand_req (c\<lparr>c_heap := h\<rparr>) p = demand_req c p" "demand_pkt (c\<lparr>c_heap := h\<rparr>) p = demand_pkt c p"
  by (simp_all add: demand_inv_def cache_inv_def demand_reg_def demand_req_def demand_pkt_def pending_def get_mshr_def)

section \<open>Runs of the L0 cache\<close>

text \<open>
  A run is a sequence of accepted requests, send events and retries; the values that no code
  determines (uninitialised words, drawn random numbers, the payload of a transaction) may differ in
  every step. \<open>L0_run c0 ps c\<close>: from \<open>c0\<close> the cache has accepted the requests \<open>ps\<close> and reached \<open>c\<close>.
\<close>

inductive L0_run :: "(unit, Memory) BaseCache \<Rightarrow> Packet list \<Rightarrow> (unit, Memory) BaseCache \<Rightarrow> bool" for c0 where
  start: "L0_run c0 [] c0"
| request: "L0_run c0 ps c \<Longrightarrow> demand_req c pkt \<Longrightarrow> recvTimingReq (L0_env over tr junk lj rnd) pkt c = Inr c' \<Longrightarrow>
    L0_run c0 (ps @ [pkt]) c'"
| send: "L0_run c0 ps c \<Longrightarrow> rnd < tassoc (c_tags c) \<Longrightarrow> cache_processSendEvent (L0_env over tr junk lj rnd) c = Inr c' \<Longrightarrow>
    L0_run c0 ps c'"
| retry: "L0_run c0 ps c \<Longrightarrow> rnd < tassoc (c_tags c) \<Longrightarrow> cache_retry (L0_env over tr junk lj rnd) c = Inr c' \<Longrightarrow>
    L0_run c0 ps c'"

lemma L0_env_simps [simp]:
  "env_sendTimingReq (L0_env over tr junk lj rnd) = Initiator_sendTimingReq tr" "env_rnd (L0_env over tr junk lj rnd) = rnd"
  "env_up (L0_env over tr junk lj rnd) = no_upstream" "env_overrun (L0_env over tr junk lj rnd) = over"
  by (simp_all add: L0_env_def)

lemma schedMemSideSendEvent_run [simp]:
  "demand_inv (schedMemSideSendEvent t c) = demand_inv c" "accounted (schedMemSideSendEvent t c) = accounted c"
  by (simp_all add: schedMemSideSendEvent_def)

text \<open>One sending, whatever has started it.\<close>

lemma L0_sends:
  assumes inv: "demand_inv c" and w: "\<not> pq_waitingOnRetry (c_reqPacketQueue c)" and m: "memory_wf (c_below c)"
    and rnd: "rnd < tassoc (c_tags c)" and r: "cache_sendDeferredPacket (L0_env over tr junk lj rnd) c = Inr c'"
  shows "demand_inv c'" "accounted c' = accounted c" "c_below c' = c_below c"
proof -
  note s = initiator.sendDeferredPacket_demand [OF inv w, of "L0_env over tr junk lj rnd" tr, simplified, OF rnd m]
  have "demand_inv c' \<and> accounted c' = accounted c \<and> c_below c' = c_below c"
  proof (cases "q_readyList (c_mshrQueue c)")
    case Nil
    then show ?thesis using s r inv by simp
  next
    case (Cons i js)
    then show ?thesis using s r by (auto simp: served_def split: if_splits)
  qed
  then show "demand_inv c'" "accounted c' = accounted c" "c_below c' = c_below c" by simp_all
qed

text \<open>Processing the send event when a register is ready.\<close>

lemma L0_serves:
  assumes "demand_inv c" "q_readyList (c_mshrQueue c) = i # js" "\<not> pq_waitingOnRetry (c_reqPacketQueue c)"
    and "memory_wf (c_below c)" "rnd < tassoc (c_tags c)"
  shows "if unat (qe_blkAddr (get_mshr i c)) + unat (c_blkSize c) < unat (gm_memory_size (c_below c)) \<and>
      free_way c (qe_blkAddr (get_mshr i c))
    then \<exists>c'. cache_processSendEvent (L0_env over tr junk lj rnd) c = Inr c' \<and> served i c c' \<and> demand_inv c' \<and>
      pq_waitingOnRetry (c_reqPacketQueue c') \<and> c_blkSize c' = c_blkSize c \<and> c_isReadOnly c' = c_isReadOnly c
    else \<exists>e. cache_processSendEvent (L0_env over tr junk lj rnd) c = Inl e"
proof -
  have "cache_processSendEvent (L0_env over tr junk lj rnd) c = cache_sendDeferredPacket (L0_env over tr junk lj rnd) c"
    using assms(3) by (simp add: cache_processSendEvent_def)
  then show ?thesis
    using initiator.sendDeferredPacket_demand [OF assms(1,3), of "L0_env over tr junk lj rnd" tr, simplified, OF assms(5,4)] assms(2)
    by (auto split: if_splits)
qed

lemma L0_run_inv:
  assumes "L0_run c0 ps c" "demand_inv c0" "memory_wf (c_below c0)"
  shows "demand_inv c \<and> c_below c = c_below c0 \<and> accounted c = accounted c0 + mset (map request_key ps)"
  using assms(1)
proof induction
  case (request ps c pkt over tr junk lj rnd c')
  from recvTimingReq_run [OF _ request.hyps(2) _ request.hyps(3)] request.IH
  show ?case by (simp add: access_frame_def)
next
  case (send ps c rnd over tr junk lj c')
  then show ?case using L0_sends [of c rnd over tr junk lj c'] assms(3) by (simp add: cache_processSendEvent_def)
next
  case (retry ps c rnd over tr junk lj c')
  let ?c = "c\<lparr>c_reqPacketQueue := (c_reqPacketQueue c)\<lparr>pq_waitingOnRetry := False\<rparr>\<rparr>"
  have "cache_sendDeferredPacket (L0_env over tr junk lj rnd) ?c = Inr c'" using retry.hyps(3) by (simp add: cache_retry_def)
  then show ?case using L0_sends [of ?c rnd over tr junk lj c'] retry assms(3) by simp
qed (use assms(2) in simp)

end
