(* ===== verification/Sc_Fifo.thy ===== *)
theory Sc_Fifo
  imports Kuiper_Prelude
begin

text \<open>
  \<open>lib/systemc/include/sysc/communication/sc_fifo.h\<close>, the channel between the processor side and the ports of
  the cache: a ring buffer whose counters make data that is written in one delta cycle readable in the
  next, and places that are read in one delta cycle free in the next. A blocking call returns \<open>None\<close>
  when it waits for an event. \<open>T()\<close>, which a read leaves in the buffer, is the argument \<open>dflt\<close>, and the
  result of \<open>update\<close> tells which of the two events it notifies. Ports are numbers, and the name of an
  interface type is the interface; an error that is reported stops the simulation.
\<close>

datatype fifo_if = sc_fifo_in_if | sc_fifo_blocking_in_if | sc_fifo_out_if | sc_fifo_blocking_out_if | other_if

record 'a sc_fifo =
  m_size :: nat
  m_buf :: "'a list"
  m_free :: nat
  m_ri :: nat
  m_wi :: nat
  m_reader :: "nat option"
  m_writer :: "nat option"
  m_num_readable :: nat
  m_num_read :: nat
  m_num_written :: nat
  m_update_requested :: bool

definition sc_fifo_new :: "(nat \<Rightarrow> 'a) \<Rightarrow> int \<Rightarrow> 'a sc_fifo result" where
  "sc_fifo_new junk sz =
     (if sz \<le> 0 then Inl (Throw ''SC_ID_INVALID_FIFO_SIZE_'')
      else Inr \<lparr>m_size = nat sz, m_buf = map junk [0..<nat sz], m_free = nat sz, m_ri = 0, m_wi = 0,
                m_reader = None, m_writer = None, m_num_readable = 0, m_num_read = 0, m_num_written = 0, m_update_requested = False\<rparr>)"

definition register_port :: "nat \<Rightarrow> fifo_if \<Rightarrow> 'a sc_fifo \<Rightarrow> 'a sc_fifo result" where
  "register_port port if_typename f =
     (if if_typename = sc_fifo_in_if \<or> if_typename = sc_fifo_blocking_in_if then
        if m_reader f \<noteq> None then Inl (Throw ''SC_ID_MORE_THAN_ONE_FIFO_READER_'') else Inr (f\<lparr>m_reader := Some port\<rparr>)
      else if if_typename = sc_fifo_out_if \<or> if_typename = sc_fifo_blocking_out_if then
        if m_writer f \<noteq> None then Inl (Throw ''SC_ID_MORE_THAN_ONE_FIFO_WRITER_'') else Inr (f\<lparr>m_writer := Some port\<rparr>)
      else Inl (Throw ''SC_ID_BIND_IF_TO_PORT_''))"

definition num_available :: "'a sc_fifo \<Rightarrow> int" where
  "num_available f = int (m_num_readable f) - int (m_num_read f)"

definition num_free :: "'a sc_fifo \<Rightarrow> int" where
  "num_free f = int (m_size f) - int (m_num_readable f) - int (m_num_written f)"

definition buf_write :: "'a \<Rightarrow> 'a sc_fifo \<Rightarrow> bool \<times> 'a sc_fifo" where
  "buf_write val f =
     (if m_free f = 0 then (False, f)
      else (True, f\<lparr>m_buf := (m_buf f)[m_wi f := val], m_wi := (m_wi f + 1) mod m_size f, m_free := m_free f - 1\<rparr>))"

definition buf_read :: "'a \<Rightarrow> 'a sc_fifo \<Rightarrow> 'a option \<times> 'a sc_fifo" where
  "buf_read dflt f =
     (if m_free f = m_size f then (None, f)
      else (Some (m_buf f ! m_ri f),
            f\<lparr>m_buf := (m_buf f)[m_ri f := dflt], m_ri := (m_ri f + 1) mod m_size f, m_free := m_free f + 1\<rparr>))"

definition nb_read :: "'a \<Rightarrow> 'a sc_fifo \<Rightarrow> 'a option \<times> 'a sc_fifo" where
  "nb_read dflt f =
     (if num_available f = 0 then (None, f)
      else case buf_read dflt f of
             (None, f) \<Rightarrow> (None, f)
           | (Some v, f) \<Rightarrow> (Some v, f\<lparr>m_num_read := m_num_read f + 1, m_update_requested := True\<rparr>))"

definition nb_write :: "'a \<Rightarrow> 'a sc_fifo \<Rightarrow> bool \<times> 'a sc_fifo" where
  "nb_write val f =
     (if num_free f = 0 then (False, f)
      else case buf_write val f of
             (False, f) \<Rightarrow> (False, f)
           | (True, f) \<Rightarrow> (True, f\<lparr>m_num_written := m_num_written f + 1, m_update_requested := True\<rparr>))"

definition fifo_read :: "'a \<Rightarrow> 'a sc_fifo \<Rightarrow> ('a \<times> 'a sc_fifo) result option" where
  "fifo_read dflt f =
     (if num_available f = 0 then None
      else case nb_read dflt f of
             (None, f) \<Rightarrow> Some (Inl (AssertFail ''read_success''))
           | (Some v, f) \<Rightarrow> Some (Inr (v, f)))"

definition fifo_write :: "'a \<Rightarrow> 'a sc_fifo \<Rightarrow> 'a sc_fifo result option" where
  "fifo_write val f =
     (if num_free f = 0 then None
      else case nb_write val f of
             (False, f) \<Rightarrow> Some (Inl (AssertFail ''write_success''))
           | (True, f) \<Rightarrow> Some (Inr f))"

definition fifo_update :: "'a sc_fifo \<Rightarrow> (bool \<times> bool) \<times> 'a sc_fifo" where
  "fifo_update f =
     ((m_num_read f > 0, m_num_written f > 0),
      f\<lparr>m_num_readable := m_size f - m_free f, m_num_read := 0, m_num_written := 0, m_update_requested := False\<rparr>)"

section \<open>The channel as a queue\<close>

text \<open>
  The elements in the ring, those readable now and those written in this delta cycle; \<open>fifo_taken\<close>
  counts the places that are not free for writing.
\<close>

definition fifo_content :: "'a sc_fifo \<Rightarrow> 'a list" where
  "fifo_content f = map (\<lambda>i. m_buf f ! ((m_ri f + i) mod m_size f)) [0..<m_size f - m_free f]"

definition fifo_readable :: "'a sc_fifo \<Rightarrow> 'a list" where
  "fifo_readable f = take (m_num_readable f - m_num_read f) (fifo_content f)"

definition fifo_written :: "'a sc_fifo \<Rightarrow> 'a list" where
  "fifo_written f = drop (m_num_readable f - m_num_read f) (fifo_content f)"

definition fifo_taken :: "'a sc_fifo \<Rightarrow> nat" where
  "fifo_taken f = m_num_readable f + m_num_written f"

definition fifo_inv :: "'a sc_fifo \<Rightarrow> bool" where
  "fifo_inv f \<longleftrightarrow> 0 < m_size f \<and> length (m_buf f) = m_size f \<and> m_free f \<le> m_size f \<and> m_ri f < m_size f \<and>
     m_wi f = (m_ri f + (m_size f - m_free f)) mod m_size f \<and> m_num_read f \<le> m_num_readable f \<and>
     m_size f - m_free f = m_num_readable f - m_num_read f + m_num_written f \<and>
     m_num_readable f + m_num_written f \<le> m_size f \<and>
     (0 < m_num_read f + m_num_written f \<longrightarrow> m_update_requested f)"

lemma ring_distinct:
  assumes "i < s" "j < s"
  shows "(r + i) mod s = (r + j) mod s \<longleftrightarrow> i = (j :: nat)"
proof -
  have step: "k = l" if "k \<le> l" "l < s" "(r + k) mod s = (r + l) mod s" for k l
  proof -
    have "s dvd l - k" using mod_eq_dvd_iff_nat [of "r + k" "r + l" s] that(1,3) by simp
    then show ?thesis using that(1,2) by (auto dest: dvd_imp_le)
  qed
  show ?thesis using step [of i j] step [of j i] assms by (cases "i \<le> j") auto
qed

lemma fifo_content_length [simp]: "length (fifo_content f) = m_size f - m_free f"
  by (simp add: fifo_content_def)

lemma fifo_new_inv:
  "0 < sz \<Longrightarrow> \<exists>f. sc_fifo_new junk sz = Inr f \<and> fifo_inv f \<and> fifo_readable f = [] \<and> fifo_written f = [] \<and> m_size f = nat sz \<and> fifo_taken f = 0"
  by (simp add: sc_fifo_new_def fifo_inv_def fifo_readable_def fifo_written_def fifo_taken_def fifo_content_def)

lemma buf_write_content:
  assumes "fifo_inv f" "m_free f \<noteq> 0"
  shows "fifo_content (snd (buf_write v f)) = fifo_content f @ [v]"
proof (rule nth_equalityI)
  let ?n = "m_size f - m_free f" and ?s = "m_size f" and ?r = "m_ri f"
  have k: "?n < ?s" "length (m_buf f) = ?s" "m_wi f = (?r + ?n) mod ?s" "?s - (m_free f - 1) = Suc ?n"
    using assms by (auto simp: fifo_inv_def)
  show "length (fifo_content (snd (buf_write v f))) = length (fifo_content f @ [v])"
    using assms(2) k(4) by (simp add: buf_write_def)
  fix i
  assume "i < length (fifo_content (snd (buf_write v f)))"
  then have i: "i < Suc ?n" using assms(2) k(4) by (simp add: buf_write_def)
  have "fifo_content (snd (buf_write v f)) ! i = (m_buf f)[(?r + ?n) mod ?s := v] ! ((?r + i) mod ?s)"
    using assms(2) i k(4) by (simp add: buf_write_def fifo_content_def k(3) del: upt_Suc)
  also have "\<dots> = (fifo_content f @ [v]) ! i"
    using i k(1,2) ring_distinct [of i ?s ?n ?r] by (auto simp: fifo_content_def nth_append nth_list_update less_Suc_eq)
  finally show "fifo_content (snd (buf_write v f)) ! i = (fifo_content f @ [v]) ! i" .
qed

lemma buf_read_content:
  assumes "fifo_inv f" "m_free f \<noteq> m_size f"
  shows "\<exists>v. fst (buf_read d f) = Some v \<and> fifo_content f = v # fifo_content (snd (buf_read d f))"
proof -
  let ?n = "m_size f - m_free f" and ?s = "m_size f" and ?r = "m_ri f"
  have k: "?n \<le> ?s" "0 < ?n" "length (m_buf f) = ?s" "?r < ?s" using assms by (auto simp: fifo_inv_def)
  have c: "(m_buf f)[?r := d] ! ((Suc ?r mod ?s + i) mod ?s) = m_buf f ! ((?r + Suc i) mod ?s)" if "i < ?n - 1" for i
  proof -
    have "(Suc ?r mod ?s + i) mod ?s = (?r + Suc i) mod ?s" by (simp add: mod_add_left_eq)
    moreover have "(?r + Suc i) mod ?s \<noteq> ?r" using ring_distinct [of "Suc i" ?s 0 ?r] that k by simp
    ultimately show ?thesis by (metis nth_list_update_neq)
  qed
  have "fifo_content f = map (\<lambda>i. m_buf f ! ((?r + i) mod ?s)) (0 # map Suc [0..<?n - 1])"
    unfolding fifo_content_def using k(2) by (metis Suc_pred' map_Suc_upt upt_conv_Cons)
  also have "\<dots> = m_buf f ! ?r # map (\<lambda>i. m_buf f ! ((?r + Suc i) mod ?s)) [0..<?n - 1]" using k(4) by simp
  also have "map (\<lambda>i. m_buf f ! ((?r + Suc i) mod ?s)) [0..<?n - 1] = fifo_content (snd (buf_read d f))"
    using assms(2) c by (simp add: buf_read_def fifo_content_def)
  finally show ?thesis using assms(2) by (simp add: buf_read_def)
qed

section \<open>What a client of the channel relies on\<close>

locale delta_channel =
  fixes inv :: "'f \<Rightarrow> bool" and readable :: "'f \<Rightarrow> 'a list" and written :: "'f \<Rightarrow> 'a list"
    and taken :: "'f \<Rightarrow> nat" and cap :: "'f \<Rightarrow> nat"
    and put :: "'a \<Rightarrow> 'f \<Rightarrow> 'f result option" and get :: "'f \<Rightarrow> ('a \<times> 'f) result option"
    and tick :: "'f \<Rightarrow> (bool \<times> bool) \<times> 'f"
  assumes bounds: "inv f \<Longrightarrow> length (readable f) + length (written f) \<le> taken f \<and> taken f \<le> cap f"
    and write_law: "inv f \<Longrightarrow> if taken f = cap f then put v f = None
      else \<exists>f'. put v f = Some (Inr f') \<and> inv f' \<and> readable f' = readable f \<and> written f' = written f @ [v] \<and>
        taken f' = Suc (taken f) \<and> cap f' = cap f"
    and read_law: "inv f \<Longrightarrow> case readable f of [] \<Rightarrow> get f = None
      | v # vs \<Rightarrow> \<exists>f'. get f = Some (Inr (v, f')) \<and> inv f' \<and> readable f' = vs \<and> written f' = written f \<and>
        taken f' = taken f \<and> cap f' = cap f"
    and update_law: "inv f \<Longrightarrow> inv (snd (tick f)) \<and> readable (snd (tick f)) = readable f @ written f \<and>
      written (snd (tick f)) = [] \<and> taken (snd (tick f)) = length (readable f @ written f) \<and>
      cap (snd (tick f)) = cap f \<and> snd (fst (tick f)) = (written f \<noteq> [])"
begin

lemma write_room:
  assumes "inv f" "taken f < cap f"
  obtains f' where "put v f = Some (Inr f')" "inv f'" "readable f' = readable f" "written f' = written f @ [v]"
    "taken f' = Suc (taken f)" "cap f' = cap f"
  using write_law [OF assms(1), of v] assms(2) by auto

lemma read_next:
  assumes "inv f" "readable f = v # vs"
  obtains f' where "get f = Some (Inr (v, f'))" "inv f'" "readable f' = vs" "written f' = written f" "taken f' = taken f" "cap f' = cap f"
  using read_law [OF assms(1)] assms(2) by auto

lemma read_waits: "inv f \<Longrightarrow> readable f = [] \<Longrightarrow> get f = None"
  using read_law [of f] by simp

lemma never_fails: "inv f \<Longrightarrow> put v f \<noteq> Some (Inl e) \<and> get f \<noteq> Some (Inl e)"
  using write_law [of f v] read_law [of f] by (auto split: list.splits if_splits)

end

lemma fifo_write_law:
  assumes inv: "fifo_inv f"
  shows "if fifo_taken f = m_size f then fifo_write v f = None
    else \<exists>f'. fifo_write v f = Some (Inr f') \<and> fifo_inv f' \<and> fifo_readable f' = fifo_readable f \<and>
      fifo_written f' = fifo_written f @ [v] \<and> fifo_taken f' = Suc (fifo_taken f) \<and> m_size f' = m_size f"
proof (cases "fifo_taken f = m_size f")
  case True
  then show ?thesis by (simp add: fifo_write_def num_free_def fifo_taken_def)
next
  case False
  then have room: "fifo_taken f < m_size f" using inv by (simp add: fifo_inv_def fifo_taken_def)
  then have free: "m_free f \<noteq> 0" using inv by (auto simp: fifo_inv_def fifo_taken_def)
  define g where "g = snd (buf_write v f)"
  let ?f = "g\<lparr>m_num_written := m_num_written g + 1, m_update_requested := True\<rparr>"
  have k: "m_size g = m_size f" "m_num_readable g = m_num_readable f" "m_num_read g = m_num_read f" "m_num_written g = m_num_written f"
    using free by (simp_all add: buf_write_def g_def)
  have "buf_write v f = (True, g)" using free by (simp add: buf_write_def g_def)
  then have w: "fifo_write v f = Some (Inr ?f)" using room by (simp add: fifo_write_def nb_write_def num_free_def fifo_taken_def)
  have c: "fifo_content ?f = fifo_content f @ [v]" using buf_write_content [OF inv free, of v] by (simp add: fifo_content_def g_def)
  have le: "m_num_readable f - m_num_read f \<le> length (fifo_content f)" using inv by (simp add: fifo_inv_def)
  have n: "m_size f - (m_free f - 1) = Suc (m_size f - m_free f)" using inv free by (auto simp: fifo_inv_def)
  have g: "m_free g = m_free f - 1" "m_ri g = m_ri f" "length (m_buf g) = length (m_buf f)"
    "m_wi g = (m_ri f + Suc (m_size f - m_free f)) mod m_size f"
    using inv free by (simp_all add: buf_write_def fifo_inv_def mod_Suc_eq g_def)
  have "fifo_inv ?f"
    unfolding fifo_inv_def
  proof (intro conjI)
    show "m_wi ?f = (m_ri ?f + (m_size ?f - m_free ?f)) mod m_size ?f" using g k n by simp
    show "m_size ?f - m_free ?f = m_num_readable ?f - m_num_read ?f + m_num_written ?f" using inv g k n by (simp add: fifo_inv_def)
  qed (use inv g k room in \<open>auto simp: fifo_inv_def fifo_taken_def\<close>)
  then show ?thesis using False w c le k by (simp add: fifo_readable_def fifo_written_def fifo_taken_def)
qed

lemma fifo_read_law:
  assumes inv: "fifo_inv f"
  shows "case fifo_readable f of [] \<Rightarrow> fifo_read d f = None
    | v # vs \<Rightarrow> \<exists>f'. fifo_read d f = Some (Inr (v, f')) \<and> fifo_inv f' \<and> fifo_readable f' = vs \<and> fifo_written f' = fifo_written f \<and>
      fifo_taken f' = fifo_taken f \<and> m_size f' = m_size f"
proof (cases "m_num_readable f - m_num_read f")
  case 0
  then have "fifo_readable f = []" "num_available f = 0" using inv by (simp_all add: fifo_readable_def num_available_def fifo_inv_def)
  then show ?thesis by (simp add: fifo_read_def)
next
  case (Suc n)
  then have full: "m_free f \<noteq> m_size f" using inv by (auto simp: fifo_inv_def)
  obtain v where v: "fst (buf_read d f) = Some v" "fifo_content f = v # fifo_content (snd (buf_read d f))"
    using buf_read_content [OF inv full] by blast
  define g where "g = snd (buf_read d f)"
  let ?f = "g\<lparr>m_num_read := m_num_read g + 1, m_update_requested := True\<rparr>"
  have k: "m_size g = m_size f" "m_num_readable g = m_num_readable f" "m_num_read g = m_num_read f" "m_num_written g = m_num_written f"
    using full by (simp_all add: buf_read_def g_def)
  have "buf_read d f = (Some v, g)" using v(1) by (metis prod.collapse g_def)
  moreover have "num_available f \<noteq> 0" using Suc by (simp add: num_available_def)
  ultimately have r: "fifo_read d f = Some (Inr (v, ?f))" by (simp add: fifo_read_def nb_read_def)
  have n: "m_num_readable f - Suc (m_num_read f) = n" using Suc by simp
  have c: "fifo_content ?f = fifo_content g" by (simp add: fifo_content_def)
  have "(Suc (m_ri f) mod m_size f + (m_size f - Suc (m_free f))) mod m_size f = (m_ri f + (m_size f - m_free f)) mod m_size f"
  proof -
    have "Suc (m_ri f) + (m_size f - Suc (m_free f)) = m_ri f + (m_size f - m_free f)" using inv full by (auto simp: fifo_inv_def)
    then show ?thesis by (metis mod_add_left_eq)
  qed
  then have "fifo_inv ?f" using inv full Suc by (auto simp: fifo_inv_def buf_read_def g_def)
  then show ?thesis using v(2) [folded g_def] r c k n Suc by (simp add: fifo_readable_def fifo_written_def fifo_taken_def)
qed

lemma fifo_update_law:
  assumes inv: "fifo_inv f"
  shows "fifo_inv (snd (fifo_update f)) \<and> fifo_readable (snd (fifo_update f)) = fifo_readable f @ fifo_written f \<and>
    fifo_written (snd (fifo_update f)) = [] \<and> fifo_taken (snd (fifo_update f)) = length (fifo_readable f @ fifo_written f) \<and>
    m_size (snd (fifo_update f)) = m_size f \<and> snd (fst (fifo_update f)) = (fifo_written f \<noteq> [])"
proof -
  have c: "fifo_content (snd (fifo_update f)) = fifo_content f" by (simp add: fifo_update_def fifo_content_def)
  have "fifo_inv (snd (fifo_update f))" using inv by (simp add: fifo_update_def fifo_inv_def) linarith
  moreover have "fifo_readable (snd (fifo_update f)) = fifo_content f" "fifo_written (snd (fifo_update f)) = []"
    unfolding fifo_readable_def fifo_written_def c by (simp_all add: fifo_update_def)
  moreover have "fifo_readable f @ fifo_written f = fifo_content f" by (simp add: fifo_readable_def fifo_written_def)
  moreover have "fifo_written f \<noteq> [] \<longleftrightarrow> 0 < m_num_written f" using inv by (auto simp: fifo_written_def fifo_inv_def)
  ultimately show ?thesis by (simp add: fifo_update_def fifo_taken_def)
qed

interpretation ring: delta_channel fifo_inv fifo_readable fifo_written fifo_taken m_size fifo_write "fifo_read d" fifo_update for d
proof
  show "length (fifo_readable f) + length (fifo_written f) \<le> fifo_taken f \<and> fifo_taken f \<le> m_size f" if "fifo_inv f" for f :: "'a sc_fifo"
    using that by (auto simp: fifo_inv_def fifo_readable_def fifo_written_def fifo_taken_def)
qed (erule fifo_write_law | erule fifo_read_law | erule fifo_update_law)+

text \<open>A channel takes one reader and one writer; binding them leaves the queue as it is.\<close>

lemma bound_queue [simp]:
  "fifo_inv (f\<lparr>m_reader := x\<rparr>) = fifo_inv f" "fifo_readable (f\<lparr>m_reader := x\<rparr>) = fifo_readable f"
  "fifo_written (f\<lparr>m_reader := x\<rparr>) = fifo_written f" "fifo_taken (f\<lparr>m_reader := x\<rparr>) = fifo_taken f"
  "fifo_inv (f\<lparr>m_writer := x\<rparr>) = fifo_inv f" "fifo_readable (f\<lparr>m_writer := x\<rparr>) = fifo_readable f"
  "fifo_written (f\<lparr>m_writer := x\<rparr>) = fifo_written f" "fifo_taken (f\<lparr>m_writer := x\<rparr>) = fifo_taken f"
  by (simp_all add: fifo_inv_def fifo_readable_def fifo_written_def fifo_taken_def fifo_content_def)

lemma register_port_once:
  assumes "register_port p i f = Inr g"
  shows "register_port q i g \<noteq> Inr h \<and> fifo_inv g = fifo_inv f \<and> fifo_readable g = fifo_readable f \<and>
    fifo_written g = fifo_written f \<and> fifo_taken g = fifo_taken f"
  using assms by (cases i) (auto simp: register_port_def split: if_splits)

lemma fifo_requests:
  "fifo_write v f = Some (Inr g) \<Longrightarrow> m_update_requested g" "fifo_read d f = Some (Inr (v, g)) \<Longrightarrow> m_update_requested g"
  "\<not> m_update_requested (snd (fifo_update f))"
  by (auto simp: fifo_write_def nb_write_def fifo_read_def nb_read_def fifo_update_def split: if_splits prod.splits bool.splits option.splits)

lemma fifo_idle: "fifo_inv f \<Longrightarrow> \<not> m_update_requested f \<Longrightarrow> fifo_written f = [] \<and> fifo_taken f = length (fifo_readable f)"
  by (auto simp: fifo_inv_def fifo_written_def fifo_readable_def fifo_taken_def fifo_content_def)

section \<open>Runs of the channel\<close>

text \<open>\<open>fifo_run d f ws rs f'\<close>: calls that returned and updates lead from \<open>f\<close> to \<open>f'\<close>, having written \<open>ws\<close> and read \<open>rs\<close>.\<close>

inductive fifo_run :: "'a \<Rightarrow> 'a sc_fifo \<Rightarrow> 'a list \<Rightarrow> 'a list \<Rightarrow> 'a sc_fifo \<Rightarrow> bool" for d f where
  run_start: "fifo_run d f [] [] f"
| run_write: "fifo_run d f ws rs g \<Longrightarrow> fifo_write v g = Some (Inr g') \<Longrightarrow> fifo_run d f (ws @ [v]) rs g'"
| run_read: "fifo_run d f ws rs g \<Longrightarrow> fifo_read d g = Some (Inr (v, g')) \<Longrightarrow> fifo_run d f ws (rs @ [v]) g'"
| run_update: "fifo_run d f ws rs g \<Longrightarrow> fifo_run d f ws rs (snd (fifo_update g))"

lemma fifo_run_inv:
  assumes "fifo_run d f ws rs g" "fifo_inv f" "fifo_readable f = []" "fifo_written f = []"
  shows "fifo_inv g \<and> m_size g = m_size f \<and> ws = rs @ fifo_readable g @ fifo_written g"
  using assms(1)
proof induction
  case (run_write ws rs g v g')
  then show ?case using ring.write_law [of g v] by (auto split: if_splits)
next
  case (run_read ws rs g v g')
  then show ?case using ring.read_law [of g d] by (auto split: list.splits)
next
  case (run_update ws rs g)
  then show ?case using ring.update_law [of g] by simp
qed (use assms in simp)

text \<open>
  C8: the ring buffer of a fifo channel is a bounded queue with a delay of one delta cycle. In every
  run from a new channel the values read, followed by those readable and those written since the last
  update, are the values written, in their order; there are never more than the size of the channel,
  no call fails its assertion, a write waits only when the places are taken and a read only when
  nothing is readable, and an update makes everything readable and frees the places of what was read.
\<close>

theorem sc_fifo_is_queue:
  assumes "sc_fifo_new junk sz = Inr f" "fifo_run d f ws rs g"
  shows "ws = rs @ fifo_readable g @ fifo_written g \<and> int (length (fifo_readable g @ fifo_written g)) \<le> sz \<and>
    (fifo_write v g = None \<longleftrightarrow> int (fifo_taken g) = sz) \<and> (fifo_read d g = None \<longleftrightarrow> fifo_readable g = []) \<and>
    fifo_write v g \<noteq> Some (Inl e) \<and> fifo_read d g \<noteq> Some (Inl e) \<and>
    fifo_readable (snd (fifo_update g)) = fifo_readable g @ fifo_written g \<and>
    fifo_taken (snd (fifo_update g)) = length (fifo_readable g @ fifo_written g)"
proof -
  have sz: "0 < sz" using assms(1) by (auto simp: sc_fifo_new_def split: if_splits)
  then have f: "fifo_inv f" "fifo_readable f = []" "fifo_written f = []" "m_size f = nat sz" using fifo_new_inv [of sz junk] assms(1) by auto
  have g: "fifo_inv g" "m_size g = nat sz" "ws = rs @ fifo_readable g @ fifo_written g"
    using fifo_run_inv [OF assms(2) f(1-3)] f(4) by simp_all
  then show ?thesis
    using ring.bounds [of g] ring.write_law [of g v] ring.read_law [of g d] ring.update_law [of g] ring.never_fails [of g v e d] sz
    by (auto split: list.splits if_splits)
qed

theorem sc_fifo_is_queue_witness:
  "\<exists>f g. sc_fifo_new (\<lambda>_. 0) 2 = Inr f \<and> fifo_run 0 f [7, 8 :: nat] [7] g \<and> fifo_readable g @ fifo_written g = [8]"
proof -
  obtain f :: "nat sc_fifo" where f: "sc_fifo_new (\<lambda>_. 0) 2 = Inr f" "fifo_inv f" "fifo_readable f = []" "fifo_written f = []" "m_size f = 2"
    "fifo_taken f = 0"
    using fifo_new_inv [of 2 "\<lambda>_. 0"] by auto
  then have "fifo_taken f < m_size f" by simp
  from ring.write_room [OF f(2) this] obtain f1 where f1: "fifo_write 7 f = Some (Inr f1)" "fifo_inv f1" "fifo_readable f1 = []"
    "fifo_written f1 = [7]" "m_size f1 = 2" using f(3-5) by (metis append_Nil)
  define f2 where "f2 = snd (fifo_update f1)"
  have f2: "fifo_inv f2" "fifo_readable f2 = [7]" "fifo_written f2 = []" "fifo_taken f2 = 1" "m_size f2 = 2"
    using ring.update_law [OF f1(2)] f1(3-5) by (simp_all add: f2_def)
  then have "fifo_taken f2 < m_size f2" by simp
  from ring.write_room [OF f2(1) this] obtain f3 where f3: "fifo_write 8 f2 = Some (Inr f3)" "fifo_inv f3" "fifo_readable f3 = [7]"
    using f2(2) by metis
  from ring.read_next [OF f3(2,3), of 0] obtain g where g: "fifo_read 0 f3 = Some (Inr (7, g))" by blast
  have "fifo_run 0 f [7] [] f2" using run_update [OF run_write [OF run_start f1(1), of 0]] by (simp add: f2_def)
  from run_read [OF run_write [OF this f3(1)] g] have r: "fifo_run 0 f [7, 8] [7] g" by simp
  have "fifo_readable g @ fifo_written g = [8]" using sc_fifo_is_queue [OF f(1) r] by simp
  with f(1) r show ?thesis by blast
qed

end
