(* ===== verification/Simulation.thy ===== *)
theory Simulation
  imports Cache_Run Sc_Fifo
begin

text \<open>
  The program around the cache: the parameters that \<open>SimObject\<close> sets (\<open>top/include/sim.h\<close>,
  \<open>top/sim.cpp\<close>, \<open>params/\<close>), the L0 cache and its ports (\<open>top/include/l0.h\<close>, \<open>top/l0.cpp\<close>,
  \<open>cache/include/cache_port.h\<close>) and the top module with its load thread (\<open>top/include/top.h\<close>,
  \<open>top/top.cpp\<close>). A thread is the function of one iteration of its loop, which returns \<open>None\<close> when it
  blocks on a fifo; the fifos hold pointers to packets, \<open>None\<close> being null. \<open>NoncoherentCacheParams\<close> inherits its fields from the parameter structures; \<open>random\<close>
  and \<open>replacement_policy\<close> point to a random policy or are null, \<open>nc_tag_store\<close> is the pointer \<open>tags\<close> that
  is stored in two of the structures, and fields that are neither set nor read are left out.
  Parameters that no code sets are arguments. The store and second load threads are
  not started by the source, and the response ports are never written.
\<close>

section \<open>Parameters\<close>

record NoncoherentCacheParams =
  nc_base :: BaseCacheParams
  nc_name :: string
  nc_size :: u64
  nc_assoc :: u32
  nc_port_cpu_side_connection_count :: u32
  nc_port_mem_side_connection_count :: u32
  nc_move_contractions :: bool
  nc_replace_expansions :: bool
  nc_random :: bool
  nc_replacement_policy :: bool
  nc_tags :: TagsParams
  nc_warmup_percentage :: u32
  nc_entry_size :: u32
  nc_index :: IndexingParams
  nc_tag_store :: "BaseSetAssoc option"
  nc_prefetch :: PrefetcherParams
  nc_tagged :: "Queued option"

record MemoryParams =
  mp_name :: string
  mp_read_delay :: u32
  mp_write_delay :: u32
  mp_cap :: u64
  mp_width :: u32
  mp_id :: u32

definition InitL0BaseCache :: "NoncoherentCacheParams \<Rightarrow> NoncoherentCacheParams" where
  "InitL0BaseCache p =
     p\<lparr>nc_name := ''l0'', nc_size := 256 * 1024, nc_assoc := 4,
       nc_base := (nc_base p)\<lparr>cp_cacheline_size := 512, cp_mshrs := 12, cp_tgts_per_mshr := 1, cp_is_read_only := False,
         cp_write_buffers := 12, cp_writeback_clean := False, cp_demand_mshr_reserve := 1\<rparr>,
       nc_port_cpu_side_connection_count := 3, nc_port_mem_side_connection_count := 1,
       nc_move_contractions := False, nc_replace_expansions := False\<rparr>"

definition InitL0Replacement :: "NoncoherentCacheParams \<Rightarrow> NoncoherentCacheParams" where
  "InitL0Replacement p = p\<lparr>nc_random := True\<rparr>"

definition InitL0Tags :: "NoncoherentCacheParams \<Rightarrow> NoncoherentCacheParams" where
  "InitL0Tags p =
     p\<lparr>nc_entry_size := cp_cacheline_size (nc_base p),
       nc_tags := (nc_tags p)\<lparr>tp_block_size := cp_cacheline_size (nc_base p), tp_sequential_access := True,
         tp_size := nc_size p\<rparr>,
       nc_warmup_percentage := 1\<rparr>"

definition InitL0SetAssoc :: "(nat \<Rightarrow> (u32 \<times> u32) \<times> u32) \<Rightarrow> ptr \<Rightarrow> NoncoherentCacheParams \<Rightarrow> NoncoherentCacheParams result" where
  "InitL0SetAssoc junk dat p =
     (let p = p\<lparr>nc_tags := (nc_tags p)\<lparr>tp_assoc := nc_assoc p, tp_replacement_policy := nc_random p\<rparr>,
                nc_index := \<lparr>ipp_assoc = nc_assoc p, ipp_entry_size = nc_entry_size p, ipp_size = nc_size p\<rparr>\<rparr>
      in bindR (BaseIndexingPolicy_new (nc_index p)) (\<lambda>ip.
         let p = p\<lparr>nc_tags := (nc_tags p)\<lparr>tp_indexing_policy := Some ip\<rparr>\<rparr>
         in bindR (BaseSetAssoc_new junk dat (nc_tags p)) (\<lambda>tags.
              Inr (p\<lparr>nc_tag_store := Some tags, nc_replacement_policy := nc_random p\<rparr>))))"

definition InitL0Tagged :: "NoncoherentCacheParams \<Rightarrow> NoncoherentCacheParams result" where
  "InitL0Tagged p =
     (let p = p\<lparr>nc_prefetch := (nc_prefetch p)\<lparr>pp_block_size := cp_cacheline_size (nc_base p), pp_on_data := True,
            pp_on_inst := False, pp_on_miss := True, pp_on_read := True, pp_on_write := True, pp_page_bytes := 4096,
            pp_prefetch_on_access := True, pp_prefetch_on_pf_hit := False, pp_use_virtual_addresses := False,
            pp_cache_snoop := False, pp_latency := 0, pp_max_missing := 1, pp_queue_filter := False,
            pp_queue_size := 10, pp_queue_squash := False, pp_tag_prefetch := False,
            pp_throttle_control_percentage := 10, pp_degree := 1\<rparr>\<rparr>
      in bindR (Tagged_new (nc_prefetch p)) (\<lambda>t. Inr (p\<lparr>nc_tagged := Some t\<rparr>)))"

definition InitMemory :: MemoryParams where
  "InitMemory = \<lparr>mp_name = ''G-Memory'', mp_read_delay = 10, mp_write_delay = 20, mp_cap = 512 * 1024 * 1024, mp_width = 1024, mp_id = 0\<rparr>"

definition InitSimObject :: "(nat \<Rightarrow> (u32 \<times> u32) \<times> u32) \<Rightarrow> ptr \<Rightarrow> NoncoherentCacheParams \<Rightarrow>
    (NoncoherentCacheParams \<times> MemoryParams) result" where
  "InitSimObject junk dat p =
     bindR (InitL0SetAssoc junk dat (InitL0Tags (InitL0Replacement (InitL0BaseCache p)))) (\<lambda>p.
     bindR (InitL0Tagged p) (\<lambda>p. Inr (p, InitMemory)))"

section \<open>The top module\<close>

record Top =
  top_l0 :: "(unit, Memory) BaseCache"
  top_load0Fifo :: "Packet option sc_fifo"
  top_load1Fifo :: "Packet option sc_fifo"
  top_storeFifo :: "Packet option sc_fifo"

definition L0_new :: "Addr \<times> Addr \<times> bool \<Rightarrow> (u32 \<times> u32) \<times> u32 \<Rightarrow> Addr \<Rightarrow> (nat \<Rightarrow> u8) \<Rightarrow> WriteAllocator option \<Rightarrow>
    (nat \<Rightarrow> nat \<Rightarrow> Packet option) \<Rightarrow> NoncoherentCacheParams \<Rightarrow> heap \<Rightarrow> Memory \<Rightarrow> Top result" where
  "L0_new list_junk blk_junk addr_junk bytes wa fifo_junk p h m =
     (case nc_tag_store p of
        None \<Rightarrow> Inl (Undef ''tags'')
      | Some tags \<Rightarrow>
          bindR (BaseCache_new list_junk blk_junk addr_junk bytes wa (nc_base p) tags h (\<lambda>_. None) () m) (\<lambda>c.
          bindR (sc_fifo_new (fifo_junk 0) 16) (\<lambda>load0.
          bindR (sc_fifo_new (fifo_junk 1) 16) (\<lambda>load1.
          bindR (sc_fifo_new (fifo_junk 2) 10) (\<lambda>store.
            Inr \<lparr>top_l0 = c, top_load0Fifo = load0, top_load1Fifo = load1, top_storeFifo = store\<rparr>)))))"

text \<open>The memory is constructed after the L0 cache, to whose socket it is bound.\<close>

definition Top_new :: "Addr \<times> Addr \<times> bool \<Rightarrow> (u32 \<times> u32) \<times> u32 \<Rightarrow> Addr \<Rightarrow> (nat \<Rightarrow> u8) \<Rightarrow> WriteAllocator option \<Rightarrow>
    (nat \<Rightarrow> nat \<Rightarrow> Packet option) \<Rightarrow> NoncoherentCacheParams \<Rightarrow> MemoryParams \<Rightarrow> heap \<Rightarrow> Top result option" where
  "Top_new list_junk blk_junk addr_junk bytes wa fifo_junk p mp h =
     (case Memory_new (mp_id mp) (mp_cap mp) (mp_width mp) of
        None \<Rightarrow> None
      | Some r \<Rightarrow> Some (bindR r (L0_new list_junk blk_junk addr_junk bytes wa fifo_junk p h)))"

definition Package :: "u32 \<times> u32 \<Rightarrow> u64 \<Rightarrow> Addr \<Rightarrow> ptr \<Rightarrow> u32 \<Rightarrow> u64 \<Rightarrow> Command \<Rightarrow> u32 \<Rightarrow> Packet result" where
  "Package junk reqptr addr buf len flag cmd req_id =
     bindR (Packet_new_blk junk reqptr (Request_new addr len flag 0) cmd len (ucast req_id)) (\<lambda>pkt.
       Packet_dataStatic buf pkt)"

definition AllocateReqPacket :: "u32 \<times> u32 \<Rightarrow> u64 \<Rightarrow> Command \<Rightarrow> u32 \<Rightarrow> heap \<Rightarrow> (Packet \<times> heap) result" where
  "AllocateReqPacket junk reqptr cmd req_id h =
     (case new_bytes (\<lambda>_. 0) 128 h of (buf, h) \<Rightarrow>
      bindR (Package junk reqptr 0 buf 128 0 cmd req_id) (\<lambda>pkt. Inr (pkt, h)))"

definition Load0Thread :: "u32 \<times> u32 \<Rightarrow> u64 \<Rightarrow> u32 \<Rightarrow> Top \<Rightarrow> (u32 \<times> Top) result option" where
  "Load0Thread junk reqptr req_id s =
     (if req_id < 2 then
        case AllocateReqPacket junk reqptr ReadReq 0 (c_heap (top_l0 s)) of
          Inl e \<Rightarrow> Some (Inl e)
        | Inr (pkt, h) \<Rightarrow>
            (case fifo_write (Some pkt) (top_load0Fifo s) of
               None \<Rightarrow> None
             | Some r \<Rightarrow> Some (bindR r (\<lambda>f. Inr (req_id + 1, s\<lparr>top_load0Fifo := f, top_l0 := (top_l0 s)\<lparr>c_heap := h\<rparr>\<rparr>))))
      else Some (Inr (req_id + 1, s)))"

definition ReqMonitor :: "(unit, Memory) cache_env \<Rightarrow> Top \<Rightarrow> Top result option" where
  "ReqMonitor env s =
     (case fifo_read None (top_load0Fifo s) of
        None \<Rightarrow> None
      | Some r \<Rightarrow>
          Some (bindR r (\<lambda>(pkt, f).
            case pkt of
              None \<Rightarrow> Inl (Undef ''pkt'')
            | Some pkt \<Rightarrow> bindR (recvTimingReq env pkt (top_l0 s)) (\<lambda>c. Inr (s\<lparr>top_load0Fifo := f, top_l0 := c\<rparr>)))))"

definition pktQueueProcess :: "(unit, Memory) cache_env \<Rightarrow> Top \<Rightarrow> Top result" where
  "pktQueueProcess env s = bindR (cache_processSendEvent env (top_l0 s)) (\<lambda>c. Inr (s\<lparr>top_l0 := c\<rparr>))"

section \<open>The configuration\<close>

lemma empty_store_invalid:
  assumes "tags_inv T" "\<And>a s. tag_lookup T a s = None" "k < length (bt_blks T)"
  shows "\<not> t_valid (bt_blks T ! k)"
proof
  assume v: "t_valid (bt_blks T ! k)"
  let ?p = "bt_indexingPolicy T" and ?b = "bt_blks T ! k"
  have "unat (e_set ?b) < unat (ip_numSets ?p)"
    using tags_inv_blk [OF assms(1,3)] assms(1,3) by (simp add: blk_ok_def tags_inv_def less_mult_imp_div_less)
  then obtain a where "tag_of ?p a = t_tag ?b" "set_of ?p a = e_set ?b"
    using address_of_entry [of ?p "t_tag ?b" "e_set ?b"] tags_inv_blk [OF assms(1,3)] assms(1) v by (auto simp: blk_ok_def tags_inv_def)
  then have "tag_lookup T a (t_secure ?b) = Some k" using v assms(3) by (simp add: tag_lookup_iff [OF assms(1)] resident_def)
  then show False using assms(2) by simp
qed

lemma InitL0Tagged_frame:
  "cp_cacheline_size (nc_base p) = 512 \<Longrightarrow>
   \<exists>p'. InitL0Tagged p = Inr p' \<and> nc_base p' = nc_base p \<and> nc_tag_store p' = nc_tag_store p"
  by (simp add: InitL0Tagged_def Let_def Tagged_new_def floorLog2_def floorLog2_stage_def)

lemma InitSimObject_builds:
  "\<exists>p tags T. InitSimObject junk dat p0 = Inr (p, InitMemory) \<and> nc_tag_store p = Some tags \<and> tagsInit tags = Inr T \<and> tags_inv T \<and>
     ip_setShift (bt_indexingPolicy T) = 9 \<and> (\<forall>a s. tag_lookup T a s = None) \<and> cp_cacheline_size (nc_base p) = 512 \<and>
     cp_mshrs (nc_base p) = 12 \<and> \<not> cp_is_read_only (nc_base p) \<and> cp_prefetcher (nc_base p) = cp_prefetcher (nc_base p0)"
proof -
  let ?p1 = "InitL0Tags (InitL0Replacement (InitL0BaseCache p0))"
  let ?ipp = "\<lparr>ipp_assoc = 4, ipp_entry_size = 512, ipp_size = 256 * 1024\<rparr>"
  obtain ip where ip: "BaseIndexingPolicy_new ?ipp = Inr ip" "Indexing_wf ip" "ip_assoc ip = 4" "ip_setShift ip = 9"
    "ip_numSets ip = 2 ^ 7"
    using BaseIndexingPolicy_new_wf [of ?ipp 9 7] by auto
  let ?tp = "(nc_tags ?p1)\<lparr>tp_assoc := 4, tp_replacement_policy := True, tp_indexing_policy := Some ip\<rparr>"
  have tp: "tp_block_size ?tp = 2 ^ 9" "tp_size ?tp = 256 * 1024" by (simp_all add: InitL0Tags_def InitL0Replacement_def InitL0BaseCache_def)
  obtain tags T where T: "BaseSetAssoc_new junk dat ?tp = Inr tags" "tagsInit tags = Inr T" "tags_inv T"
    "ip_setShift (bt_indexingPolicy T) = 9" "\<forall>a s. tag_lookup T a s = None"
    using BaseSetAssoc_built [of ?tp 9 ip junk dat] tp ip by auto
  let ?p2 = "?p1\<lparr>nc_tags := ?tp, nc_index := ?ipp, nc_tag_store := Some tags, nc_replacement_policy := True\<rparr>"
  have s: "InitL0SetAssoc junk dat ?p1 = Inr ?p2"
    using ip(1) T(1) by (simp add: InitL0SetAssoc_def InitL0Tags_def InitL0Replacement_def InitL0BaseCache_def Let_def)
  have "cp_cacheline_size (nc_base ?p2) = 512" by (simp add: InitL0Tags_def InitL0Replacement_def InitL0BaseCache_def)
  from InitL0Tagged_frame [OF this] obtain p where p: "InitL0Tagged ?p2 = Inr p" "nc_base p = nc_base ?p2" "nc_tag_store p = Some tags"
    by auto
  then have "InitSimObject junk dat p0 = Inr (p, InitMemory)" by (simp add: InitSimObject_def s)
  with p T(2-5) show ?thesis
    by (intro exI [of _ p] exI [of _ tags] exI [of _ T])
      (simp add: InitL0Tags_def InitL0Replacement_def InitL0BaseCache_def)
qed

text \<open>The memory that is configured overruns its array when it is constructed.\<close>

lemma Top_new_overruns: "Top_new lj bj aj bytes wa fj p InitMemory h = Some (Inl (Undef ''m_memory[i]''))"
  using memory_init_loop_overrun [of "512 * 1024 * 1024" 0 "replicate (512 * 1024 * 1024) 0"]
  by (simp add: Top_new_def Memory_new_def InitMemory_def)

text \<open>The L0 cache of the configuration, when the pointers that no code sets are null.\<close>

definition fresh_cache :: "Memory \<Rightarrow> (unit, Memory) BaseCache \<Rightarrow> bool" where
  "fresh_cache m c \<longleftrightarrow> demand_inv c \<and> q_allocatedList (c_mshrQueue c) = [] \<and> \<not> Queue_isFull (c_mshrQueue c) \<and>
     c_answered c = [] \<and> c_below c = m \<and> \<not> pq_waitingOnRetry (c_reqPacketQueue c) \<and> c_blkSize c = 512 \<and> \<not> c_isReadOnly c \<and>
     (\<forall>a sec. tag_lookup (c_tags c) a sec = None)"

definition fresh_L0 :: "Memory \<Rightarrow> Top \<Rightarrow> bool" where
  "fresh_L0 m s \<longleftrightarrow> fresh_cache m (top_l0 s) \<and> fifo_inv (top_load0Fifo s) \<and> m_size (top_load0Fifo s) = 16 \<and>
     \<not> m_update_requested (top_load0Fifo s) \<and> fifo_readable (top_load0Fifo s) = []"

lemmas fresh_defs = fresh_L0_def fresh_cache_def

lemma fresh_L0_cache: "fresh_L0 m s \<Longrightarrow> fresh_cache m (top_l0 s)"
  by (simp add: fresh_L0_def)

lemma L0_configured:
  assumes "InitSimObject junk dat p0 = Inr (p, mp)" "cp_prefetcher (nc_base p0) = None"
  shows "\<exists>s. L0_new lj bj aj bytes None fj p h m = Inr s \<and> fresh_L0 m s"
proof -
  obtain tags T where T: "nc_tag_store p = Some tags" "tagsInit tags = Inr T" "tags_inv T" "ip_setShift (bt_indexingPolicy T) = 9"
    "\<And>a s. tag_lookup T a s = None" "cp_cacheline_size (nc_base p) = 512" "cp_mshrs (nc_base p) = 12"
    "\<not> cp_is_read_only (nc_base p)" "cp_prefetcher (nc_base p) = None"
    using InitSimObject_builds [of junk dat p0] assms by auto
  obtain c where c: "BaseCache_new lj bj aj bytes None (nc_base p) tags h (\<lambda>_. None) () m = Inr c" "cache_inv c" "c_tags c = T"
    "c_mshrQueue c = MSHRQueue_new lj 12 0" "c_blkSize c = 512" "c_reqPacketQueue c = ReqPacketQueue_new" "c_writeAllocator c = None"
    "c_prefetcher c = None" "\<not> c_isReadOnly c" "c_answered c = []" "c_below c = m"
    using BaseCache_new_inv [OF T(2,3), of "nc_base p" lj bj aj bytes None h "\<lambda>_. None" "()" m] T by auto
  obtain f0 f1 f2 where f: "sc_fifo_new (fj 0) 16 = Inr f0" "sc_fifo_new (fj 1) 16 = Inr f1" "sc_fifo_new (fj 2) 10 = Inr f2"
    "fifo_inv f0" "m_size f0 = 16" "fifo_readable f0 = []" "\<not> m_update_requested f0"
    using fifo_new_inv [of 16 "fj 0"] by (auto simp: sc_fifo_new_def)
  let ?s = "\<lparr>top_l0 = c, top_load0Fifo = f0, top_load1Fifo = f1, top_storeFifo = f2\<rparr>"
  have "demand_inv c"
    using c empty_store_invalid [OF T(3,5)] by (simp add: demand_inv_def MSHRQueue_new_def Queue_new_simps)
  then have "fresh_L0 m ?s"
    using c T(5) f(4-7) by (simp add: fresh_defs MSHRQueue_new_def Queue_new_simps Queue_isFull_def ReqPacketQueue_new_def PacketQueue_new_def)
  with c(1) T(1) f(1-3) show ?thesis by (intro exI [of _ ?s]) (simp add: L0_new_def)
qed

lemma AllocateReqPacket_demand:
  assumes "cmd = ReadReq \<or> cmd = WriteReq" "c_blkSize c = 512" "\<not> c_isReadOnly c"
  shows "\<exists>pkt. AllocateReqPacket junk reqptr cmd 0 h = Inr (pkt, h @ [Some (map (\<lambda>_. 0) [0..<128])]) \<and> demand_req c pkt \<and>
    p_addr pkt = 0 \<and> p_size pkt = 128 \<and> \<not> p_isSecure pkt \<and> p_cmd pkt = cmd"
proof -
  let ?req = "Request_new 0 128 0 0"
  have r: "Request_hasPaddr ?req" "r_paddr ?req = 0" "\<not> Request_isSecure ?req" "\<not> Request_isCacheMaintenance ?req"
    using Request_new_plain_fields [of 0 128 0] by (simp_all add: Request_isSecure_def Request_isCacheMaintenance_def isSet_def)
  obtain p where p: "Packet_new_blk junk reqptr ?req cmd 128 0 = Inr p" "p_cmd p = cmd" "p_req p = ?req" "p_addr p = 0" "p_size p = 128"
    "\<not> p_isSecure p" "p_flags p = block_flags"
    using r by (simp add: Packet_new_blk_def Let_def Request_getPaddr_def block_flags_def flag_ops)
  let ?p = "p\<lparr>p_data := Ptr (length h) 0, p_flags := block_flags OR PKT_STATIC_DATA\<rparr>"
  have "AllocateReqPacket junk reqptr cmd 0 h = Inr (?p, h @ [Some (map (\<lambda>_. 0) [0..<128])])"
    using p by (simp add: AllocateReqPacket_def Package_def new_bytes_def Packet_dataStatic_def noneSet_def setf_def block_flags_def flag_defs)
  moreover have "demand_req c ?p"
    using p r assms
    by (auto simp: demand_req_def demand_pkt_def pkt_ok_def Packet_isRequest_def Packet_cacheResponding_def isSet_def block_flags_def
        flag_defs MemCmd_query_defs MemCmd_table)
  ultimately show ?thesis using p by (intro exI [of _ ?p]) simp
qed

section \<open>The loads of the test program\<close>

text \<open>The first request of a fresh cache occupies a register that can be served.\<close>

lemma fresh_miss:
  assumes f: "fresh_cache m c0" and p: "demand_req c0 pkt"
  shows "\<exists>c i js t. recvTimingReq (L0_env over tr junk lj rnd) pkt c0 = Inr c \<and> demand_inv c \<and> q_readyList (c_mshrQueue c) = i # js \<and>
    q_allocatedList (c_mshrQueue c) = [i] \<and> all_targets (get_mshr i c) = [t] \<and> tg_pkt t = pkt \<and>
    qe_blkAddr (get_mshr i c) = blk_align (bt_indexingPolicy (c_tags c0)) (p_addr pkt) \<and>
    qe_isSecure (get_mshr i c) = p_isSecure pkt \<and> c_answered c = [] \<and> access_frame c0 c \<and> (\<forall>a. free_way c a) \<and>
    pq_notifications (c_reqPacketQueue c) > pq_notifications (c_reqPacketQueue c0)"
proof -
  let ?env = "L0_env over tr junk lj rnd"
  have inv: "demand_inv c0" "cache_inv c0" "q_allocatedList (c_mshrQueue c0) = []" "\<not> Queue_isFull (c_mshrQueue c0)" "c_answered c0 = []"
    and e: "\<And>a sec. tag_lookup (c_tags c0) a sec = None" using f by (simp_all add: fresh_cache_def demand_inv_def)
  have d: "demand_pkt c0 pkt" using p by (simp add: demand_req_def)
  then have ok: "pkt_ok (c_blkSize c0) pkt" by (simp add: demand_pkt_def)
  let ?a = "blk_align (bt_indexingPolicy (c_tags c0)) (p_addr pkt)"
  have "mshr_findMatch ?a (p_isSecure pkt) False c0 = Inr None" using inv(3) by (simp add: mshr_findMatch_def findMatch_def)
  from demand_miss [OF inv(2) d _ e cache_block_addr(1) [OF inv(2) ok] this, of ?env] inv(4,5)
  obtain c where c: "recvTimingReq ?env pkt c0 = Inr c" "cache_inv c" "c_answered c = []" "access_frame c0 c" "new_register pkt ?a c0 c"
    by auto
  have di: "demand_inv c" using recvTimingReq_run(1) [OF inv(1) p _ c(1)] by simp
  from c(5) inv(3) obtain i t where i: "q_allocatedList (c_mshrQueue c) = [i]" "all_targets (get_mshr i c) = [t]" "tg_pkt t = pkt"
    "qe_blkAddr (get_mshr i c) = ?a" "qe_isSecure (get_mshr i c) = p_isSecure pkt" "i \<in> set (q_readyList (c_mshrQueue c))"
    "pq_notifications (c_reqPacketQueue c) > pq_notifications (c_reqPacketQueue c0)"
    unfolding new_register_def by auto
  have "mq_inv (c_blkSize c) (c_mshrQueue c)" using c(2) by (simp add: cache_inv_def)
  then have "set (q_readyList (c_mshrQueue c)) \<subseteq> {i}" using mq_ready(1) i(1) by auto
  then obtain js where js: "q_readyList (c_mshrQueue c) = i # js"
    using i(6) by (cases "q_readyList (c_mshrQueue c)") auto
  have t: "tags_inv (c_tags c)" using c(2) by (simp add: cache_inv_def)
  have ec: "tag_lookup (c_tags c) a sec = None" for a sec using c(4) e by (simp add: access_frame_def same_store_def)
  have "free_way c a" for a
  proof -
    obtain k where "k \<in> set (set_ways (c_tags c) a)" using findVictim_spec [OF t tags_inv_assoc [OF t]] by blast
    then show ?thesis
      using empty_store_invalid [OF t ec] set_ways_less(1) [OF t] unfolding free_way_def by blast
  qed
  with c(1,3,4) di i js show ?thesis by (intro exI [of _ c] exI [of _ i] exI [of _ js] exI [of _ t]) simp
qed

definition load_pkt :: "('u, 'm) BaseCache \<Rightarrow> Packet \<Rightarrow> bool" where
  "load_pkt c pkt \<longleftrightarrow> demand_req c pkt \<and> p_addr pkt = 0 \<and> p_size pkt = 128 \<and> \<not> p_isSecure pkt \<and> p_cmd pkt = ReadReq"

definition load_answer :: "Packet \<Rightarrow> bool" where
  "load_answer r \<longleftrightarrow> p_cmd r = ReadResp \<and> p_addr r = 0 \<and> p_size r = 128"

text \<open>
  The two states of the cache after the first load: the block is being fetched, so that whichever way the
  send event is processed the cache has the block then; the cache has the block and has answered \<open>n\<close> loads.
\<close>

definition loaded :: "Memory \<Rightarrow> nat \<Rightarrow> (unit, Memory) BaseCache \<Rightarrow> bool" where
  "loaded m n c \<longleftrightarrow> demand_inv c \<and> pending c = [] \<and> tag_lookup (c_tags c) 0 False \<noteq> None \<and> c_below c = m \<and> c_blkSize c = 512 \<and>
     \<not> c_isReadOnly c \<and> length (c_answered c) = n \<and> list_all load_answer (c_answered c)"

definition loading :: "Memory \<Rightarrow> (unit, Memory) BaseCache \<Rightarrow> bool" where
  "loading m c \<longleftrightarrow> demand_inv c \<and> c_answered c = [] \<and> (\<forall>over tr junk lj rnd. rnd < tassoc (c_tags c) \<longrightarrow>
     (\<exists>c'. cache_processSendEvent (L0_env over tr junk lj rnd) c = Inr c' \<and> loaded m 1 c'))"

lemma load_answers:
  assumes "load_pkt c pkt" "Packet_makeTimingResponse pkt = Inr r"
  shows "load_answer r"
  using assms by (auto simp: load_pkt_def load_answer_def Packet_makeTimingResponse_def Packet_makeResponse_def MemCmd_query_defs MemCmd_table)

lemma first_load:
  assumes f: "fresh_cache m c0" and p: "load_pkt c0 pkt" and m: "memory_wf m" "512 < unat (gm_memory_size m)"
  shows "\<exists>c. recvTimingReq (L0_env over tr junk lj rnd) pkt c0 = Inr c \<and> loading m c \<and>
    pq_notifications (c_reqPacketQueue c) > pq_notifications (c_reqPacketQueue c0)"
proof -
  have "demand_req c0 pkt" "p_addr pkt = 0" "\<not> p_isSecure pkt" using p by (simp_all add: load_pkt_def)
  then obtain c i js t where c: "recvTimingReq (L0_env over tr junk lj rnd) pkt c0 = Inr c" "demand_inv c"
    "q_readyList (c_mshrQueue c) = i # js" "q_allocatedList (c_mshrQueue c) = [i]" "all_targets (get_mshr i c) = [t]" "tg_pkt t = pkt"
    "qe_blkAddr (get_mshr i c) = 0" "\<not> qe_isSecure (get_mshr i c)" "c_answered c = []" "access_frame c0 c"
    "free_way c 0" "pq_notifications (c_reqPacketQueue c) > pq_notifications (c_reqPacketQueue c0)"
    using fresh_miss [OF f, of pkt over tr junk lj rnd] by (auto simp: blk_align_def)
  have fr: "\<not> pq_waitingOnRetry (c_reqPacketQueue c)" "c_below c = m" "c_blkSize c = 512" "\<not> c_isReadOnly c"
    using f c(10) by (simp_all add: access_frame_def fresh_cache_def)
  have "\<exists>c'. cache_processSendEvent (L0_env over' tr' junk' lj' rnd') c = Inr c' \<and> loaded m 1 c'" if r: "rnd' < tassoc (c_tags c)" for over' tr' junk' lj' rnd'
  proof -
    obtain c' where c': "cache_processSendEvent (L0_env over' tr' junk' lj' rnd') c = Inr c'" "served i c c'" "demand_inv c'"
      "c_blkSize c' = c_blkSize c" "c_isReadOnly c' = c_isReadOnly c"
      using L0_serves [OF c(2,3) fr(1), of rnd' over' tr' junk' lj'] fr(2,3) m r c(7,11) by auto
    have "q_allocatedList (c_mshrQueue c') = []" using c'(2) c(4) by (simp add: served_def)
    moreover have "tag_lookup (c_tags c') 0 False \<noteq> None" using c'(2) c(7,8) by (auto simp: served_def blk_align_def)
    moreover obtain r where "c_answered c' = [r]" "answers pkt r" using c'(2) c(5,6,9) by (auto simp: served_def list_all2_Cons1)
    moreover then have "load_answer r" using load_answers [OF p] by (auto simp: answers_def load_answer_def)
    ultimately show ?thesis using c' fr(2-4) by (intro exI [of _ c']) (simp add: loaded_def pending_def served_def)
  qed
  with c(1,2,9,12) show ?thesis by (auto simp: loading_def)
qed

lemma next_load:
  assumes l: "loaded m n c" and p: "load_pkt c pkt"
  shows "recvTimingReq env pkt c = Inl (Undef ''sprintf'') \<and> env_overrun env < 45 \<or>
    (\<exists>c'. recvTimingReq env pkt c = Inr c' \<and> loaded m (Suc n) c' \<and> c_reqPacketQueue c' = c_reqPacketQueue c \<and> 3 \<le> env_overrun env)"
proof -
  have inv: "demand_inv c" "cache_inv c" "demand_pkt c pkt" "c_prefetcher c = None"
    using l p by (simp_all add: loaded_def load_pkt_def demand_req_def demand_inv_def)
  have t: "tags_inv (c_tags c)" using inv(2) by (simp add: cache_inv_def)
  obtain k where k: "tag_lookup (c_tags c) (p_addr pkt) (p_isSecure pkt) = Some k" using l p by (auto simp: loaded_def load_pkt_def)
  then have "k < length (bt_blks (c_tags c))" "t_valid (bt_blks (c_tags c) ! k)" by (simp_all add: tag_lookup_iff [OF t] resident_def)
  then have "CacheBlk_isSet (hit_bit pkt) (bt_blks (c_tags c) ! k)" using inv(1) by (simp add: demand_inv_def hit_bit_def)
  from demand_hit [OF inv(2,3) k this, of env]
  obtain r where r: "Packet_makeTimingResponse pkt = Inr r" "recvTimingReq env pkt c =
      bindR (CacheBlk_print_over (env_overrun env) (CacheBlk_increaseRefCount (bt_blks (c_tags c) ! k))) (\<lambda>_. Inr (after_hit k pkt r c))"
    "cache_inv (after_hit k pkt r c)" "access_frame c (after_hit k pkt r c)" by blast
  define c' where "c' = after_hit k pkt r c"
  have c': "c_answered c' = c_answered c @ [r]" "cache_inv c'" "c_mshrQueue c' = c_mshrQueue c" "access_frame c c'"
    "c_reqPacketQueue c' = c_reqPacketQueue c" using r(3,4) inv(4) by (simp_all add: c'_def)
  note h = demand_inv_hit [OF inv(1) c'(2,4,3)] load_answers [OF p r(1)]
  have "loaded m (Suc n) c'" using l c'(1,4) h by (simp add: loaded_def access_frame_def same_store_def)
  then show ?thesis
    using c'(5) r(2) CacheBlk_print_over_cases [of "env_overrun env" "CacheBlk_increaseRefCount (bt_blks (c_tags c) ! k)"]
    by (auto simp: c'_def)
qed

text \<open>One iteration of the load thread, when the fifo has room.\<close>

lemma Load0Thread_writes:
  assumes "c_blkSize (top_l0 s) = 512" "\<not> c_isReadOnly (top_l0 s)" "fifo_inv (top_load0Fifo s)"
    "fifo_taken (top_load0Fifo s) < m_size (top_load0Fifo s)" "req_id < 2"
  obtains pkt h f where "Load0Thread pj rp req_id s = Some (Inr (req_id + 1, s\<lparr>top_load0Fifo := f, top_l0 := (top_l0 s)\<lparr>c_heap := h\<rparr>\<rparr>))"
    "load_pkt (top_l0 s) pkt" "fifo_inv f" "fifo_readable f = fifo_readable (top_load0Fifo s)" "m_size f = m_size (top_load0Fifo s)"
    "fifo_written f = fifo_written (top_load0Fifo s) @ [Some pkt]" "m_update_requested f"
proof -
  obtain pkt where pkt: "AllocateReqPacket pj rp ReadReq 0 (c_heap (top_l0 s)) = Inr (pkt, c_heap (top_l0 s) @ [Some (map (\<lambda>_. 0) [0..<128])])"
    "load_pkt (top_l0 s) pkt"
    using AllocateReqPacket_demand [of ReadReq "top_l0 s" pj rp "c_heap (top_l0 s)"] assms(1,2) by (auto simp: load_pkt_def)
  from ring.write_room [OF assms(3,4)] obtain f where f: "fifo_write (Some pkt) (top_load0Fifo s) = Some (Inr f)" "fifo_inv f"
    "fifo_readable f = fifo_readable (top_load0Fifo s)" "fifo_written f = fifo_written (top_load0Fifo s) @ [Some pkt]"
    "m_size f = m_size (top_load0Fifo s)" .
  then show ?thesis using pkt fifo_requests(1) [OF f(1)] assms(5) by (intro that) (simp_all add: Load0Thread_def)
qed

end
