(* ===== verification/Probe.thy ===== *)
theory Probe
  imports Prefetch
begin

text \<open>
  Probes: \<open>base/include/probe.h\<close> and \<open>base/probe.cpp\<close>, with the listeners of the prefetcher in
  \<open>prefetch/include/prefetch_base.h\<close> and \<open>prefetch/prefetch_base.cpp\<close>. A probe manager pairs named points with
  listeners. The state \<open>Probes\<close> holds one manager: \<open>pb_heap\<close> are the points constructed so far, at
  their address; \<open>pb_points\<close> is the vector \<open>ProbeManager::points\<close>; \<open>pb_names\<close> has the name of every
  listener at its address, or \<open>None\<close> once it has been destroyed. A point is never taken from its
  manager: its destructor does nothing, so points are never destroyed here. The abstract view is
  the map from names to the listeners that a notification at the registered point calls.
\<close>

section \<open>Points and listeners\<close>

record ProbePoint =
  pt_name :: string
  pt_listeners :: "nat list"

definition ProbePointArg_hasListeners :: "ProbePoint \<Rightarrow> bool" where
  "ProbePointArg_hasListeners p \<longleftrightarrow> length (pt_listeners p) > 0"

definition ProbePointArg_addListener :: "nat \<Rightarrow> ProbePoint \<Rightarrow> ProbePoint" where
  "ProbePointArg_addListener l p =
     (if l \<notin> set (pt_listeners p) then p\<lparr>pt_listeners := pt_listeners p @ [l]\<rparr> else p)"

definition ProbePointArg_removeListener :: "nat \<Rightarrow> ProbePoint \<Rightarrow> ProbePoint" where
  "ProbePointArg_removeListener l p = p\<lparr>pt_listeners := removeAll l (pt_listeners p)\<rparr>"

text \<open>The virtual \<open>notify\<close> of a listener is an argument; it works on a state of its own.\<close>

fun ProbePointArg_notify :: "(nat \<Rightarrow> 'a \<Rightarrow> 's \<Rightarrow> 's result) \<Rightarrow> 'a \<Rightarrow> nat list \<Rightarrow> 's \<Rightarrow> 's result" where
  "ProbePointArg_notify notify a [] s = Inr s"
| "ProbePointArg_notify notify a (l # ls) s = bindR (notify l a s) (ProbePointArg_notify notify a ls)"

section \<open>The manager\<close>

record Probes =
  pb_heap :: "ProbePoint list"
  pb_points :: "nat list"
  pb_names :: "string option list"

definition ProbeManager_new :: Probes where
  "ProbeManager_new = \<lparr>pb_heap = [], pb_points = [], pb_names = []\<rparr>"

text \<open>The loop that \<open>addListener\<close> and \<open>removeListener\<close> of the manager share, up to the call in it.\<close>

fun point_loop :: "(ProbePoint \<Rightarrow> ProbePoint) \<Rightarrow> string \<Rightarrow> nat list \<Rightarrow> bool \<Rightarrow> ProbePoint list \<Rightarrow> bool \<times> ProbePoint list" where
  "point_loop f n [] done h = (done, h)"
| "point_loop f n (p # ps) done h =
     (if pt_name (h ! p) = n then point_loop f n ps True (h[p := f (h ! p)]) else point_loop f n ps done h)"

definition ProbeManager_addListener :: "string \<Rightarrow> nat \<Rightarrow> Probes \<Rightarrow> bool \<times> Probes" where
  "ProbeManager_addListener point_name l s =
     (let (added, h) = point_loop (ProbePointArg_addListener l) point_name (pb_points s) False (pb_heap s)
      in (added, s\<lparr>pb_heap := h\<rparr>))"

definition ProbeManager_removeListener :: "string \<Rightarrow> nat \<Rightarrow> Probes \<Rightarrow> bool \<times> Probes" where
  "ProbeManager_removeListener point_name l s =
     (let (removed, h) = point_loop (ProbePointArg_removeListener l) point_name (pb_points s) False (pb_heap s)
      in (removed, s\<lparr>pb_heap := h\<rparr>))"

fun addPoint_loop :: "ProbePoint list \<Rightarrow> nat \<Rightarrow> nat list \<Rightarrow> bool" where
  "addPoint_loop h point [] = False"
| "addPoint_loop h point (p # ps) = (if pt_name (h ! p) = pt_name (h ! point) then True else addPoint_loop h point ps)"

definition ProbeManager_addPoint :: "nat \<Rightarrow> Probes \<Rightarrow> Probes" where
  "ProbeManager_addPoint point s =
     (if addPoint_loop (pb_heap s) point (pb_points s) then s else s\<lparr>pb_points := pb_points s @ [point]\<rparr>)"

definition ProbePoint_new :: "bool \<Rightarrow> string \<Rightarrow> Probes \<Rightarrow> nat \<times> Probes" where
  "ProbePoint_new manager n s =
     (let p = length (pb_heap s); s = s\<lparr>pb_heap := pb_heap s @ [\<lparr>pt_name = n, pt_listeners = []\<rparr>]\<rparr>
      in (p, if manager then ProbeManager_addPoint p s else s))"

definition ProbeListener_new :: "bool \<Rightarrow> string \<Rightarrow> Probes \<Rightarrow> (nat \<times> Probes) result" where
  "ProbeListener_new manager n s =
     (let l = length (pb_names s); s = s\<lparr>pb_names := pb_names s @ [Some n]\<rparr>
      in defined ''manager->addListener'' manager (Inr (l, snd (ProbeManager_addListener n l s))))"

definition ProbeListener_delete :: "nat \<Rightarrow> Probes \<Rightarrow> Probes result" where
  "ProbeListener_delete l s =
     (if l < length (pb_names s) then
        case pb_names s ! l of
          None \<Rightarrow> Inl (Undef ''delete'')
        | Some n \<Rightarrow> let s = snd (ProbeManager_removeListener n l s) in Inr (s\<lparr>pb_names := (pb_names s)[l := None]\<rparr>)
      else Inl (Undef ''delete''))"

fun ProbeListenerObject_delete :: "nat list \<Rightarrow> Probes \<Rightarrow> Probes result" where
  "ProbeListenerObject_delete [] s = Inr s"
| "ProbeListenerObject_delete (l # ls) s = bindR (ProbeListener_delete l s) (ProbeListenerObject_delete ls)"

section \<open>The listeners of the prefetcher\<close>

text \<open>\<open>notifyFill\<close> and \<open>notifyEvict\<close> have empty bodies, which no prefetcher of the repository overrides.\<close>

definition notifyFill :: "Queued \<Rightarrow> Queued" where
  "notifyFill p = p"

definition notifyEvict :: "Queued \<Rightarrow> Queued" where
  "notifyEvict p = p"

definition PrefetchListener_notify :: "bool \<Rightarrow> bool \<Rightarrow> pkt_junk \<Rightarrow> CacheAccessor \<Rightarrow> Packet \<Rightarrow> heap \<Rightarrow> Queued \<Rightarrow>
    (heap \<times> Queued) result" where
  "PrefetchListener_notify isFill miss junk cache pkt h p =
     (if isFill then Inr (h, notifyFill p) else probeNotify junk cache pkt miss h p)"

definition PrefetchEvictListener_notify :: "u64 list \<Rightarrow> Queued \<Rightarrow> Queued" where
  "PrefetchEvictListener_notify newData p = (if newData = [] then notifyEvict p else p)"

definition regProbeListeners :: "Queued \<Rightarrow> nat list \<Rightarrow> Probes \<Rightarrow> (nat list \<times> Probes) result" where
  "regProbeListeners p listeners s =
     (if listeners = [] \<and> pf_probeManager p then
        bindR (ProbeListener_new True ''Miss'' s) (\<lambda>(l1, s).
        bindR (ProbeListener_new True ''Fill'' s) (\<lambda>(l2, s).
        bindR (ProbeListener_new True ''Hit'' s) (\<lambda>(l3, s).
        bindR (ProbeListener_new True ''Data Update'' s) (\<lambda>(l4, s). Inr ([l1, l2, l3, l4], s)))))
      else Inr (listeners, s))"

section \<open>The abstract view\<close>

fun listeners_in :: "ProbePoint list \<Rightarrow> nat list \<Rightarrow> string \<rightharpoonup> nat list" where
  "listeners_in h [] n = None"
| "listeners_in h (p # ps) n = (if pt_name (h ! p) = n then Some (pt_listeners (h ! p)) else listeners_in h ps n)"

definition listeners_at :: "Probes \<Rightarrow> string \<rightharpoonup> nat list" where
  "listeners_at s = listeners_in (pb_heap s) (pb_points s)"

definition probes_inv :: "Probes \<Rightarrow> bool" where
  "probes_inv s \<longleftrightarrow> (\<forall>p \<in> set (pb_points s). p < length (pb_heap s)) \<and>
     distinct (map (\<lambda>p. pt_name (pb_heap s ! p)) (pb_points s)) \<and>
     (\<forall>n ls. listeners_at s n = Some ls \<longrightarrow> distinct ls \<and>
        (\<forall>l \<in> set ls. l < length (pb_names s) \<and> pb_names s ! l = Some n))"

lemma listeners_in_None: "listeners_in h ps n = None \<longleftrightarrow> n \<notin> (\<lambda>p. pt_name (h ! p)) ` set ps"
  by (induction ps) auto

lemma listeners_in_cong:
  "(\<And>p. p \<in> set ps \<Longrightarrow> h' ! p = h ! p) \<Longrightarrow> listeners_in h' ps = listeners_in h ps"
  by (rule ext) (induction ps, auto)

lemma listeners_in_append:
  "listeners_in h (ps @ [p]) n =
     (case listeners_in h ps n of None \<Rightarrow> if pt_name (h ! p) = n then Some (pt_listeners (h ! p)) else None | Some ls \<Rightarrow> Some ls)"
  by (induction ps) auto

lemma addPoint_loop_iff: "addPoint_loop h point ps \<longleftrightarrow> pt_name (h ! point) \<in> (\<lambda>p. pt_name (h ! p)) ` set ps"
  by (induction ps) auto

text \<open>The loop changes the one point of the name, if there is one.\<close>

lemma point_loop_none:
  "n \<notin> (\<lambda>p. pt_name (h ! p)) ` set ps \<Longrightarrow> point_loop f n ps done h = (done, h)"
  by (induction ps) auto

lemma point_loop_other: "p \<notin> set ps \<Longrightarrow> snd (point_loop f n ps done h) ! p = h ! p"
proof (induction ps arbitrary: "done" h)
  case (Cons q ps)
  then show ?case using Cons.IH [of True "h[q := f (h ! q)]"] by simp
qed simp

lemma point_loop_effect:
  assumes f: "\<And>q. pt_name (f q) = pt_name q" "\<And>q. pt_listeners (f q) = g (pt_listeners q)"
    and ps: "\<forall>p \<in> set ps. p < length h" "distinct (map (\<lambda>p. pt_name (h ! p)) ps)"
    and r: "point_loop f n ps done h = (b, h')"
  shows "b = (done \<or> listeners_in h ps n \<noteq> None) \<and> length h' = length h \<and>
    map (\<lambda>p. pt_name (h' ! p)) ps = map (\<lambda>p. pt_name (h ! p)) ps \<and>
    listeners_in h' ps = (listeners_in h ps)(n := map_option g (listeners_in h ps n))"
  using ps r
proof (induction ps arbitrary: "done")
  case (Cons p ps)
  show ?case
  proof (cases "pt_name (h ! p) = n")
    case True
    let ?h = "h[p := f (h ! p)]"
    have ni: "n \<notin> (\<lambda>q. pt_name (h ! q)) ` set ps" using Cons.prems(2) True by auto
    then have "p \<notin> set ps" using True by auto
    then have o: "?h ! q = h ! q" if "q \<in> set ps" for q using that by (metis nth_list_update_neq)
    then have nm: "(\<lambda>q. pt_name (?h ! q)) ` set ps = (\<lambda>q. pt_name (h ! q)) ` set ps" by (intro image_cong) simp_all
    have "b = True" "h' = ?h"
      using Cons.prems(3) point_loop_none [of n ?h ps f True] ni True unfolding nm by simp_all
    moreover have "listeners_in ?h ps = listeners_in h ps" by (rule listeners_in_cong) (rule o)
    moreover have "listeners_in h ps n = None" using ni by (simp add: listeners_in_None)
    ultimately show ?thesis using Cons.prems(1) True o f by (auto simp: fun_eq_iff)
  next
    case False
    with Cons.prems have *: "point_loop f n ps done h = (b, h')" by simp
    have "h' ! p = h ! p"
      using point_loop_other [of p ps f n "done" h] Cons.prems(2) * by force
    with Cons.IH [OF _ _ *] Cons.prems False show ?thesis by (auto simp: fun_eq_iff)
  qed
qed (simp add: fun_eq_iff)

text \<open>
  What the operations of the manager do to the abstract view: registering a point, attaching and
  destroying a listener.
\<close>

lemma ProbePoint_new_abs:
  assumes inv: "probes_inv s"
  shows "listeners_at (snd (ProbePoint_new True n s)) =
      (case listeners_at s n of None \<Rightarrow> (listeners_at s)(n \<mapsto> []) | Some ls \<Rightarrow> listeners_at s) \<and>
    pb_names (snd (ProbePoint_new True n s)) = pb_names s \<and> probes_inv (snd (ProbePoint_new True n s))"
proof -
  let ?h = "pb_heap s @ [\<lparr>pt_name = n, pt_listeners = []\<rparr>]" and ?ps = "pb_points s"
  have b: "\<forall>p \<in> set ?ps. p < length (pb_heap s)" and d: "distinct (map (\<lambda>p. pt_name (pb_heap s ! p)) ?ps)"
    using inv by (simp_all add: probes_inv_def)
  then have o: "?h ! p = pb_heap s ! p" if "p \<in> set ?ps" for p using that by (simp add: nth_append)
  have l: "listeners_in ?h ?ps = listeners_at s" unfolding listeners_at_def by (rule listeners_in_cong) (rule o)
  have nm: "map (\<lambda>p. pt_name (?h ! p)) ?ps = map (\<lambda>p. pt_name (pb_heap s ! p)) ?ps" using o by simp
  have a: "addPoint_loop ?h (length (pb_heap s)) ?ps \<longleftrightarrow> listeners_at s n \<noteq> None"
    unfolding addPoint_loop_iff l [symmetric] listeners_in_None by simp
  show ?thesis
  proof (cases "listeners_at s n")
    case None
    then have "n \<notin> set (map (\<lambda>p. pt_name (?h ! p)) ?ps)" using l listeners_in_None [of ?h ?ps n] by simp
    then have dn: "distinct (map (\<lambda>p. pt_name (?h ! p)) (?ps @ [length (pb_heap s)]))" using d unfolding map_append nm by simp
    have r: "snd (ProbePoint_new True n s) = s\<lparr>pb_heap := ?h, pb_points := ?ps @ [length (pb_heap s)]\<rparr>"
      using a None by (simp add: ProbePoint_new_def Let_def ProbeManager_addPoint_def)
    have la: "listeners_at (s\<lparr>pb_heap := ?h, pb_points := ?ps @ [length (pb_heap s)]\<rparr>) = (listeners_at s)(n \<mapsto> [])"
      using None by (auto simp: listeners_at_def [of "s\<lparr>pb_heap := ?h, pb_points := _\<rparr>"] listeners_in_append l fun_eq_iff split: option.split)
    show ?thesis
      unfolding r using la inv dn b None by (auto simp: probes_inv_def less_Suc_eq split: if_splits)
  next
    case (Some ls)
    then have r: "snd (ProbePoint_new True n s) = s\<lparr>pb_heap := ?h\<rparr>"
      using a by (simp add: ProbePoint_new_def Let_def ProbeManager_addPoint_def)
    have "listeners_at (s\<lparr>pb_heap := ?h\<rparr>) = listeners_at s" using l by (simp add: listeners_at_def)
    moreover have "distinct (map (\<lambda>p. pt_name (?h ! p)) ?ps)" unfolding nm by (rule d)
    ultimately show ?thesis unfolding r using inv Some b by (auto simp: probes_inv_def less_SucI)
  qed
qed

text \<open>A change of the listeners of one point.\<close>

lemma listeners_update:
  assumes inv: "probes_inv s" and f: "\<And>q. pt_name (f q) = pt_name q" "\<And>q. pt_listeners (f q) = g (pt_listeners q)"
    and r: "point_loop f n (pb_points s) False (pb_heap s) = (b, h)"
    and g: "\<And>ls. listeners_at s n = Some ls \<Longrightarrow> distinct (g ls) \<and> (\<forall>l \<in> set (g ls). l < length ns \<and> ns ! l = Some n)"
    and ns: "\<And>l m. l < length (pb_names s) \<Longrightarrow> m \<noteq> n \<Longrightarrow> pb_names s ! l = Some m \<Longrightarrow> l < length ns \<and> ns ! l = Some m"
  shows "listeners_at (s\<lparr>pb_heap := h, pb_names := ns\<rparr>) = (listeners_at s)(n := map_option g (listeners_at s n)) \<and>
    probes_inv (s\<lparr>pb_heap := h, pb_names := ns\<rparr>) \<and> b = (listeners_at s n \<noteq> None)"
proof -
  have e: "b = (listeners_at s n \<noteq> None)" "length h = length (pb_heap s)"
    "map (\<lambda>p. pt_name (h ! p)) (pb_points s) = map (\<lambda>p. pt_name (pb_heap s ! p)) (pb_points s)"
    "listeners_in h (pb_points s) = (listeners_at s)(n := map_option g (listeners_at s n))"
    using point_loop_effect [OF f _ _ r] inv by (simp_all add: probes_inv_def listeners_at_def)
  let ?s = "s\<lparr>pb_heap := h, pb_names := ns\<rparr>"
  have l: "listeners_at ?s = (listeners_at s)(n := map_option g (listeners_at s n))"
    unfolding listeners_at_def [of ?s] using e(4) by simp
  have "distinct ls \<and> (\<forall>l \<in> set ls. l < length ns \<and> ns ! l = Some m)" if "listeners_at ?s m = Some ls" for m ls
  proof (cases "m = n")
    case True
    then show ?thesis using that g unfolding l by auto
  next
    case False
    then show ?thesis using that inv ns unfolding l by (simp add: probes_inv_def)
  qed
  moreover have "distinct (map (\<lambda>p. pt_name (h ! p)) (pb_points s))" unfolding e(3) using inv by (simp add: probes_inv_def)
  ultimately have "probes_inv ?s" using inv e(2) by (simp add: probes_inv_def)
  with l e(1) show ?thesis by blast
qed

lemma ProbeListener_new_abs:
  assumes inv: "probes_inv s"
  shows "\<exists>s'. ProbeListener_new True n s = Inr (length (pb_names s), s') \<and> pb_names s' = pb_names s @ [Some n] \<and>
    listeners_at s' = (listeners_at s)(n := map_option (\<lambda>ls. ls @ [length (pb_names s)]) (listeners_at s n)) \<and> probes_inv s'"
proof -
  let ?l = "length (pb_names s)" and ?ns = "pb_names s @ [Some n]"
  obtain b h where r: "point_loop (ProbePointArg_addListener ?l) n (pb_points s) False (pb_heap s) = (b, h)"
    by (cases "point_loop (ProbePointArg_addListener ?l) n (pb_points s) False (pb_heap s)")
  let ?g = "\<lambda>ls. if ?l \<notin> set ls then ls @ [?l] else ls"
  have "listeners_at (s\<lparr>pb_heap := h, pb_names := ?ns\<rparr>) = (listeners_at s)(n := map_option ?g (listeners_at s n)) \<and>
    probes_inv (s\<lparr>pb_heap := h, pb_names := ?ns\<rparr>) \<and> b = (listeners_at s n \<noteq> None)"
    using inv by (intro listeners_update [OF inv _ _ r]) (auto simp: ProbePointArg_addListener_def probes_inv_def nth_append less_SucI)
  moreover have "map_option ?g (listeners_at s n) = map_option (\<lambda>ls. ls @ [?l]) (listeners_at s n)"
    using inv by (cases "listeners_at s n") (auto simp: probes_inv_def)
  moreover have "ProbeListener_new True n s = Inr (?l, s\<lparr>pb_heap := h, pb_names := ?ns\<rparr>)"
    using r by (simp add: ProbeListener_new_def ProbeManager_addListener_def Let_def)
  ultimately show ?thesis by (intro exI [of _ "s\<lparr>pb_heap := h, pb_names := ?ns\<rparr>"]) simp
qed

lemma ProbeListener_delete_abs:
  assumes inv: "probes_inv s" and l: "l < length (pb_names s)" "pb_names s ! l = Some n"
  shows "\<exists>s'. ProbeListener_delete l s = Inr s' \<and> pb_names s' = (pb_names s)[l := None] \<and>
    listeners_at s' = (listeners_at s)(n := map_option (removeAll l) (listeners_at s n)) \<and> probes_inv s'"
proof -
  obtain b h where r: "point_loop (ProbePointArg_removeListener l) n (pb_points s) False (pb_heap s) = (b, h)"
    by (cases "point_loop (ProbePointArg_removeListener l) n (pb_points s) False (pb_heap s)")
  have "listeners_at (s\<lparr>pb_heap := h, pb_names := (pb_names s)[l := None]\<rparr>) =
      (listeners_at s)(n := map_option (removeAll l) (listeners_at s n)) \<and>
    probes_inv (s\<lparr>pb_heap := h, pb_names := (pb_names s)[l := None]\<rparr>) \<and> b = (listeners_at s n \<noteq> None)"
    using inv l
    by (intro listeners_update [OF inv _ _ r])
      (auto simp: ProbePointArg_removeListener_def probes_inv_def nth_list_update distinct_removeAll)
  then show ?thesis using r l by (simp add: ProbeListener_delete_def ProbeManager_removeListener_def Let_def)
qed

section \<open>Runs of the manager\<close>

datatype probe_event = AddPoint string | Attach string | Detach nat

fun probe_step :: "probe_event \<Rightarrow> Probes \<Rightarrow> Probes result" where
  "probe_step (AddPoint n) s = Inr (snd (ProbePoint_new True n s))"
| "probe_step (Attach n) s = bindR (ProbeListener_new True n s) (\<lambda>(l, s). Inr s)"
| "probe_step (Detach l) s = ProbeListener_delete l s"

fun probe_run :: "probe_event list \<Rightarrow> Probes \<Rightarrow> Probes result" where
  "probe_run [] s = Inr s"
| "probe_run (e # es) s = bindR (probe_step e s) (probe_run es)"

text \<open>The same events on the abstract view: a map from names to listeners and the names of the live listeners.\<close>

fun spec_step :: "probe_event \<Rightarrow> (string \<rightharpoonup> nat list) \<times> string option list \<Rightarrow> (string \<rightharpoonup> nat list) \<times> string option list" where
  "spec_step (AddPoint n) (m, ns) = (if m n = None then m(n \<mapsto> []) else m, ns)"
| "spec_step (Attach n) (m, ns) = (m(n := map_option (\<lambda>ls. ls @ [length ns]) (m n)), ns @ [Some n])"
| "spec_step (Detach l) (m, ns) =
     (m(the (ns ! l) := map_option (removeAll l) (m (the (ns ! l)))), ns[l := None])"

lemma probe_step_refines:
  assumes inv: "probes_inv s" and r: "probe_step e s = Inr s'"
  shows "probes_inv s' \<and> (listeners_at s', pb_names s') = spec_step e (listeners_at s, pb_names s)"
proof (cases e)
  case (AddPoint n)
  then show ?thesis using ProbePoint_new_abs [OF inv, of n] r by (auto split: option.splits)
next
  case (Attach n)
  then show ?thesis using ProbeListener_new_abs [OF inv, of n] r by auto
next
  case (Detach l)
  then obtain n where n: "l < length (pb_names s)" "pb_names s ! l = Some n"
    using r by (auto simp: ProbeListener_delete_def split: if_splits option.splits)
  then show ?thesis using ProbeListener_delete_abs [OF inv n] r Detach by auto
qed

lemma probe_run_refines:
  "probes_inv s \<Longrightarrow> probe_run es s = Inr s' \<Longrightarrow>
   probes_inv s' \<and> (listeners_at s', pb_names s') = fold spec_step es (listeners_at s, pb_names s)"
proof (induction es arbitrary: s)
  case (Cons e es)
  then obtain s1 where s1: "probe_step e s = Inr s1" "probe_run es s1 = Inr s'" by auto
  show ?case using probe_step_refines [OF Cons.prems(1) s1(1)] Cons.IH [OF _ s1(2)] by auto
qed simp

text \<open>
  C30: the probe manager refines a map from names to listeners. After any sequence of registrations of
  points, attachments and destructions of listeners, the listeners that a notification reaches at the
  point of a name are those that the map has there: the listeners attached since the first point of
  that name was registered, in this order and without those destroyed; each of them is alive, carries
  that name and is called once with the argument.
\<close>

theorem probe_manager_refines:
  assumes "probe_run es ProbeManager_new = Inr s"
  shows "listeners_at s = fst (fold spec_step es (Map.empty, [])) \<and>
    (\<forall>n ls. listeners_at s n = Some ls \<longrightarrow> distinct ls \<and> (\<forall>l \<in> set ls. l < length (pb_names s) \<and> pb_names s ! l = Some n) \<and>
       ProbePointArg_notify (\<lambda>l a called. Inr (called @ [(l, a)])) x ls [] = Inr (map (\<lambda>l. (l, x)) ls))"
proof -
  have e: "probes_inv ProbeManager_new" "listeners_at ProbeManager_new = Map.empty" "pb_names ProbeManager_new = []"
    by (simp_all add: probes_inv_def listeners_at_def ProbeManager_new_def fun_eq_iff)
  have n: "ProbePointArg_notify (\<lambda>l a called. Inr (called @ [(l, a)])) x ls acc = Inr (acc @ map (\<lambda>l. (l, x)) ls)" for ls acc
    by (induction ls arbitrary: acc) simp_all
  show ?thesis
    using probe_run_refines [OF e(1) assms] unfolding e(2,3) probes_inv_def by (metis append_Nil fst_conv n)
qed

theorem probe_manager_refines_witness:
  "\<exists>s. probe_run [AddPoint ''Hit'', Attach ''Hit'', AddPoint ''Miss'', Attach ''Hit'', Detach 0] ProbeManager_new = Inr s \<and>
     listeners_at s ''Hit'' = Some [1]"
proof -
  let ?es = "[AddPoint ''Hit'', Attach ''Hit'', AddPoint ''Miss'', Attach ''Hit'', Detach 0]"
  obtain s where s: "probe_run ?es ProbeManager_new = Inr s"
    by (simp add: ProbeManager_new_def ProbePoint_new_def ProbeManager_addPoint_def ProbeListener_new_def ProbeManager_addListener_def
        ProbePointArg_addListener_def ProbeListener_delete_def ProbeManager_removeListener_def Let_def)
  have "listeners_at s ''Hit'' = Some [1]" using probe_manager_refines [OF s, of "()"] by simp
  with s show ?thesis by blast
qed

section \<open>The manager as the prefetcher sees it\<close>

text \<open>What a component that attaches listeners relies on.\<close>

locale probe_bus =
  fixes inv :: "'s \<Rightarrow> bool" and view :: "'s \<Rightarrow> string \<rightharpoonup> nat list" and attach :: "string \<Rightarrow> 's \<Rightarrow> (nat \<times> 's) result"
  assumes attach_adds: "inv s \<Longrightarrow> \<exists>l s'. attach n s = Inr (l, s') \<and> inv s' \<and>
    view s' = (view s)(n := map_option (\<lambda>ls. ls @ [l]) (view s n))"
begin

lemma attach_point:
  assumes "inv s" "view s n = Some ls"
  obtains l s' where "attach n s = Inr (l, s')" "inv s'" "view s' = (view s)(n \<mapsto> ls @ [l])"
  using attach_adds [OF assms(1), of n] assms(2) by auto

lemma attach_nowhere:
  assumes "inv s" "view s n = None"
  obtains l s' where "attach n s = Inr (l, s')" "inv s'" "view s' = view s"
  using attach_adds [OF assms(1), of n] assms(2) by (auto simp: fun_upd_idem)

end

interpretation probes: probe_bus probes_inv listeners_at "ProbeListener_new True"
  by unfold_locales (use ProbeListener_new_abs in blast)

text \<open>
  The prefetcher connects one listener to each of the four points of a cache, and only once; a
  listener for a point that is not registered is not connected at all.
\<close>

lemma regProbeListeners_connects:
  assumes inv: "probes_inv s" and p: "pf_probeManager p"
    and pts: "listeners_at s ''Miss'' = Some a" "listeners_at s ''Fill'' = Some b" "listeners_at s ''Hit'' = Some c"
      "listeners_at s ''Data Update'' = Some d"
  shows "\<exists>l1 l2 l3 l4 s'. regProbeListeners p [] s = Inr ([l1, l2, l3, l4], s') \<and> probes_inv s' \<and>
    listeners_at s' = (listeners_at s)(''Miss'' \<mapsto> a @ [l1], ''Fill'' \<mapsto> b @ [l2], ''Hit'' \<mapsto> c @ [l3], ''Data Update'' \<mapsto> d @ [l4]) \<and>
    regProbeListeners p [l1, l2, l3, l4] s' = Inr ([l1, l2, l3, l4], s')"
proof -
  obtain l1 s1 where s1: "ProbeListener_new True ''Miss'' s = Inr (l1, s1)" "probes_inv s1"
    "listeners_at s1 = (listeners_at s)(''Miss'' \<mapsto> a @ [l1])" by (rule probes.attach_point [OF inv pts(1)])
  have "listeners_at s1 ''Fill'' = Some b" using pts s1(3) by simp
  then obtain l2 s2 where s2: "ProbeListener_new True ''Fill'' s1 = Inr (l2, s2)" "probes_inv s2"
    "listeners_at s2 = (listeners_at s1)(''Fill'' \<mapsto> b @ [l2])" by (rule probes.attach_point [OF s1(2)])
  have "listeners_at s2 ''Hit'' = Some c" using pts s1(3) s2(3) by simp
  then obtain l3 s3 where s3: "ProbeListener_new True ''Hit'' s2 = Inr (l3, s3)" "probes_inv s3"
    "listeners_at s3 = (listeners_at s2)(''Hit'' \<mapsto> c @ [l3])" by (rule probes.attach_point [OF s2(2)])
  have "listeners_at s3 ''Data Update'' = Some d" using pts s1(3) s2(3) s3(3) by simp
  then obtain l4 s4 where s4: "ProbeListener_new True ''Data Update'' s3 = Inr (l4, s4)" "probes_inv s4"
    "listeners_at s4 = (listeners_at s3)(''Data Update'' \<mapsto> d @ [l4])" by (rule probes.attach_point [OF s3(2)])
  show ?thesis
  proof (intro exI conjI)
    show "regProbeListeners p [] s = Inr ([l1, l2, l3, l4], s4)" using p s1(1) s2(1) s3(1) s4(1) by (simp add: regProbeListeners_def)
    show "listeners_at s4 =
      (listeners_at s)(''Miss'' \<mapsto> a @ [l1], ''Fill'' \<mapsto> b @ [l2], ''Hit'' \<mapsto> c @ [l3], ''Data Update'' \<mapsto> d @ [l4])"
      by (simp only: s4(3) s3(3) s2(3) s1(3))
  qed (use s4(2) in \<open>simp_all add: regProbeListeners_def\<close>)
qed

end
