(* ===== verification/Hashing.thy ===== *)
theory Hashing
  imports Kuiper_Prelude
begin

text \<open>
  \<open>base/include/hash_helpers.h\<close>: hash values of tuples, pairs and ranges. \<open>size_t\<close> has 64 bits. The hash of
  an element, which \<open>std::hash\<close> or a hash of this file gives, is an argument; a parameter pack is the
  list of the hashes of its elements.
\<close>

definition hash_C :: u64 where
  "hash_C = 0xbea225f9eb34556d"

definition hash_mix :: "u64 \<Rightarrow> u64 \<Rightarrow> u64" where
  "hash_mix a b =
     (let b = b * hash_C;
          b = b XOR drop_bit 39 b;
          a = a + b * hash_C;
          a = a * hash_C
      in a)"

definition hash_combine :: "u64 list \<Rightarrow> u64" where
  "hash_combine hashes = fold (\<lambda>h acc. hash_mix acc h) hashes 0"

definition hash_refine :: "u64 \<Rightarrow> u64" where
  "hash_refine x =
     (let x = x XOR drop_bit 32 x;
          x = x * hash_C;
          x = x XOR drop_bit 29 x;
          x = x * hash_C;
          x = x XOR drop_bit 32 x;
          x = x * hash_C;
          x = x XOR drop_bit 29 x
      in x)"

definition hash_tuple :: "u64 list \<Rightarrow> u64" where
  "hash_tuple es = (if length es = 0 then 0 else hash_refine (hash_combine es))"

definition hash_pair :: "('a \<Rightarrow> u64) \<Rightarrow> ('b \<Rightarrow> u64) \<Rightarrow> 'a \<times> 'b \<Rightarrow> u64" where
  "hash_pair hash_value1 hash_value2 p = hash_tuple [hash_value1 (fst p), hash_value2 (snd p)]"

fun hash_iterable :: "('a \<Rightarrow> u64) \<Rightarrow> 'a list \<Rightarrow> u64" where
  "hash_iterable hash_value [] = 0"
| "hash_iterable hash_value (b # e) = hash_refine (fold (\<lambda>val acc. hash_combine [acc, hash_value val]) e (hash_value b))"

section \<open>Mixing loses nothing\<close>

text \<open>The multiplier is odd, so it has an inverse, and a shifted copy can be taken out again.\<close>

lemma hash_C_mult [simp]: "x * hash_C = y * hash_C \<longleftrightarrow> x = y"
proof
  assume "x * hash_C = y * hash_C"
  then have "x * hash_C * 0xdd01f46a7e6ffc65 = y * hash_C * 0xdd01f46a7e6ffc65" by simp
  moreover have "hash_C * 0xdd01f46a7e6ffc65 = 1" by (simp add: hash_C_def)
  ultimately show "x = y" by (simp add: mult.assoc)
qed simp

lemma drop_bit_fixed:
  assumes "drop_bit n w = (w :: 'a::len word)" "0 < n"
  shows "w = 0"
proof -
  have "unat w div 2 ^ n = unat w" using assms(1) by (metis unat_drop_bit_eq drop_bit_eq_div)
  then have "unat w = 0" using assms(2) by (metis bot_nat_0.not_eq_extremum div_less_dividend less_irrefl one_less_numeral_iff one_less_power semiring_norm(76))
  then show ?thesis by (simp add: unat_eq_zero)
qed

lemma xorshift_inj [simp]:
  assumes "0 < n"
  shows "(x :: 'a::len word) XOR drop_bit n x = y XOR drop_bit n y \<longleftrightarrow> x = y"
proof
  assume e: "x XOR drop_bit n x = y XOR drop_bit n y"
  have "x XOR y = drop_bit n x XOR drop_bit n y"
  proof (rule bit_word_eqI)
    fix i
    assume "i < LENGTH('a)"
    have "bit (x XOR drop_bit n x) i = bit (y XOR drop_bit n y) i" by (simp only: e)
    then show "bit (x XOR y) i = bit (drop_bit n x XOR drop_bit n y) i" by (auto simp: bit_xor_iff)
  qed
  then have "drop_bit n (x XOR y) = x XOR y" by (metis drop_bit_xor)
  then have "x XOR y = 0" using assms by (rule drop_bit_fixed)
  then have "(x XOR y) XOR y = 0 XOR y" by (simp only:)
  then show "x = y" by (simp add: xor.assoc)
qed simp

lemma hash_mix_inj [simp]: "hash_mix a b = hash_mix a' b \<longleftrightarrow> a = a'" "hash_mix a b = hash_mix a b' \<longleftrightarrow> b = b'"
  by (simp_all add: hash_mix_def Let_def)

lemma hash_refine_inj [simp]: "hash_refine x = hash_refine y \<longleftrightarrow> x = y"
  by (simp add: hash_refine_def Let_def)

lemma fold_inj: "(\<And>h a b. f h a = f h b \<longleftrightarrow> a = b) \<Longrightarrow> fold f xs a = fold f xs b \<longleftrightarrow> a = b"
  by (induction xs arbitrary: a b) simp_all

lemma hash_combine_one: "hash_combine (xs @ x # ys) = hash_combine (xs @ y # ys) \<longleftrightarrow> x = y"
  by (simp add: hash_combine_def fold_inj)

text \<open>
  C35: hashing a tuple or a range introduces no collision by itself: the refinement step permutes the
  64-bit values, and two tuples or ranges of one length that differ in one position have the same
  hash only when the elements there have the same hash.
\<close>

theorem hash_no_collision:
  "bij hash_refine \<and>
   (hash_tuple (xs @ x # ys) = hash_tuple (xs @ y # ys) \<longleftrightarrow> x = y) \<and>
   (hash_iterable h (as @ a # bs) = hash_iterable h (as @ b # bs) \<longleftrightarrow> h a = h b)"
proof (intro conjI)
  show "bij hash_refine" by (intro bijI injI finite_UNIV_inj_surj) simp_all
  show "hash_tuple (xs @ x # ys) = hash_tuple (xs @ y # ys) \<longleftrightarrow> x = y"
    by (simp add: hash_tuple_def hash_combine_one)
  have c: "hash_combine [p, v] = hash_combine [q, v] \<longleftrightarrow> p = q" "hash_combine [v, p] = hash_combine [v, q] \<longleftrightarrow> p = q" for p q v
    by (simp_all add: hash_combine_def)
  show "hash_iterable h (as @ a # bs) = hash_iterable h (as @ b # bs) \<longleftrightarrow> h a = h b"
    by (cases as) (simp_all add: fold_inj c)
qed

end
