(* ===== verification/Random_Engine.thy ===== *)
theory Random_Engine
  imports Replacement
begin

text \<open>
  \<open>base/include/random.h\<close> and \<open>base/random.cpp\<close>: the generator that the random replacement policy draws
  from. \<open>std::mt19937_64\<close> is the engine of the C++ standard: 312 words, a linear seeding, a regeneration
  of all words once they are used up, and a tempering of the word that is returned. How
  \<open>std::uniform_int_distribution\<close> turns words of the engine into a number is left to the library, so
  it is the argument \<open>dist\<close>, at unsigned types; the standard promises that the number lies between the two bounds.
\<close>

section \<open>The engine\<close>

record mt19937_64 =
  mt_x :: "u64 list"
  mt_p :: nat

fun mt_seed_loop :: "nat \<Rightarrow> nat \<Rightarrow> u64 \<Rightarrow> u64 list" where
  "mt_seed_loop 0 i x = []"
| "mt_seed_loop (Suc n) i x =
     (let y = 6364136223846793005 * (x XOR drop_bit 62 x) + of_nat i in y # mt_seed_loop n (Suc i) y)"

definition mt_seed :: "u64 \<Rightarrow> mt19937_64" where
  "mt_seed s = \<lparr>mt_x = s # mt_seed_loop 311 1 s, mt_p = 312\<rparr>"

definition mt_word :: "u64 list \<Rightarrow> nat \<Rightarrow> u64" where
  "mt_word x k =
     (let y = (x ! k AND 0xFFFFFFFF80000000) OR (x ! ((k + 1) mod 312) AND 0x7FFFFFFF)
      in x ! ((k + 156) mod 312) XOR drop_bit 1 y XOR (if bit y 0 then 0xB5026F5AA96619E9 else 0))"

definition mt_twist :: "u64 list \<Rightarrow> u64 list" where
  "mt_twist x = fold (\<lambda>k x. x[k := mt_word x k]) [0..<312] x"

definition mt_temper :: "u64 \<Rightarrow> u64" where
  "mt_temper z =
     (let z = z XOR (drop_bit 29 z AND 0x5555555555555555);
          z = z XOR (push_bit 17 z AND 0x71D67FFFEDA60000);
          z = z XOR (push_bit 37 z AND 0xFFF7EEE000000000)
      in z XOR drop_bit 43 z)"

definition mt_next :: "mt19937_64 \<Rightarrow> u64 \<times> mt19937_64" where
  "mt_next g =
     (let g = (if mt_p g \<ge> 312 then \<lparr>mt_x = mt_twist (mt_x g), mt_p = 0\<rparr> else g)
      in (mt_temper (mt_x g ! mt_p g), g\<lparr>mt_p := mt_p g + 1\<rparr>))"

section \<open>The class Random\<close>

definition Random_init :: "u32 \<Rightarrow> mt19937_64 \<Rightarrow> mt19937_64" where
  "Random_init s g = mt_seed (ucast s)"

definition Random_new :: "mt19937_64 \<Rightarrow> mt19937_64" where
  "Random_new g = Random_init 5489 g"

definition Random_new_seed :: "u32 \<Rightarrow> mt19937_64 \<Rightarrow> mt19937_64" where
  "Random_new_seed s g = Random_init s g"

type_synonym 'a distribution = "'a \<Rightarrow> 'a \<Rightarrow> mt19937_64 \<Rightarrow> 'a \<times> mt19937_64"

definition Random_random :: "'a::len word distribution \<Rightarrow> mt19937_64 \<Rightarrow> 'a word \<times> mt19937_64" where
  "Random_random dist g = dist 0 (- 1) g"

definition Random_random_range :: "'a::len word distribution \<Rightarrow> 'a word \<Rightarrow> 'a word \<Rightarrow> mt19937_64 \<Rightarrow> 'a word \<times> mt19937_64" where
  "Random_random_range dist lo hi g = dist lo hi g"

definition Random_random_real :: "'r::{zero, one} distribution \<Rightarrow> mt19937_64 \<Rightarrow> 'r \<times> mt19937_64" where
  "Random_random_real dist g = dist 0 1 g"

text \<open>\<open>getVictim\<close> with its draw: the generator is left advanced.\<close>

definition Random_drawVictim :: "u32 distribution \<Rightarrow> (nat \<Rightarrow> bool option) \<Rightarrow> nat option list \<Rightarrow> mt19937_64 \<Rightarrow>
    (nat option \<times> mt19937_64) result" where
  "Random_drawVictim dist repl candidates g =
     check ''candidates.size() > 0'' (length candidates > 0)
     (case Random_random_range dist 0 (of_nat (length candidates) - 1) g of (rnd, g) \<Rightarrow>
        bindR (Random_getVictim (unat rnd) repl candidates) (\<lambda>v. Inr (v, g)))"

section \<open>Drawing\<close>

definition mt_wf :: "mt19937_64 \<Rightarrow> bool" where
  "mt_wf g \<longleftrightarrow> length (mt_x g) = 312 \<and> mt_p g \<le> 312"

text \<open>What the standard says of a distribution: the bounds are kept, and the engine is only drawn from.\<close>

definition uniform_int :: "'a::len word distribution \<Rightarrow> bool" where
  "uniform_int dist \<longleftrightarrow> (\<forall>lo hi g. lo \<le> hi \<and> mt_wf g \<longrightarrow>
     lo \<le> fst (dist lo hi g) \<and> fst (dist lo hi g) \<le> hi \<and> (\<exists>n. snd (dist lo hi g) = ((snd \<circ> mt_next) ^^ n) g))"

lemma mt_seed_loop_length [simp]: "length (mt_seed_loop n i x) = n"
  by (induction n i x rule: mt_seed_loop.induct) (simp_all add: Let_def)

lemma mt_seed_wf: "mt_wf (mt_seed s)"
  by (simp add: mt_wf_def mt_seed_def)

lemma fold_update_length: "length (fold (\<lambda>k x. x[k := f x k]) ks x) = length x"
  by (induction ks arbitrary: x) simp_all

lemma mt_next_wf: "mt_wf g \<Longrightarrow> mt_wf (snd (mt_next g))"
  by (simp add: mt_wf_def mt_next_def Let_def mt_twist_def fold_update_length)

lemma mt_draws_wf: "mt_wf g \<Longrightarrow> mt_wf (((snd \<circ> mt_next) ^^ n) g)"
  by (induction n) (simp_all add: mt_next_wf)

lemma unat_word_of_nat: "n < 2 ^ LENGTH('a) \<Longrightarrow> unat (word_of_nat n :: 'a::len word) = n"
  by (simp only: unat_of_nat take_bit_eq_mod mod_less)

text \<open>A distribution that satisfies the promise: one word of the engine, reduced to the range.\<close>

definition sample_dist :: "'a::len word distribution" where
  "sample_dist lo hi g =
     (let (w, g) = mt_next g in (word_of_nat (unat lo + unat w mod (unat hi - unat lo + 1)), g))"

lemma sample_dist_uniform: "uniform_int (sample_dist :: 'a::len word distribution)"
  unfolding uniform_int_def
proof (intro allI impI)
  fix lo hi :: "'a word" and g
  assume a: "lo \<le> hi \<and> mt_wf g"
  let ?v = "unat lo + unat (fst (mt_next g)) mod (unat hi - unat lo + 1)"
  have lh: "unat lo \<le> unat hi" using a by (simp add: word_le_nat_alt)
  have "unat (fst (mt_next g)) mod (unat hi - unat lo + 1) < unat hi - unat lo + 1" by (rule mod_less_divisor) simp
  then have v: "unat lo \<le> ?v" "?v \<le> unat hi" using lh by linarith+
  then have "?v < 2 ^ LENGTH('a)" using unsigned_less [of hi, where ?'a = nat] by linarith
  then have "unat (word_of_nat ?v :: 'a word) = ?v" by (rule unat_word_of_nat)
  then have "lo \<le> word_of_nat ?v" "word_of_nat ?v \<le> hi" using v by (simp_all only: word_le_nat_alt)
  moreover have "sample_dist lo hi g = (word_of_nat ?v, snd (mt_next g))" by (simp add: sample_dist_def split_beta)
  moreover have "snd (mt_next g) = ((snd \<circ> mt_next) ^^ 1) g" by simp
  ultimately show "lo \<le> fst (sample_dist lo hi g) \<and> fst (sample_dist lo hi g) \<le> hi \<and>
      (\<exists>n. snd (sample_dist lo hi g) = ((snd \<circ> mt_next) ^^ n) g)"
    by (metis fst_conv snd_conv)
qed

lemma drawn_in_range:
  assumes "uniform_int dist" "mt_wf g" "0 < length candidates" "length candidates < 2 ^ 32"
  obtains rnd g' where "Random_random_range dist 0 (of_nat (length candidates) - 1 :: u32) g = (rnd, g')" "unat rnd < length candidates" "mt_wf g'"
proof -
  let ?hi = "of_nat (length candidates) - 1 :: u32"
  have "?hi = word_of_nat (length candidates - 1)" using assms(3) by (simp add: of_nat_diff Suc_leI)
  then have hi: "unat ?hi = length candidates - 1" using unat_word_of_nat [of "length candidates - 1", where ?'a = 32] assms(4) by simp
  obtain rnd g' where r: "dist 0 ?hi g = (rnd, g')" by (cases "dist 0 ?hi g")
  then have "rnd \<le> ?hi" "\<exists>n. g' = ((snd \<circ> mt_next) ^^ n) g" using assms(1,2) unfolding uniform_int_def by (metis fst_conv snd_conv word_zero_le)+
  then have "unat rnd \<le> length candidates - 1" "mt_wf g'" using hi assms(2) mt_draws_wf by (auto simp: word_le_nat_alt)
  then have "unat rnd < length candidates" "mt_wf g'" using assms(3) by linarith+
  with r show ?thesis by (intro that [of rnd g']) (simp_all add: Random_random_range_def)
qed

text \<open>
  The draw of \<open>getVictim\<close> never leaves the candidates, whatever the distribution does within its
  promise, and leaves a generator that can be drawn from again.
\<close>

lemma drawVictim_candidate:
  assumes "uniform_int dist" "mt_wf g" "cs \<noteq> []" "length cs < 2 ^ 32" "\<forall>i \<in> set cs. repl i \<noteq> None"
  shows "\<exists>i g'. Random_drawVictim dist repl (map Some cs) g = Inr (Some i, g') \<and> i \<in> set cs \<and> mt_wf g'"
proof -
  obtain rnd g' where r: "Random_random_range dist 0 (of_nat (length (map Some cs)) - 1) g = (rnd, g')" "unat rnd < length cs" "mt_wf g'"
    using drawn_in_range [OF assms(1,2), of "map Some cs"] assms(3,4) by auto
  have "\<exists>i \<in> set cs. Random_getVictim (unat rnd) repl (map Some cs) = Inr (Some i)"
    using random_rp.victim_candidate [of "map Some cs" "unat rnd" repl] r(2) assms(3,5) by auto
  with r assms(3) show ?thesis by (auto simp: Random_drawVictim_def)
qed

end
