(* ===== verification/Schedule.thy ===== *)
theory Schedule
  imports Simulation
begin

text \<open>
  The test program as it runs under the simulation kernel: \<open>TestCache\<close> of \<open>top/top.cpp\<close> with the three threads that
  ever do anything, the load thread, the monitor of the first load port and the send thread of the
  packet queue (the monitors of the other ports wait on fifos that nobody writes). The kernel is the
  one of IEEE 1666: threads that can run run one after the other in any order; when none can, the
  channels that asked for it are updated and wake the threads that wait for their events; when no update
  is requested either, time advances to the end of the wait of the load thread. \<open>sendEvent.notify()\<close> is an
  immediate notification, which is lost when the send thread does not wait. A step of a thread is one iteration
  of its loop; the kernel never preempts a thread, so its runs are among those of the relation. The
  number \<open>over\<close> of characters that can be written behind a buffer without an effect is fixed in a run.
\<close>

datatype wait_status = Starting | Running | On_time | On_data_read | On_data_written | On_send_event

text \<open>\<open>sim_loads\<close> counts the packets that the load thread has written to the fifo.\<close>

record Sim =
  sim_top :: Top
  sim_req_id :: u32
  sim_loads :: nat
  sim_load :: wait_status
  sim_monitor :: wait_status
  sim_send :: wait_status

abbreviation sim_fifo :: "Sim \<Rightarrow> Packet option sc_fifo" where
  "sim_fifo s \<equiv> top_load0Fifo (sim_top s)"

abbreviation sim_cache :: "Sim \<Rightarrow> (unit, Memory) BaseCache" where
  "sim_cache s \<equiv> top_l0 (sim_top s)"

definition wake :: "bool \<Rightarrow> wait_status \<Rightarrow> wait_status \<Rightarrow> wait_status" where
  "wake notified event st = (if notified \<and> st = event then Running else st)"

definition TestCache_start :: "Top \<Rightarrow> Sim" where
  "TestCache_start t =
     \<lparr>sim_top = t, sim_req_id = 0, sim_loads = 0, sim_load = Running, sim_monitor = Running, sim_send = Starting\<rparr>"

section \<open>Steps\<close>

definition load_step :: "u32 \<times> u32 \<Rightarrow> u64 \<Rightarrow> Sim \<Rightarrow> Sim result" where
  "load_step junk reqptr s =
     (case Load0Thread junk reqptr (sim_req_id s) (sim_top s) of
        None \<Rightarrow> Inr (s\<lparr>sim_load := On_data_read\<rparr>)
      | Some r \<Rightarrow> bindR r (\<lambda>(req_id, t).
          Inr (s\<lparr>sim_top := t, sim_req_id := req_id, sim_load := On_time,
                 sim_loads := sim_loads s + (if sim_req_id s < 2 then 1 else 0)\<rparr>)))"

definition monitor_step :: "(unit, Memory) cache_env \<Rightarrow> Sim \<Rightarrow> Sim result" where
  "monitor_step env s =
     (case ReqMonitor env (sim_top s) of
        None \<Rightarrow> Inr (s\<lparr>sim_monitor := On_data_written\<rparr>)
      | Some r \<Rightarrow> bindR r (\<lambda>t.
          let notified = pq_notifications (c_reqPacketQueue (sim_cache s)) < pq_notifications (c_reqPacketQueue (top_l0 t))
          in Inr (s\<lparr>sim_top := t, sim_send := wake notified On_send_event (sim_send s)\<rparr>)))"

definition send_step :: "(unit, Memory) cache_env \<Rightarrow> Sim \<Rightarrow> Sim result" where
  "send_step env s =
     (if sim_send s = Starting then Inr (s\<lparr>sim_send := On_send_event\<rparr>)
      else bindR (pktQueueProcess env (sim_top s)) (\<lambda>t. Inr (s\<lparr>sim_top := t, sim_send := On_send_event\<rparr>)))"

definition update_step :: "Sim \<Rightarrow> Sim" where
  "update_step s =
     (case fifo_update (sim_fifo s) of ((data_read, data_written), f) \<Rightarrow>
        s\<lparr>sim_top := (sim_top s)\<lparr>top_load0Fifo := f\<rparr>,
          sim_load := wake data_read On_data_read (sim_load s),
          sim_monitor := wake data_written On_data_written (sim_monitor s)\<rparr>)"

definition time_step :: "Sim \<Rightarrow> Sim" where
  "time_step s = s\<lparr>sim_load := wake True On_time (sim_load s)\<rparr>"

definition sim_idle :: "Sim \<Rightarrow> bool" where
  "sim_idle s \<longleftrightarrow> sim_load s \<noteq> Running \<and> sim_monitor s \<noteq> Running \<and> sim_send s \<noteq> Starting \<and> sim_send s \<noteq> Running"

definition quiescent :: "Sim \<Rightarrow> bool" where
  "quiescent s \<longleftrightarrow> sim_idle s \<and> \<not> m_update_requested (sim_fifo s)"

text \<open>The steps of one instant of time, whose result may be an abort, and the runs of the program.\<close>

inductive sim_step :: "nat \<Rightarrow> Sim \<Rightarrow> Sim result \<Rightarrow> bool" for over where
  load: "sim_load s = Running \<Longrightarrow> sim_step over s (load_step junk reqptr s)"
| monitor: "sim_monitor s = Running \<Longrightarrow> rnd < tassoc (c_tags (sim_cache s)) \<Longrightarrow>
    sim_step over s (monitor_step (L0_env over tr pkt_junk list_junk rnd) s)"
| send: "sim_send s = Starting \<or> sim_send s = Running \<Longrightarrow> rnd < tassoc (c_tags (sim_cache s)) \<Longrightarrow>
    sim_step over s (send_step (L0_env over tr pkt_junk list_junk rnd) s)"
| update: "sim_idle s \<Longrightarrow> m_update_requested (sim_fifo s) \<Longrightarrow> sim_step over s (Inr (update_step s))"

inductive sim_run :: "nat \<Rightarrow> Sim \<Rightarrow> Sim \<Rightarrow> bool" for over s0 where
  start: "sim_run over s0 s0"
| delta: "sim_run over s0 s \<Longrightarrow> sim_step over s (Inr s') \<Longrightarrow> sim_run over s0 s'"
| time: "sim_run over s0 s \<Longrightarrow> quiescent s \<Longrightarrow> sim_load s = On_time \<Longrightarrow> sim_run over s0 (time_step s)"

section \<open>The invariant\<close>

text \<open>
  The fifo never holds more than one load, and the load thread runs only when it is empty. The cache
  is fresh until the monitor takes the first load, which it can only do once the send thread waits for
  its event; then the send thread has to fetch the block; afterwards every load hits.
\<close>

definition sim_queue :: "Sim \<Rightarrow> Packet option list" where
  "sim_queue s = fifo_readable (sim_fifo s) @ fifo_written (sim_fifo s)"

definition phase_fresh :: "Memory \<Rightarrow> Sim \<Rightarrow> bool" where
  "phase_fresh m s \<longleftrightarrow> fresh_cache m (sim_cache s) \<and> sim_loads s = length (sim_queue s) \<and>
     (sim_send s = Starting \<or> sim_send s = On_send_event) \<and> (fifo_readable (sim_fifo s) \<noteq> [] \<longrightarrow> sim_send s = On_send_event)"

definition phase_loading :: "Memory \<Rightarrow> Sim \<Rightarrow> bool" where
  "phase_loading m s \<longleftrightarrow> loading m (sim_cache s) \<and> sim_send s = Running \<and> sim_queue s = [] \<and> sim_load s = On_time \<and> sim_loads s = 1"

definition phase_loaded :: "nat \<Rightarrow> Memory \<Rightarrow> Sim \<Rightarrow> bool" where
  "phase_loaded over m s \<longleftrightarrow> loaded m (length (c_answered (sim_cache s))) (sim_cache s) \<and> sim_send s = On_send_event \<and>
     sim_loads s = length (c_answered (sim_cache s)) + length (sim_queue s) \<and>
     1 \<le> length (c_answered (sim_cache s)) \<and> (1 < length (c_answered (sim_cache s)) \<longrightarrow> 3 \<le> over)"

definition sim_fifo_inv :: "Sim \<Rightarrow> bool" where
  "sim_fifo_inv s \<longleftrightarrow> fifo_inv (sim_fifo s) \<and> m_size (sim_fifo s) = 16 \<and> length (sim_queue s) \<le> 1 \<and>
     list_all (\<lambda>x. \<exists>pkt. x = Some pkt \<and> load_pkt (sim_cache s) pkt) (sim_queue s) \<and>
     (sim_load s = Running \<and> sim_queue s = [] \<and> fifo_taken (sim_fifo s) = 0 \<or> sim_load s = On_time \<and> 1 \<le> sim_loads s) \<and>
     (sim_monitor s = Running \<or> sim_monitor s = On_data_written \<and> fifo_readable (sim_fifo s) = []) \<and>
     (sim_loads s < 2 \<longrightarrow> sim_req_id s = of_nat (sim_loads s))"

definition sim_inv :: "nat \<Rightarrow> Memory \<Rightarrow> Sim \<Rightarrow> bool" where
  "sim_inv over m s \<longleftrightarrow> sim_fifo_inv s \<and> (phase_fresh m s \<or> phase_loading m s \<or> phase_loaded over m s)"

lemmas phase_defs = phase_fresh_def phase_loading_def phase_loaded_def

text \<open>What remains to be done in an instant of time.\<close>

definition sim_measure :: "Sim \<Rightarrow> nat" where
  "sim_measure s = (if sim_load s = Running then 12 else 0) + 6 * length (fifo_written (sim_fifo s)) +
     4 * length (fifo_readable (sim_fifo s)) + (if m_update_requested (sim_fifo s) then 2 else 0) +
     (if sim_monitor s = Running then 1 else 0) + (if sim_send s = Starting \<or> sim_send s = Running then 1 else 0)"

lemma TestCache_start_inv: "fresh_L0 m t \<Longrightarrow> sim_inv over m (TestCache_start t)"
  using fifo_idle [of "top_load0Fifo t"]
  by (simp add: sim_inv_def sim_fifo_inv_def phase_fresh_def sim_queue_def TestCache_start_def fresh_L0_def)

lemma quiescent_loaded:
  assumes "sim_inv over m s" "quiescent s"
  shows "sim_queue s = [] \<and> fifo_taken (sim_fifo s) = 0 \<and> sim_load s = On_time \<and> phase_loaded over m s"
  using assms fifo_idle [of "sim_fifo s"]
  by (auto simp: sim_inv_def sim_fifo_inv_def sim_queue_def quiescent_def sim_idle_def phase_defs)

lemma time_step_inv:
  assumes "sim_inv over m s" "quiescent s"
  shows "sim_inv over m (time_step s)"
  using assms quiescent_loaded [OF assms]
  by (auto simp: sim_inv_def sim_fifo_inv_def sim_queue_def time_step_def wake_def phase_defs)

lemma heap_phases [simp]:
  "fresh_cache m (c\<lparr>c_heap := h\<rparr>) = fresh_cache m c" "loaded m n (c\<lparr>c_heap := h\<rparr>) = loaded m n c"
  "load_pkt (c\<lparr>c_heap := h\<rparr>) p = load_pkt c p"
  by (simp_all add: fresh_cache_def loaded_def load_pkt_def)

lemma load_step_inv:
  assumes inv: "sim_inv over m s" and r: "sim_load s = Running"
  shows "\<exists>s'. load_step junk reqptr s = Inr s' \<and> sim_inv over m s' \<and> sim_measure s' < sim_measure s \<and> sim_loads s \<le> sim_loads s' \<and>
    (sim_req_id s < 2 \<longrightarrow> sim_loads s < sim_loads s')"
proof -
  have f: "fifo_inv (sim_fifo s)" "m_size (sim_fifo s) = 16" "fifo_readable (sim_fifo s) = []" "fifo_written (sim_fifo s) = []"
    "fifo_taken (sim_fifo s) = 0" "sim_monitor s = Running \<or> sim_monitor s = On_data_written"
    "sim_loads s < 2 \<longrightarrow> sim_req_id s = of_nat (sim_loads s)"
    and ph: "phase_fresh m s \<or> phase_loaded over m s"
    using inv r by (auto simp: sim_inv_def sim_fifo_inv_def sim_queue_def phase_loading_def)
  show ?thesis
  proof (cases "sim_req_id s < 2")
    case True
    have c: "c_blkSize (sim_cache s) = 512" "\<not> c_isReadOnly (sim_cache s)"
      using ph by (auto simp: phase_defs fresh_cache_def loaded_def)
    have "fifo_taken (sim_fifo s) < m_size (sim_fifo s)" using f by simp
    from Load0Thread_writes [OF c f(1) this True, of junk reqptr] obtain pkt h g where
      w: "Load0Thread junk reqptr (sim_req_id s) (sim_top s) =
        Some (Inr (sim_req_id s + 1, (sim_top s)\<lparr>top_load0Fifo := g, top_l0 := (sim_cache s)\<lparr>c_heap := h\<rparr>\<rparr>))"
      and g: "load_pkt (sim_cache s) pkt" "fifo_inv g" "fifo_readable g = []" "m_size g = 16" "fifo_written g = [Some pkt]"
      using f(2-4) by (metis append_Nil)
    let ?s = "s\<lparr>sim_top := (sim_top s)\<lparr>top_load0Fifo := g, top_l0 := (sim_cache s)\<lparr>c_heap := h\<rparr>\<rparr>, sim_req_id := sim_req_id s + 1,
      sim_load := On_time, sim_loads := sim_loads s + 1\<rparr>"
    have "sim_fifo_inv ?s" using f(6,7) g by (auto simp: sim_fifo_inv_def sim_queue_def)
    moreover have "phase_fresh m ?s \<or> phase_loaded over m ?s" using ph f(3,4) g by (auto simp: phase_defs sim_queue_def)
    ultimately have "sim_inv over m ?s" unfolding sim_inv_def by blast
    moreover have "sim_measure ?s < sim_measure s" using r f(3,4) g by (simp add: sim_measure_def)
    ultimately show ?thesis using w True by (intro exI [of _ ?s]) (simp add: load_step_def)
  next
    case False
    let ?s = "s\<lparr>sim_req_id := sim_req_id s + 1, sim_load := On_time\<rparr>"
    have n: "2 \<le> sim_loads s" using False f(7) by (cases "sim_loads s"; cases "sim_loads s - 1") auto
    then have "sim_fifo_inv ?s" using f by (auto simp: sim_fifo_inv_def sim_queue_def)
    moreover have "phase_fresh m ?s \<or> phase_loaded over m ?s" using ph by (auto simp: phase_defs sim_queue_def)
    ultimately have "sim_inv over m ?s" unfolding sim_inv_def by blast
    moreover have "sim_measure ?s < sim_measure s" using r by (simp add: sim_measure_def)
    ultimately show ?thesis using False by (intro exI [of _ ?s]) (simp add: load_step_def Load0Thread_def)
  qed
qed

lemma monitor_step_inv:
  assumes inv: "sim_inv over m s" and r: "sim_monitor s = Running" and m: "memory_wf m" "512 < unat (gm_memory_size m)"
  shows "monitor_step (L0_env over tr pj lj rnd) s = Inl (Undef ''sprintf'') \<and> over < 45 \<and> 1 \<le> length (c_answered (sim_cache s)) \<or>
    (\<exists>s'. monitor_step (L0_env over tr pj lj rnd) s = Inr s' \<and> sim_inv over m s' \<and> sim_measure s' < sim_measure s \<and> sim_loads s' = sim_loads s)"
proof -
  let ?env = "L0_env over tr pj lj rnd"
  have f: "fifo_inv (sim_fifo s)" "m_size (sim_fifo s) = 16" "length (sim_queue s) \<le> 1"
    "list_all (\<lambda>x. \<exists>pkt. x = Some pkt \<and> load_pkt (sim_cache s) pkt) (sim_queue s)"
    "sim_queue s = [] \<or> sim_load s = On_time \<and> 1 \<le> sim_loads s" "sim_loads s < 2 \<longrightarrow> sim_req_id s = of_nat (sim_loads s)"
    using inv by (auto simp: sim_inv_def sim_fifo_inv_def)
  show ?thesis
  proof (cases "fifo_readable (sim_fifo s)")
    case Nil
    then have "ReqMonitor ?env (sim_top s) = None" using ring.read_waits [OF f(1), of None] by (simp add: ReqMonitor_def)
    moreover have "sim_inv over m (s\<lparr>sim_monitor := On_data_written\<rparr>)"
      using inv Nil by (auto simp: sim_inv_def sim_fifo_inv_def sim_queue_def phase_defs)
    ultimately show ?thesis using r by (intro disjI2 exI [of _ "s\<lparr>sim_monitor := On_data_written\<rparr>"]) (simp add: monitor_step_def sim_measure_def)
  next
    case (Cons x xs)
    then obtain pkt where x: "x = Some pkt" "load_pkt (sim_cache s) pkt" "xs = []" "fifo_written (sim_fifo s) = []"
      using f(3,4) by (auto simp: sim_queue_def)
    have l: "sim_load s = On_time" "1 \<le> sim_loads s" using f(5) Cons by (auto simp: sim_queue_def)
    from ring.read_next [OF f(1) Cons, of None] obtain g where g: "fifo_read None (sim_fifo s) = Some (Inr (Some pkt, g))" "fifo_inv g"
      "fifo_readable g = []" "fifo_written g = []" "m_size g = 16" using x f(2) by metis
    have rd: "ReqMonitor ?env (sim_top s) = Some (Inr ((sim_top s)\<lparr>top_load0Fifo := g, top_l0 := c\<rparr>))"
      if "recvTimingReq ?env pkt (sim_cache s) = Inr c" for c using g(1) that by (simp add: ReqMonitor_def)
    have stop: "monitor_step ?env s = Inl e" if "recvTimingReq ?env pkt (sim_cache s) = Inl e" for e
      using g(1) that by (simp add: monitor_step_def ReqMonitor_def)
    have step: "\<exists>s'. monitor_step ?env s = Inr s' \<and> sim_inv over m s' \<and> sim_measure s' < sim_measure s \<and> sim_loads s' = sim_loads s"
      if c: "recvTimingReq ?env pkt (sim_cache s) = Inr c"
        and u: "u = wake (pq_notifications (c_reqPacketQueue (sim_cache s)) < pq_notifications (c_reqPacketQueue c)) On_send_event (sim_send s)"
        and s': "s' = s\<lparr>sim_top := (sim_top s)\<lparr>top_load0Fifo := g, top_l0 := c\<rparr>, sim_send := u\<rparr>"
        and ph: "phase_loading m s' \<or> phase_loaded over m s'" for c u s'
    proof -
      have "sim_fifo_inv s'" using r l f(6) g by (simp add: s' sim_fifo_inv_def sim_queue_def)
      moreover have "sim_measure s' < sim_measure s" using Cons x(3,4) g l by (simp add: s' sim_measure_def)
      ultimately show ?thesis using rd [OF c] ph u by (intro exI [of _ s']) (simp add: monitor_step_def Let_def s' sim_inv_def)
    qed
    consider "phase_fresh m s" | "phase_loaded over m s" using inv Cons by (auto simp: sim_inv_def phase_loading_def sim_queue_def)
    then show ?thesis
    proof cases
      case 1
      then have "fresh_cache m (sim_cache s)" "sim_send s = On_send_event" "sim_loads s = 1"
        using Cons x(3,4) by (auto simp: phase_fresh_def sim_queue_def)
      with first_load [OF this(1) x(2) m, of over tr pj lj rnd] show ?thesis
        using l g by (elim exE conjE) (rule disjI2, rule step, assumption, rule refl, rule refl,
          simp add: phase_loading_def sim_queue_def wake_def)
    next
      case 2
      then have "loaded m (length (c_answered (sim_cache s))) (sim_cache s)" by (simp add: phase_loaded_def)
      from next_load [OF this x(2), of ?env] consider "recvTimingReq ?env pkt (sim_cache s) = Inl (Undef ''sprintf'')" "over < 45"
        | c where "recvTimingReq ?env pkt (sim_cache s) = Inr c" "loaded m (Suc (length (c_answered (sim_cache s)))) c"
          "c_reqPacketQueue c = c_reqPacketQueue (sim_cache s)" "3 \<le> over" by auto
      then show ?thesis
      proof cases
        case 1
        then show ?thesis using stop 2 by (simp add: phase_loaded_def)
      next
        case c: 2
        have "length (c_answered c) = Suc (length (c_answered (sim_cache s)))" using c(2) by (simp add: loaded_def)
        then show ?thesis
          using 2 Cons x(3,4) g c(2-4)
          by (intro disjI2 step [OF c(1) refl refl]) (simp add: phase_loaded_def sim_queue_def wake_def)
      qed
    qed
  qed
qed

lemma send_step_inv:
  assumes inv: "sim_inv over m s" and r: "sim_send s = Starting \<or> sim_send s = Running" and rnd: "rnd < tassoc (c_tags (sim_cache s))"
  shows "\<exists>s'. send_step (L0_env over tr pj lj rnd) s = Inr s' \<and> sim_inv over m s' \<and> sim_measure s' < sim_measure s \<and> sim_loads s' = sim_loads s"
proof -
  let ?env = "L0_env over tr pj lj rnd"
  consider "phase_fresh m s" "sim_send s = Starting" | "phase_loading m s" "sim_send s = Running"
    using inv r by (auto simp: sim_inv_def phase_defs)
  then show ?thesis
  proof cases
    case 1
    let ?s = "s\<lparr>sim_send := On_send_event\<rparr>"
    have "sim_inv over m ?s" using inv 1(1) by (auto simp: sim_inv_def sim_fifo_inv_def phase_fresh_def sim_queue_def)
    then show ?thesis using 1(2) by (intro exI [of _ ?s]) (simp add: send_step_def sim_measure_def)
  next
    case 2
    then have "loading m (sim_cache s)" by (simp add: phase_loading_def)
    then obtain c where c: "cache_processSendEvent ?env (sim_cache s) = Inr c" "loaded m 1 c"
      using rnd unfolding loading_def by blast
    let ?s = "s\<lparr>sim_top := (sim_top s)\<lparr>top_l0 := c\<rparr>, sim_send := On_send_event\<rparr>"
    have "length (c_answered c) = 1" using c(2) by (simp add: loaded_def)
    then have "phase_loaded over m ?s" using c(2) 2(1) by (simp add: phase_defs sim_queue_def)
    moreover have "sim_fifo_inv ?s" using inv 2(1) by (auto simp: sim_inv_def sim_fifo_inv_def phase_loading_def sim_queue_def)
    ultimately show ?thesis using c(1) 2(2) by (intro exI [of _ ?s]) (simp add: send_step_def pktQueueProcess_def sim_measure_def sim_inv_def)
  qed
qed

lemma update_step_inv:
  assumes inv: "sim_inv over m s" and r: "sim_idle s" "m_update_requested (sim_fifo s)"
  shows "sim_inv over m (update_step s) \<and> sim_measure (update_step s) < sim_measure s \<and> sim_loads (update_step s) = sim_loads s"
proof -
  define f where "f = snd (fifo_update (sim_fifo s))"
  have F: "sim_fifo_inv s" and ph: "phase_fresh m s \<or> phase_loaded over m s" "sim_send s = On_send_event"
    using inv r(1) by (auto simp: sim_inv_def sim_idle_def phase_defs)
  have fi: "fifo_inv (sim_fifo s)" "sim_load s = On_time" "sim_send s = On_send_event" "sim_monitor s = On_data_written"
    "fifo_readable (sim_fifo s) = []"
    using F r(1) ph(2) by (simp_all add: sim_fifo_inv_def sim_idle_def)
  have u: "fifo_inv f" "fifo_readable f = fifo_written (sim_fifo s)" "fifo_written f = []" "m_size f = m_size (sim_fifo s)"
    "snd (fst (fifo_update (sim_fifo s))) = (fifo_written (sim_fifo s) \<noteq> [])" "\<not> m_update_requested f"
    using ring.update_law [OF fi(1)] fi(5) fifo_requests(3) [of "sim_fifo s"] unfolding f_def by simp_all
  have s': "update_step s = s\<lparr>sim_top := (sim_top s)\<lparr>top_load0Fifo := f\<rparr>, sim_load := On_time,
      sim_monitor := (if fifo_written (sim_fifo s) \<noteq> [] then Running else On_data_written)\<rparr>"
    using fi(2,4) u(5) by (auto simp: update_step_def wake_def f_def split: prod.split)
  have "sim_fifo_inv (update_step s)" using F fi u(1-4) by (simp add: sim_fifo_inv_def s' sim_queue_def)
  moreover from ph(1) have "phase_fresh m (update_step s) \<or> phase_loaded over m (update_step s)" using fi(3,5) u(2,3) by (simp add: s' phase_defs sim_queue_def)
  ultimately have "sim_inv over m (update_step s)" unfolding sim_inv_def by blast
  moreover have "sim_measure (update_step s) < sim_measure s"
    using fi u(2,3,6) r(2) by (cases "fifo_written (sim_fifo s)") (simp_all add: sim_measure_def s')
  ultimately show ?thesis by (simp add: s')
qed

lemma sim_step_inv:
  assumes "sim_step over s r" "sim_inv over m s" "memory_wf m" "512 < unat (gm_memory_size m)"
  shows "r = Inl (Undef ''sprintf'') \<and> over < 45 \<and> 1 \<le> length (c_answered (sim_cache s)) \<or>
    (\<exists>s'. r = Inr s' \<and> sim_inv over m s' \<and> sim_measure s' < sim_measure s \<and> sim_loads s \<le> sim_loads s')"
  using assms(1)
proof cases
  case (load junk reqptr)
  then show ?thesis using load_step_inv [OF assms(2), of junk reqptr] by auto
next
  case (monitor rnd tr pkt_junk list_junk)
  then show ?thesis using monitor_step_inv [OF assms(2) _ assms(3,4), of tr pkt_junk list_junk rnd] by auto
next
  case (send rnd tr pkt_junk list_junk)
  then show ?thesis using send_step_inv [OF assms(2), of rnd tr pkt_junk list_junk] by auto
next
  case update
  then show ?thesis using update_step_inv [OF assms(2)] by auto
qed

lemma sim_step_exists:
  assumes "sim_inv over m s" "\<not> quiescent s"
  shows "\<exists>r. sim_step over s r"
proof (cases "sim_idle s")
  case True
  then show ?thesis using assms(2) sim_step.update by (auto simp: quiescent_def)
next
  case False
  have "demand_inv (sim_cache s)"
    using assms(1) by (auto simp: sim_inv_def phase_defs fresh_cache_def loaded_def loading_def)
  then have "0 < tassoc (c_tags (sim_cache s))" using tags_inv_assoc by (simp add: demand_inv_def cache_inv_def)
  then show ?thesis using False sim_step.intros(1-3) unfolding sim_idle_def by blast
qed

lemma sim_run_inv:
  assumes "sim_run over s0 s" "sim_inv over m s0" "memory_wf m" "512 < unat (gm_memory_size m)"
  shows "sim_inv over m s"
  using assms(1)
proof induction
  case (delta s s')
  then show ?case using sim_step_inv [OF delta.hyps(2) delta.IH assms(3,4)] by auto
next
  case (time s)
  then show ?case using time_step_inv by blast
qed (rule assms(2))

section \<open>Progress\<close>

text \<open>Every instant of time ends, whatever the order in which the threads run, unless a text overruns its buffer.\<close>

lemma reaches_quiescent:
  assumes "sim_run over s0 s" "sim_inv over m s0" "memory_wf m" "512 < unat (gm_memory_size m)"
  shows "\<exists>s'. sim_run over s0 s' \<and>
    (quiescent s' \<and> sim_loads s \<le> sim_loads s' \<or> sim_step over s' (Inl (Undef ''sprintf'')) \<and> over < 45)"
  using assms(1)
proof (induction "sim_measure s" arbitrary: s rule: less_induct)
  case less
  note inv = sim_run_inv [OF less.prems assms(2-4)]
  show ?case
  proof (cases "quiescent s")
    case False
    then obtain r where r: "sim_step over s r" using sim_step_exists [OF inv] by blast
    show ?thesis
    proof (cases r)
      case (Inl e)
      then show ?thesis using sim_step_inv [OF r inv assms(3,4)] r less.prems by blast
    next
      case (Inr t)
      have t: "sim_measure t < sim_measure s" "sim_loads s \<le> sim_loads t"
        using sim_step_inv [OF r inv assms(3,4)] Inr by simp_all
      from less.hyps [OF t(1) sim_run.delta [OF less.prems r [unfolded Inr]]] t(2) show ?thesis using le_trans by blast
    qed
  qed (use less.prems in blast)
qed

text \<open>The second load is written and then answered, or its hit overruns the buffer.\<close>

lemma second_load:
  assumes "sim_inv over m s0" "memory_wf m" "512 < unat (gm_memory_size m)"
  shows "\<exists>s. sim_run over s0 s \<and> (quiescent s \<and> 2 \<le> sim_loads s \<or> sim_step over s (Inl (Undef ''sprintf'')) \<and> over < 45)"
proof (cases "\<exists>s. sim_run over s0 s \<and> sim_step over s (Inl (Undef ''sprintf'')) \<and> over < 45")
  case False
  then obtain s where s: "sim_run over s0 s" "quiescent s" using reaches_quiescent [OF sim_run.start assms] by blast
  note inv = sim_run_inv [OF s(1) assms]
  note q = quiescent_loaded [OF inv s(2)]
  show ?thesis
  proof (cases "2 \<le> sim_loads s")
    case False
    moreover have "1 \<le> sim_loads s" "sim_loads s < 2 \<longrightarrow> sim_req_id s = of_nat (sim_loads s)"
      using inv q by (auto simp: sim_inv_def sim_fifo_inv_def)
    ultimately have "sim_loads s = 1" by simp
    then have one: "sim_loads s = 1" "sim_req_id s = 1" using \<open>_ \<longrightarrow> sim_req_id s = _\<close> by simp_all
    let ?t = "time_step s"
    have r: "sim_run over s0 ?t" using sim_run.time [OF s] q by blast
    have t: "sim_load ?t = Running" "sim_loads ?t = 1" "sim_req_id ?t = 1" using q one by (simp_all add: time_step_def wake_def)
    obtain u where u: "load_step (0, 0) 0 ?t = Inr u" "2 \<le> sim_loads u"
      using load_step_inv [OF time_step_inv [OF inv s(2)] t(1), of "(0, 0)" 0] t by auto
    have "sim_run over s0 u" using sim_run.delta [OF r] sim_step.load [OF t(1), of over "(0, 0)" 0] u(1) by simp
    from reaches_quiescent [OF this assms] u(2) show ?thesis using le_trans by blast
  qed (use s in blast)
qed blast

text \<open>With the buffer of the source, the hit of the second load is undefined.\<close>

lemma second_load_overruns:
  assumes "over < 3" "sim_inv over m s0" "memory_wf m" "512 < unat (gm_memory_size m)"
  shows "\<exists>s. sim_run over s0 s \<and> sim_step over s (Inl (Undef ''sprintf''))"
proof -
  have "sim_loads s < 2" if s: "sim_run over s0 s" "quiescent s" for s
    using quiescent_loaded [OF sim_run_inv [OF s(1) assms(2-4)] s(2)] assms(1) by (auto simp: phase_loaded_def)
  then show ?thesis using second_load [OF assms(2-4)] by (metis not_le)
qed

end
