(* ===== verification/Spec2Isabelle.thy ===== *)
theory Spec2Isabelle
  imports Bitfield Intmath Base_Types Cache_Request Mem_Cmd Cache_Packet Cache_Blk Indexing
    Replacement Tags Cache_Queue Mshr Mshr_Queue Write_Queue
    Write_Allocator Packet_Queue Global_Memory Prefetch Cache_State Cache_Response Cache_Access
    Cache_Service Cache_Run Simulation Printing Probe Hashing Random_Engine Sc_Fifo Schedule
begin

text \<open>
  Verification library for Kuiper-Cache, a SystemC model of a cache hierarchy derived from the classic
  caches of gem5. Source paths are relative to \<open>src/\<close>.

  \<^bold>\<open>The program.\<close> A processor side writes packets to a fifo; a port thread hands each packet to the L0
  cache. The cache looks the address up in a set-associative tag store. A hit is answered at once. A
  miss is recorded as a target of a miss status holding register (MSHR), one register for a block; the
  send event of the packet queue takes the first ready register, sends a read of the block to the
  memory through a TLM socket, fills a block of the tag store with the response and answers the
  targets of the register. Beside this path there are a write buffer, a write allocator, prefetchers
  with a queue of their own, and probes that connect prefetchers to caches.

  \<^bold>\<open>Conventions\<close> (\<open>Kuiper_Prelude\<close>). Integers are words of the width of the source. An operation that
  can stop the program returns \<open>abort + 'a\<close>: a failed assertion with its condition (the build defines no
  \<open>NDEBUG\<close>), an exception, or undefined behaviour (null or dangling pointer, index out of range, too
  wide a shift). Objects are records, derived classes record extensions, pointers into a container
  its indices; byte buffers live in a heap that is passed along. A loop that may not end is a
  \<open>partial_function\<close> in the option monad; every other one is a total function, so no fuel is needed.
  Values that no code determines (uninitialised members, addresses of objects, drawn random numbers,
  the fresh TLM payload) are arguments, and the theorems hold for all of them.

  \<^bold>\<open>Theories, in the order of their imports.\<close>
  \<^item> \<open>Bitfield\<close>, \<open>Intmath\<close>, \<open>Base_Types\<close>: \<open>base/include/bitfield.h\<close>, \<open>intmath.h\<close>, \<open>flags.h\<close>, \<open>types.h\<close>,
    \<open>extensible.h\<close>. Correctness of the bit searches, of rounding, logarithms and double-width products,
    and equality of the portable with the builtin versions.
  \<^item> \<open>Cache_Request\<close>, \<open>Mem_Cmd\<close>, \<open>Cache_Packet\<close>: \<open>cache/include/cache_request.h\<close>, \<open>cache_packet.h\<close>,
    \<open>cache/cache_packet.cpp\<close>. The command table is consistent, responses match requests, splitting a
    request tiles it, masked writes copy the enabled bytes, sender states form a stack.
  \<^item> \<open>Cache_Blk\<close>, \<open>Indexing\<close>, \<open>Replacement\<close>, \<open>Tags\<close>: blocks with their locks, set-associative indexing,
    random replacement and the tag store (\<open>replaceable/\<close>, \<open>indexing/\<close>, \<open>tags/\<close>, \<open>cache/include/cache_blk.h\<close>).
    The locales \<open>indexing_policy\<close>, \<open>replacement_policy\<close> and \<open>tag_store\<close> state what each promises to the next,
    and are interpreted on the model. The store refines a partial map from block addresses to blocks:
    lookup is exact, insertion is an update, invalidation a removal.
  \<^item> \<open>Cache_Queue\<close>, \<open>Mshr\<close>, \<open>Mshr_Queue\<close>, \<open>Write_Queue\<close>: the queue template with its entries (\<open>mshr/\<close>, \<open>write/\<close>,
    \<open>cache/include/cache_queue.h\<close>). The locale \<open>queue_entry\<close> is what the template needs of an entry; both
    queues interpret it. Every sequence of operations keeps the lists a partition of the entries;
    targets are kept in order, none is lost, and all are handed out.
  \<^item> \<open>Write_Allocator\<close>, \<open>Packet_Queue\<close>, \<open>Global_Memory\<close>, \<open>Prefetch\<close>, \<open>Probe\<close>: the mode machine for streams of
    writes, the transmit list, the memory with the initiator that calls it, the prefetchers
    (\<open>prefetch/\<close>) and the probes (\<open>base/probe.cpp\<close>), whose manager is a map from names to listeners; the
    locale \<open>probe_bus\<close> is what the prefetcher relies on of it.
  \<^item> \<open>Printing\<close>: the texts for the log, with the buffers they are written to. The texts of packets and
    registers fit; the text of a block never does.
  \<^item> \<open>Cache_State\<close>, \<open>Cache_Response\<close>, \<open>Cache_Access\<close>: \<open>BaseCache\<close> with the virtual functions of
    \<open>NoncoherentCache\<close> (\<open>cache/cache_base.cpp\<close>, \<open>cache/cache_noncoherent.cpp\<close>): state and invariant, the path
    of a response, the path of a request, with the texts that they make for the log. Theorems on hits
    and misses: the whole state after a hit, and how a miss is recorded.
  \<^item> \<open>Cache_Service\<close>, \<open>Cache_Run\<close>: how a miss is served. The locale \<open>lower_level\<close> states what the cache
    relies on below it - a read of a block fills the packet or fails and changes nothing - and is
    interpreted on the initiator and the global memory. \<open>L0_run\<close> is the step relation of requests, send
    events and retries.
  \<^item> \<open>Random_Engine\<close>, \<open>Hashing\<close>: \<open>base/include/random.h\<close> with the engine of the C++ standard, whose draw for the
    replacement policy stays among the candidates, and \<open>base/include/hash_helpers.h\<close>, whose mixing steps are
    injective.
  \<^item> \<open>Sc_Fifo\<close>: the fifo channel of SystemC, a ring buffer with delayed visibility. The locale \<open>delta_channel\<close> is
    what its clients rely on.
  \<^item> \<open>Simulation\<close>, \<open>Schedule\<close>: the configuration, the constructors and the threads of \<open>top/\<close>, as functions of one
    iteration each; then the runs of the test program, a step relation with the evaluation, update and
    time phases of the simulation kernel, its invariant, and a measure that shows that every instant ends.
  \<^item> This theory: the properties that span components. \<open>requests_conserved\<close> and \<open>miss_served\<close> are the safety
    and the progress of the cache with its memory, \<open>configured_cache_wf\<close> and \<open>simulation_answers\<close> are about the
    program as it is configured and run.

  \<^bold>\<open>Overruns.\<close> Two buffers of the source are too small, and what happens then is undefined. Every hit
  formats the text of its block, 103 to 145 characters, into a string of 100: the number of characters
  that can be overwritten behind the string without an effect is a parameter, \<open>env_overrun\<close>, and the
  theorems say what happens for each value; the C++ standard promises 0, for which every hit is
  undefined. The constructor of the memory writes one byte behind it (\<open>Top_new\<close>); what the cache does
  is proved for any memory of the configured size.

  \<^bold>\<open>What the code does not do.\<close> Several bodies of the source are commented out, and the model follows
  the source: block data is never written, evictions do not happen, no write can enter the write
  buffer. The theorems say so where it matters: a full set aborts the cache (\<open>miss_served\<close>), the
  memory never changes (\<open>requests_conserved\<close>), every buffered write aborts (\<open>write_queue_allocate_aborts\<close>).

  \<^bold>\<open>Not modelled.\<close> The code of the simulation kernel: \<open>Schedule\<close> takes from its standard what the threads rely
  on, \<open>L0_run\<close> allows any sequence of steps, and the clock is the constant that \<open>curTick()\<close> returns. The
  output of the logger. The distributions of random numbers, which are parameters; the cache takes the
  number drawn as an argument. Float casts of \<open>types.h\<close>, macros and stream helpers of
  \<open>base/\<close>, the debug dumps of \<open>cache/cache.cpp\<close>, the second-level cache and skewed indexing, which are
  commented out, and the third-party libraries under \<open>lib/\<close> but for the fifo.
\<close>

section \<open>Runs of the cache\<close>

definition sample_memory :: Memory where
  "sample_memory = \<lparr>gm_ID = 0, gm_read_delay = 0, gm_write_delay = 0, gm_memory_size = 512 * 1024 * 1024, gm_memory_width = 1024,
    gm_memory = replicate (512 * 1024 * 1024) 0, gm_previous_warning = False\<rparr>"

lemma configured_memory: "memory_wf sample_memory" "gm_memory_size sample_memory = mp_cap InitMemory"
  by (simp_all add: memory_wf_def InitMemory_def sample_memory_def)

lemma sample_L0: "\<exists>s. fresh_L0 m s"
proof -
  obtain p where "InitSimObject (\<lambda>_. ((0, 0), 0)) Null (p0\<lparr>nc_base := (nc_base p0)\<lparr>cp_prefetcher := None\<rparr>\<rparr>) = Inr (p, InitMemory)"
    using InitSimObject_builds by blast
  from L0_configured [OF this, of "(0, 0, False)" "((0, 0), 0)" 0 "\<lambda>_. 0" "\<lambda>_ _. None" "[]" m] show ?thesis by auto
qed

definition sample_payload :: payload where
  "sample_payload = \<lparr>gp_command = TLM_IGNORE_COMMAND, gp_address = 0, gp_data = Null, gp_length = 0, gp_byte_enable = False,
     gp_streaming_width = 0, gp_response = TLM_INCOMPLETE_RESPONSE\<rparr>"

definition sample_env :: "(unit, Memory) cache_env" where
  "sample_env = L0_env 0 sample_payload ((0, 0), 0, \<lambda>_. 0) (0, 0, False) 0"

lemma sample_load:
  assumes "fresh_L0 m s"
  shows "\<exists>pkt. demand_req (top_l0 s) pkt \<and> p_addr pkt = 0 \<and> p_cmd pkt = ReadReq \<and> \<not> p_isSecure pkt"
  using AllocateReqPacket_demand [of ReadReq "top_l0 s" "(0, 0)" 0 "[]"] assms by (auto simp: fresh_defs)

text \<open>
  C4: no request is lost, duplicated or answered for someone else. In every run of the L0 cache from a
  state without pending requests - requests, send events and retries in any order - the responses given
  so far together with the responses that the targets of the registers still expect are exactly the
  responses to the requests accepted, each as often as it was requested; the registers stay distinct,
  hold requests for blocks that are absent, and every block present is readable and writable. The
  memory below the cache never changes.
\<close>

theorem requests_conserved:
  assumes "L0_run c0 ps c" "demand_inv c0" "memory_wf (c_below c0)" "c_answered c0 = []" "q_allocatedList (c_mshrQueue c0) = []"
  shows "mset (map response_key (c_answered c)) + mset (map request_key (pending c)) = mset (map request_key ps) \<and>
    demand_inv c \<and> c_below c = c_below c0"
  using L0_run_inv [OF assms(1-3)] assms(4,5) by (simp add: accounted_def pending_def)

theorem requests_conserved_witness:
  "\<exists>c0 c pkt. L0_run c0 [pkt] c \<and> c_answered c = [] \<and> map request_key (pending c) = [request_key pkt]"
proof -
  obtain s where s: "fresh_L0 sample_memory s" using sample_L0 by blast
  obtain pkt where p: "demand_req (top_l0 s) pkt" using sample_load [OF s] by blast
  obtain c where c: "recvTimingReq sample_env pkt (top_l0 s) = Inr c" "c_answered c = []"
    using fresh_miss [OF fresh_L0_cache [OF s] p] unfolding sample_env_def by blast
  have r: "L0_run (top_l0 s) [pkt] c"
    using L0_run.request [OF L0_run.start p c(1) [unfolded sample_env_def]] by simp
  have "mset (map request_key (pending c)) = {#request_key pkt#}"
    using requests_conserved [OF r] s configured_memory(1) c(2) by (simp add: fresh_defs)
  then have k: "map request_key (pending c) = [request_key pkt]" by (simp only: mset_single_iff)
  show ?thesis
  proof (intro exI conjI)
    show "L0_run (top_l0 s) [pkt] c" by (rule r)
    show "c_answered c = []" by (rule c(2))
    show "map request_key (pending c) = [request_key pkt]" by (rule k)
  qed
qed

text \<open>
  C5: when the send event of the L0 cache is processed and a register is ready, the first ready register
  is served if its block ends before the last byte of the memory and its set has a free way: its targets
  are answered in the order of arrival, its block is present with read and write permission, the
  register is freed, other registers and the memory are unchanged - and processing the send event again
  aborts, since a successful send is recorded as waiting for a retry. Otherwise the cache aborts: there
  is no error response for a refused address, and a full set is never relieved by an eviction. The
  last block of the memory is among the refused ones although it lies inside: \<open>check_address\<close>
  refuses an access that ends where the memory ends.
\<close>

theorem miss_served:
  assumes "demand_inv c" "q_readyList (c_mshrQueue c) = i # js" "\<not> pq_waitingOnRetry (c_reqPacketQueue c)"
    and "memory_wf (c_below c)" "rnd < tassoc (c_tags c)"
  shows "if unat (qe_blkAddr (get_mshr i c)) + unat (c_blkSize c) < unat (gm_memory_size (c_below c)) \<and>
      free_way c (qe_blkAddr (get_mshr i c))
    then \<exists>c'. cache_processSendEvent (L0_env over tr junk lj rnd) c = Inr c' \<and> served i c c' \<and> demand_inv c' \<and>
      (\<forall>env. cache_processSendEvent env c' = Inl (AssertFail ''!waitingOnRetry''))
    else \<exists>e. cache_processSendEvent (L0_env over tr junk lj rnd) c = Inl e"
proof -
  have again: "pq_waitingOnRetry (c_reqPacketQueue c') \<Longrightarrow> cache_processSendEvent env c' = Inl (AssertFail ''!waitingOnRetry'')"
    for c' :: "(unit, Memory) BaseCache" and env by (simp add: cache_processSendEvent_def)
  show ?thesis
    using L0_serves [OF assms, of over tr junk lj]
    by (cases "unat (qe_blkAddr (get_mshr i c)) + unat (c_blkSize c) < unat (gm_memory_size (c_below c)) \<and>
      free_way c (qe_blkAddr (get_mshr i c))") (auto simp: again)
qed

theorem miss_served_witness:
  "\<exists>c c' i. cache_processSendEvent sample_env c = Inr c' \<and> served i c c' \<and> length (all_targets (get_mshr i c)) = 1 \<and>
     cache_processSendEvent sample_env c' = Inl (AssertFail ''!waitingOnRetry'')"
proof -
  obtain s where s: "fresh_L0 sample_memory s" using sample_L0 by blast
  obtain pkt where p: "demand_req (top_l0 s) pkt" "p_addr pkt = 0" using sample_load [OF s] by blast
  obtain c i js t where c: "demand_inv c" "q_readyList (c_mshrQueue c) = i # js" "all_targets (get_mshr i c) = [t]"
    "qe_blkAddr (get_mshr i c) = blk_align (bt_indexingPolicy (c_tags (top_l0 s))) (p_addr pkt)" "access_frame (top_l0 s) c"
    "free_way c (qe_blkAddr (get_mshr i c))"
    using fresh_miss [OF fresh_L0_cache [OF s] p(1)] by blast
  have f: "\<not> pq_waitingOnRetry (c_reqPacketQueue c)" "c_below c = sample_memory" "c_blkSize c = 512" "qe_blkAddr (get_mshr i c) = 0"
    using s c(4,5) p(2) by (simp_all add: access_frame_def fresh_defs blk_align_def)
  have "0 < tassoc (c_tags c)" using c(1) tags_inv_assoc by (auto simp: demand_inv_def cache_inv_def)
  from miss_served [OF c(1,2) f(1) _ this, of 0 sample_payload "((0, 0), 0, \<lambda>_. 0)" "(0, 0, False)"] configured_memory f(2-4) c(6)
  obtain c' where "cache_processSendEvent sample_env c = Inr c'" "served i c c'"
    "cache_processSendEvent sample_env c' = Inl (AssertFail ''!waitingOnRetry'')"
    unfolding sample_env_def by (auto simp: InitMemory_def)
  with c(3) show ?thesis by (intro exI [of _ c] exI [of _ c'] exI [of _ i]) simp
qed

section \<open>The simulation\<close>

text \<open>
  C7: the configuration of the simulator is consistent: the parameters that \<open>SimObject\<close> sets let the
  indexing policy, the tag store, the prefetcher and the L0 cache be constructed without a failing
  assertion, whatever the uninitialised values are, and the cache starts empty, in its invariant, with
  blocks of 512 bytes, with no register in use and nothing to send - provided the prefetcher pointer,
  which no code sets, is null.
\<close>

theorem configured_cache_wf:
  assumes "cp_prefetcher (nc_base p0) = None"
  shows "\<exists>p. InitSimObject junk dat p0 = Inr (p, InitMemory) \<and>
    (\<exists>s. L0_new lj bj aj bytes None fj p h m = Inr s \<and> demand_inv (top_l0 s) \<and> pending (top_l0 s) = [] \<and>
       c_answered (top_l0 s) = [] \<and> c_blkSize (top_l0 s) = 512 \<and> \<not> Queue_isFull (c_mshrQueue (top_l0 s)) \<and>
       (\<forall>a sec. findBlock a sec (c_tags (top_l0 s)) = Inr None))"
proof -
  obtain p where p: "InitSimObject junk dat p0 = Inr (p, InitMemory)" using InitSimObject_builds by blast
  obtain s where s: "L0_new lj bj aj bytes None fj p h m = Inr s" "fresh_L0 m s" using L0_configured [OF p assms] by blast
  then have "tags_inv (c_tags (top_l0 s))" by (simp add: fresh_defs demand_inv_def cache_inv_def)
  then have "\<forall>a sec. findBlock a sec (c_tags (top_l0 s)) = Inr None" using s(2) by (simp add: findBlock_Inr fresh_defs)
  with s p show ?thesis by (intro exI [of _ p] conjI exI [of _ s]) (simp_all add: fresh_defs pending_def)
qed

definition sample_params :: NoncoherentCacheParams where
  "sample_params =
     \<lparr>nc_base = \<lparr>cp_mshrs = 0, cp_demand_mshr_reserve = 0, cp_write_buffers = 0, cp_writeback_clean = False, cp_tgts_per_mshr = 0,
        cp_is_read_only = False, cp_cacheline_size = 0, cp_prefetcher = None\<rparr>,
      nc_name = [], nc_size = 0, nc_assoc = 0, nc_port_cpu_side_connection_count = 0, nc_port_mem_side_connection_count = 0,
      nc_move_contractions = False, nc_replace_expansions = False, nc_random = False, nc_replacement_policy = False,
      nc_tags = \<lparr>tp_block_size = 0, tp_size = 0, tp_sequential_access = False, tp_tag_latency = 0, tp_assoc = 0,
        tp_indexing_policy = None, tp_replacement_policy = False\<rparr>,
      nc_warmup_percentage = 0, nc_entry_size = 0, nc_index = \<lparr>ipp_assoc = 0, ipp_entry_size = 0, ipp_size = 0\<rparr>, nc_tag_store = None,
      nc_prefetch = \<lparr>pp_block_size = 0, pp_on_data = False, pp_on_inst = False, pp_on_miss = False, pp_on_read = False,
        pp_on_write = False, pp_page_bytes = 0, pp_prefetch_on_access = False, pp_prefetch_on_pf_hit = False,
        pp_use_virtual_addresses = False, pp_cache_snoop = False, pp_latency = 0, pp_max_missing = 0, pp_queue_filter = False,
        pp_queue_size = 0, pp_queue_squash = False, pp_tag_prefetch = False, pp_throttle_control_percentage = 0, pp_degree = 0\<rparr>,
      nc_tagged = None\<rparr>"

theorem configured_cache_wf_witness:
  "\<exists>p s. InitSimObject (\<lambda>_. ((0, 0), 0)) Null sample_params = Inr (p, InitMemory) \<and>
     L0_new (0, 0, False) ((0, 0), 0) 0 (\<lambda>_. 0) None (\<lambda>_ _. None) p [] sample_memory = Inr s \<and> c_blkSize (top_l0 s) = 512"
proof -
  have "cp_prefetcher (nc_base sample_params) = None" by (simp add: sample_params_def)
  from configured_cache_wf [OF this, of "\<lambda>_. ((0, 0), 0)" Null "(0, 0, False)" "((0, 0), 0)" 0 "\<lambda>_. 0" "\<lambda>_ _. None" "[]" sample_memory]
  show ?thesis by blast
qed

text \<open>
  C6: what the threads of the test program do on the configured cache, however the simulation kernel
  schedules them. The program as it is configured does not get this far: the constructor of its memory
  writes behind the memory, which is undefined; the rest holds for a memory of the configured size,
  however it came about. In every state reached a step is possible until nothing is left to do at this
  instant of time, and each step brings this closer; no assertion fails, and the only step that does
  not return is a hit, after the first answer, whose text for the log overruns its buffer. Once nothing
  is left to do, every load written so far, at least one, has a response with the command, address and
  size of a read of it, nothing is pending, the memory is unchanged, and the load thread waits for its next
  iteration, which writes the second load when there has been only one. With the buffer as the
  source has it no second response is ever given, and runs exist in which the second load overruns it;
  with 45 characters to spare behind the buffer both loads are answered.
\<close>

theorem simulation_answers:
  assumes "InitSimObject junk0 dat p0 = Inr (p, mp)" "cp_prefetcher (nc_base p0) = None"
    and "L0_new lj bj aj bytes None fj p h m = Inr t0" "memory_wf m" "gm_memory_size m = mp_cap mp"
    and "sim_run over (TestCache_start t0) s"
  shows "Top_new lj bj aj bytes None fj p mp h = Some (Inl (Undef ''m_memory[i]'')) \<and>
    (\<forall>r. sim_step over s r \<longrightarrow> (\<exists>s'. r = Inr s' \<and> sim_measure s' < sim_measure s) \<or>
       r = Inl (Undef ''sprintf'') \<and> over < 45 \<and> 1 \<le> length (c_answered (sim_cache s))) \<and>
    (quiescent s \<or> (\<exists>r. sim_step over s r)) \<and>
    (quiescent s \<longrightarrow> sim_load s = On_time \<and> length (c_answered (sim_cache s)) = sim_loads s \<and> 1 \<le> sim_loads s \<and>
       (\<forall>r \<in> set (c_answered (sim_cache s)). p_cmd r = ReadResp \<and> p_addr r = 0 \<and> p_size r = 128) \<and>
       pending (sim_cache s) = [] \<and> c_below (sim_cache s) = m \<and> (sim_loads s = 1 \<longrightarrow> sim_req_id s = 1)) \<and>
    (over < 3 \<longrightarrow> length (c_answered (sim_cache s)) \<le> 1 \<and>
       (\<exists>s'. sim_run over (TestCache_start t0) s' \<and> sim_step over s' (Inl (Undef ''sprintf'')))) \<and>
    (45 \<le> over \<longrightarrow> (\<exists>s'. sim_run over (TestCache_start t0) s' \<and> quiescent s' \<and> 2 \<le> sim_loads s'))"
proof -
  have f: "fresh_L0 m t0" using L0_configured [OF assms(1,2), of lj bj aj bytes fj h m] assms(3) by simp
  have mp: "mp = InitMemory" using InitSimObject_builds [of junk0 dat p0] assms(1) by auto
  then have m: "512 < unat (gm_memory_size m)" using assms(5) by (simp add: InitMemory_def)
  note inv0 = TestCache_start_inv [OF f, of over]
  note inv = sim_run_inv [OF assms(6) inv0 assms(4) m]
  have q: "sim_load s = On_time \<and> sim_queue s = [] \<and> phase_loaded over m s \<and> sim_fifo_inv s" if "quiescent s"
    using quiescent_loaded [OF inv that] inv by (simp add: sim_inv_def)
  have one: "length (c_answered (sim_cache s)) \<le> 1" if "over < 3"
    using inv that by (auto simp: sim_inv_def phase_defs fresh_cache_def loading_def)
  show ?thesis
  proof (intro conjI impI allI)
    fix r assume "sim_step over s r"
    then show "(\<exists>s'. r = Inr s' \<and> sim_measure s' < sim_measure s) \<or>
        r = Inl (Undef ''sprintf'') \<and> over < 45 \<and> 1 \<le> length (c_answered (sim_cache s))"
      using sim_step_inv [OF _ inv assms(4) m] by blast
  next
    show "quiescent s \<or> (\<exists>r. sim_step over s r)" using sim_step_exists [OF inv] by blast
  next
    show "\<exists>s'. sim_run over (TestCache_start t0) s' \<and> sim_step over s' (Inl (Undef ''sprintf''))" if "over < 3"
      using second_load_overruns [OF that inv0 assms(4) m] .
  next
    show "\<exists>s'. sim_run over (TestCache_start t0) s' \<and> quiescent s' \<and> 2 \<le> sim_loads s'" if "45 \<le> over"
      using second_load [OF inv0 assms(4) m] that by auto
  qed (use q one Top_new_overruns mp in \<open>auto simp: phase_loaded_def loaded_def sim_fifo_inv_def list_all_iff load_answer_def\<close>)
qed

text \<open>With room behind the buffer, both loads of the test program are answered.\<close>

theorem simulation_answers_witness:
  "\<exists>p t0 s. InitSimObject (\<lambda>_. ((0, 0), 0)) Null sample_params = Inr (p, InitMemory) \<and>
     L0_new (0, 0, False) ((0, 0), 0) 0 (\<lambda>_. 0) None (\<lambda>_ _. None) p [] sample_memory = Inr t0 \<and>
     sim_run 45 (TestCache_start t0) s \<and> quiescent s \<and> 2 \<le> length (c_answered (sim_cache s)) \<and> pending (sim_cache s) = []"
proof -
  obtain p where p: "InitSimObject (\<lambda>_. ((0, 0), 0)) Null sample_params = Inr (p, InitMemory)" using InitSimObject_builds by blast
  have n: "cp_prefetcher (nc_base sample_params) = None" by (simp add: sample_params_def)
  obtain t0 where t: "L0_new (0, 0, False) ((0, 0), 0) 0 (\<lambda>_. 0) None (\<lambda>_ _. None) p [] sample_memory = Inr t0"
    using L0_configured [OF p n] by blast
  obtain s where s: "sim_run 45 (TestCache_start t0) s" "quiescent s" "2 \<le> sim_loads s"
    using simulation_answers [OF p n t configured_memory sim_run.start, of 45] by auto
  from simulation_answers [OF p n t configured_memory s(1)] s(2,3)
  have "2 \<le> length (c_answered (sim_cache s))" "pending (sim_cache s) = []" by simp_all
  with p t s show ?thesis by blast
qed

end
